(* ===== verification/Prelude.thy ===== *)
theory Prelude
  imports Main "HOL-Library.Monad_Syntax" "HOL-Library.AList" "HOL-Library.Multiset"
begin

text \<open>
  What every component shares.  The conventions are these.

  \<^item> A \<^verbatim>\<open>u64\<close> or \<^verbatim>\<open>usize\<close> is a \<open>nat\<close>.  Log positions, terms and counters are far below
    \<open>2 ^ 64\<close>, so additions are exact; where the source names \<^verbatim>\<open>u64::MAX\<close> the model
    names \<open>u64_MAX\<close>, and where it subtracts, the guard that keeps the difference non-negative is
    the source's own or is written as a panic.
  \<^item> \<open>None\<close> of an \<open>option\<close> result is a panic (\<^verbatim>\<open>panic!\<close>, \<^verbatim>\<open>fatal!\<close>, \<^verbatim>\<open>assert!\<close>,
    \<^verbatim>\<open>unwrap\<close> of \<^verbatim>\<open>None\<close>/\<^verbatim>\<open>Err\<close>, an index out of range).  The code after a panic does not
    run, which is \<open>Option.bind\<close>.
  \<^item> A Rust \<^verbatim>\<open>Result<T, Error>\<close> is a sum, \<open>Inl\<close> the error.
  \<^item> A \<^verbatim>\<open>HashSet\<close> is a list without duplicates and a \<^verbatim>\<open>HashMap\<close> an association list with
    distinct keys: the list order is the (unspecified) iteration order, and the theorems quantify
    over it.
\<close>

type_synonym u64 = nat
type_synonym bytes = string
type_synonym 'a panics = "'a option"
type_synonym ('k, 'v) hmap = "('k \<times> 'v) list"

definition u64_MAX :: nat where
  "u64_MAX = 2 ^ 64 - 1"

definition NO_LIMIT :: nat where
  "NO_LIMIT = u64_MAX"

definition INVALID_ID :: nat where
  "INVALID_ID = 0"

definition INVALID_INDEX :: nat where
  "INVALID_INDEX = 0"

datatype StorageError =
    Compacted
  | Unavailable
  | LogTemporarilyUnavailable
  | SnapshotOutOfDate
  | SnapshotTemporarilyUnavailable
  | Other string

datatype Error =
    Io string
  | Store StorageError
  | StepLocalMsg
  | StepPeerNotFound
  | ProposalDropped
  | ConfigInvalid string
  | CodecError string
  | Exists nat string
  | NotExists nat string
  | ConfChangeError string
  | RequestSnapshotDropped

text \<open>\<open>assert!\<close> and guarded \<open>fatal!\<close>: continue when the condition holds, panic otherwise.\<close>

definition ensure :: "bool \<Rightarrow> unit panics" where
  "ensure b = (if b then Some () else None)"

text \<open>A \<open>for\<close> loop over the elements of a collection whose body may panic.\<close>

fun foldM :: "('a \<Rightarrow> 's \<Rightarrow> 's panics) \<Rightarrow> 'a list \<Rightarrow> 's \<Rightarrow> 's panics" where
  "foldM f [] s = Some s"
| "foldM f (x # xs) s = Option.bind (f x s) (foldM f xs)"

text \<open>Indexing, slicing and subtraction, which panic out of range.\<close>

definition index :: "'a list \<Rightarrow> nat \<Rightarrow> 'a panics" where
  "index xs i = (if i < length xs then Some (xs ! i) else None)"

definition slice :: "'a list \<Rightarrow> nat \<Rightarrow> nat \<Rightarrow> 'a list panics" where
  "slice xs lo hi = (if lo \<le> hi \<and> hi \<le> length xs then Some (take (hi - lo) (drop lo xs)) else None)"

definition sub :: "nat \<Rightarrow> nat \<Rightarrow> nat panics" where
  "sub a b = (if b \<le> a then Some (a - b) else None)"

text \<open>\<open>unwrap\<close> of a \<open>Result\<close>.\<close>

definition unwrap :: "Error + 'a \<Rightarrow> 'a panics" where
  "unwrap r = (case r of Inl e \<Rightarrow> None | Inr x \<Rightarrow> Some x)"

definition hs_insert :: "'a \<Rightarrow> 'a list \<Rightarrow> 'a list" where
  "hs_insert x xs = (if x \<in> set xs then xs else xs @ [x])"

definition hs_remove :: "'a \<Rightarrow> 'a list \<Rightarrow> 'a list" where
  "hs_remove x xs = filter (\<lambda>y. y \<noteq> x) xs"

definition hs_extend :: "'a list \<Rightarrow> 'a list \<Rightarrow> 'a list" where
  "hs_extend xs ys = foldl (\<lambda>acc y. hs_insert y acc) xs ys"

definition hm_insert :: "'k \<Rightarrow> 'v \<Rightarrow> ('k, 'v) hmap \<Rightarrow> ('k, 'v) hmap" where
  "hm_insert k v m = AList.update k v m"

definition hm_remove :: "'k \<Rightarrow> ('k, 'v) hmap \<Rightarrow> ('k, 'v) hmap" where
  "hm_remove k m = AList.delete k m"

definition hm_contains :: "('k, 'v) hmap \<Rightarrow> 'k \<Rightarrow> bool" where
  "hm_contains m k = (map_of m k \<noteq> None)"

definition hm_modify :: "'k \<Rightarrow> ('v \<Rightarrow> 'v) \<Rightarrow> ('k, 'v) hmap \<Rightarrow> ('k, 'v) hmap" where
  "hm_modify k f m = map (\<lambda>(j, v). if j = k then (j, f v) else (j, v)) m"

abbreviation keys :: "('k, 'v) hmap \<Rightarrow> 'k list" where
  "keys m \<equiv> map fst m"

named_theorems frame \<open>what an operation leaves unchanged\<close>
named_theorems invs \<open>an operation keeps an invariant\<close>

subsection \<open>Panics\<close>

lemma ensure_simps [simp]: "ensure True = Some ()" "ensure False = None"
  by (simp_all add: ensure_def)

lemma ensure_eq_Some [simp]: "ensure b = Some u \<longleftrightarrow> b"
  by (simp add: ensure_def)

lemma ensure_eq_None [simp]: "ensure b = None \<longleftrightarrow> \<not> b"
  by (simp add: ensure_def)

lemma index_simps [simp]: "i < length xs \<Longrightarrow> index xs i = Some (xs ! i)" "index xs i = None \<longleftrightarrow> length xs \<le> i"
  by (auto simp: index_def)

lemma index_eq_Some: "index xs i = Some x \<longleftrightarrow> i < length xs \<and> x = xs ! i"
  by (auto simp: index_def)

lemma slice_simps [simp]:
  "lo \<le> hi \<Longrightarrow> hi \<le> length xs \<Longrightarrow> slice xs lo hi = Some (take (hi - lo) (drop lo xs))"
  by (simp add: slice_def)

lemma sub_simps [simp]: "b \<le> a \<Longrightarrow> sub a b = Some (a - b)" "sub a b = Some c \<longleftrightarrow> b \<le> a \<and> c = a - b"
  by (auto simp: sub_def)

lemma unwrap_simps [simp]: "unwrap (Inr x) = Some x" "unwrap (Inl e) = None"
  by (simp_all add: unwrap_def)

lemmas panics_simps = bind_eq_Some_conv bind_eq_None_conv

lemma bind_SomeE:
  assumes "Option.bind m f = Some y"
  obtains x where "m = Some x" "f x = Some y"
  using assms by (auto simp: bind_eq_Some_conv)

lemma foldM_append [simp]: "foldM f (xs @ ys) s = Option.bind (foldM f xs s) (foldM f ys)"
  proof (induction xs arbitrary: s)
  case (Cons x xs)
  then show ?case by (cases "f x s") auto
qed simp

text \<open>A loop invariant: what every iteration keeps, the whole loop keeps.\<close>

lemma foldM_inv:
  assumes "foldM f xs s = Some t" and "P s"
    and "\<And>x s t. x \<in> set xs \<Longrightarrow> P s \<Longrightarrow> f x s = Some t \<Longrightarrow> P t"
  shows "P t"
  using assms
proof (induction xs arbitrary: s)
  case Nil
  then show ?case by simp
next
  case (Cons x xs)
  from Cons.prems(1) obtain s' where s': "f x s = Some s'" "foldM f xs s' = Some t"
    by (auto elim: bind_SomeE)
  have "P s'" using Cons.prems(2,3) s'(1) by auto
  then show ?case using Cons.IH [OF s'(2)] Cons.prems(3) by auto
qed

text \<open>A relation between the states before and after, reflexive and transitive along the loop.\<close>

lemma foldM_rel:
  assumes "foldM f xs s = Some t" and "\<And>s. R s s"
    and "\<And>s t u. R s t \<Longrightarrow> R t u \<Longrightarrow> R s u"
    and "\<And>x s t. x \<in> set xs \<Longrightarrow> f x s = Some t \<Longrightarrow> R s t"
  shows "R s t"
  using assms(1) by (rule foldM_inv [where P = "R s"]) (use assms in blast)+

lemma foldM_const:
  assumes "foldM f xs s = Some t"
    and "\<And>x s t. x \<in> set xs \<Longrightarrow> f x s = Some t \<Longrightarrow> g t = g s"
  shows "g t = g s"
  using assms(1) by (rule foldM_rel [where R = "\<lambda>s t. g t = g s"]) (use assms in simp_all)

subsection \<open>Hash sets and hash maps\<close>

lemma set_hs_insert [simp]: "set (hs_insert x xs) = insert x (set xs)"
  by (auto simp: hs_insert_def)

lemma distinct_hs_insert [simp]: "distinct xs \<Longrightarrow> distinct (hs_insert x xs)"
  by (auto simp: hs_insert_def)

lemma set_hs_remove [simp]: "set (hs_remove x xs) = set xs - {x}"
  by (auto simp: hs_remove_def)

lemma distinct_hs_remove [simp]: "distinct xs \<Longrightarrow> distinct (hs_remove x xs)"
  by (simp add: hs_remove_def)

lemma set_hs_extend [simp]: "set (hs_extend xs ys) = set xs \<union> set ys"
  unfolding hs_extend_def by (induction ys arbitrary: xs) auto

lemma distinct_hs_extend [simp]: "distinct xs \<Longrightarrow> distinct (hs_extend xs ys)"
  unfolding hs_extend_def by (induction ys arbitrary: xs) auto

lemma map_of_hm_insert [simp]: "map_of (hm_insert k v m) = (map_of m)(k \<mapsto> v)"
  by (simp add: hm_insert_def update_conv')

lemma map_of_hm_remove [simp]: "map_of (hm_remove k m) = (map_of m)(k := None)"
  by (simp add: hm_remove_def delete_conv')

lemma hm_contains_iff: "hm_contains m k \<longleftrightarrow> k \<in> set (keys m)"
  by (auto simp: hm_contains_def map_of_eq_None_iff)

lemma set_keys_hm_insert [simp]: "set (keys (hm_insert k v m)) = insert k (set (keys m))"
  by (simp only: hm_insert_def set_map [symmetric]) (simp add: dom_update)

lemma set_keys_hm_remove [simp]: "set (keys (hm_remove k m)) = set (keys m) - {k}"
  by (simp only: hm_remove_def) (simp add: delete_keys)

lemma distinct_keys_hm_insert [simp]:
  "distinct (keys m) \<Longrightarrow> distinct (keys (hm_insert k v m))"
  by (simp add: hm_insert_def distinct_update)

lemma distinct_keys_hm_remove [simp]:
  "distinct (keys m) \<Longrightarrow> distinct (keys (hm_remove k m))"
  by (simp add: hm_remove_def distinct_delete)

lemma keys_hm_modify [simp]: "keys (hm_modify k f m) = keys m"
  by (induction m) (auto simp: hm_modify_def)

lemma map_of_hm_modify:
  "map_of (hm_modify k f m) j = (if j = k then map_option f (map_of m j) else map_of m j)"
  by (induction m) (auto simp: hm_modify_def)

subsection \<open>Counting\<close>

lemma length_filter_mono:
  assumes "\<And>x. x \<in> set xs \<Longrightarrow> P x \<Longrightarrow> Q x"
  shows "length (filter P xs) \<le> length (filter Q xs)"
  using assms by (induction xs) auto

lemma card_filter_distinct:
  "distinct xs \<Longrightarrow> card {x \<in> set xs. P x} = length (filter P xs)"
  by (metis distinct_card distinct_filter set_filter)

lemma length_filter_perm:
  "mset xs = mset ys \<Longrightarrow> length (filter P xs) = length (filter P ys)"
  by (metis mset_filter size_mset)

text \<open>Pigeonhole: two selections of a list that together outnumber it meet.\<close>

lemma filters_meet:
  assumes "length xs < length (filter P xs) + length (filter Q xs)"
  shows "\<exists>x \<in> set xs. P x \<and> Q x"
proof (rule ccontr)
  assume none: "\<not> (\<exists>x \<in> set xs. P x \<and> Q x)"
  have "length (filter P xs) + length (filter Q xs) \<le> length xs"
    using none by (induction xs) auto
  with assms show False by simp
qed

lemma majority_filters_meet:
  assumes "length xs div 2 + 1 \<le> length (filter P xs)"
    and "length xs div 2 + 1 \<le> length (filter Q xs)"
  shows "\<exists>x \<in> set xs. P x \<and> Q x"
  by (rule filters_meet) (use assms in linarith)

subsection \<open>Ranges of a list\<close>

lemma range_take: "e \<le> n \<Longrightarrow> take (e - s) (drop s (take n xs)) = take (e - s) (drop s xs)"
  by (simp add: drop_take min_def)

lemma range_append:
  assumes "length xs = n" "s \<le> n"
  shows "take (e - s) (drop s (xs @ ys)) = take (min e n - s) (drop s (xs @ ys)) @ take (e - n) ys"
  using assms by (cases "e \<le> n") (auto simp: min_def)

subsection \<open>Contiguous runs of a log\<close>

text \<open>The elements of a list carry consecutive indexes from \<open>f\<close> on.\<close>

definition contiguous :: "('a \<Rightarrow> nat) \<Rightarrow> nat \<Rightarrow> 'a list \<Rightarrow> bool" where
  "contiguous key f xs \<longleftrightarrow> (\<forall>k < length xs. key (xs ! k) = f + k)"

lemma contiguous_Nil [simp]: "contiguous key f []"
  by (simp add: contiguous_def)

lemma contiguous_Cons: "contiguous key f (x # xs) \<longleftrightarrow> key x = f \<and> contiguous key (Suc f) xs"
  by (fastforce simp: contiguous_def nth_Cons less_Suc_eq_0_disj split: nat.splits)

lemma contiguous_append:
  "contiguous key f (xs @ ys) \<longleftrightarrow> contiguous key f xs \<and> contiguous key (f + length xs) ys"
  by (induction xs arbitrary: f) (auto simp: contiguous_Cons)

lemma contiguous_take: "contiguous key f xs \<Longrightarrow> contiguous key f (take n xs)"
  by (auto simp: contiguous_def)

lemma contiguous_drop: "contiguous key f xs \<Longrightarrow> n \<le> length xs \<Longrightarrow> contiguous key (f + n) (drop n xs)"
  by (auto simp: contiguous_def add.assoc)

lemma contiguous_nth: "contiguous key f xs \<Longrightarrow> k < length xs \<Longrightarrow> key (xs ! k) = f + k"
  by (simp add: contiguous_def)

lemma contiguous_bounds:
  assumes "contiguous key f xs" "x \<in> set xs"
  shows "f \<le> key x \<and> key x < f + length xs"
  using assms by (auto simp: contiguous_def in_set_conv_nth)

lemma contiguous_hd: "contiguous key f xs \<Longrightarrow> xs \<noteq> [] \<Longrightarrow> key (hd xs) = f"
  by (cases xs) (auto simp: contiguous_Cons)

lemma contiguous_last: "contiguous key f xs \<Longrightarrow> xs \<noteq> [] \<Longrightarrow> key (last xs) = f + length xs - 1"
  using contiguous_nth [of key f xs "length xs - 1"] by (cases xs) (auto simp: last_conv_nth)

end
