(* ===== verification/Quorum.thy ===== *)
theory Quorum
  imports Prelude
begin

text \<open>
  \<^verbatim>\<open>src/quorum.rs\<close>, \<^verbatim>\<open>src/quorum/majority.rs\<close>, \<^verbatim>\<open>src/quorum/joint.rs\<close> and the majority of
  \<^verbatim>\<open>src/util.rs\<close>: vote counting and commit indexes over majority and joint configurations.
  A \<^verbatim>\<open>MajorityConfig\<close> is the list of its voters in iteration order.
\<close>

datatype VoteResult = Pending | Lost | Won

record Index =
  ix_index :: nat
  ix_group_id :: nat

type_synonym AckedIndexer = "nat \<Rightarrow> Index option"
type_synonym MajorityConfig = "nat list"

definition Index_default :: Index where
  "Index_default = \<lparr>ix_index = 0, ix_group_id = 0\<rparr>"

definition majority :: "nat \<Rightarrow> nat" where
  "majority n = n div 2 + 1"

subsection \<open>Majority configurations\<close>

definition acked :: "AckedIndexer \<Rightarrow> nat \<Rightarrow> Index" where
  "acked l v = (case l v of None \<Rightarrow> Index_default | Some i \<Rightarrow> i)"

text \<open>The \<open>matched\<close> array after the stable sort by \<open>Reverse(index)\<close>.\<close>

definition matched_desc :: "AckedIndexer \<Rightarrow> MajorityConfig \<Rightarrow> Index list" where
  "matched_desc l voters = sort_key (\<lambda>b. - int (ix_index b)) (map (acked l) voters)"

text \<open>
  The group commit loop: \<open>Inl\<close> is the early return, \<open>Inr\<close> the final \<open>single_group\<close>.
\<close>

fun group_scan :: "nat \<Rightarrow> nat \<Rightarrow> bool \<Rightarrow> Index list \<Rightarrow> (nat \<times> bool) + bool" where
  "group_scan quorum_commit_index checked_group_id single_group [] = Inr single_group"
| "group_scan quorum_commit_index checked_group_id single_group (m # ms) =
     (if ix_group_id m = 0 then group_scan quorum_commit_index checked_group_id False ms
      else if checked_group_id = 0
      then group_scan quorum_commit_index (ix_group_id m) single_group ms
      else if checked_group_id = ix_group_id m
      then group_scan quorum_commit_index checked_group_id single_group ms
      else Inl (min (ix_index m) quorum_commit_index, True))"

definition maj_committed_index :: "MajorityConfig \<Rightarrow> bool \<Rightarrow> AckedIndexer \<Rightarrow> nat \<times> bool" where
  "maj_committed_index voters use_group_commit l =
     (if voters = [] then (u64_MAX, True)
      else let matched = matched_desc l voters;
               quorum = majority (length matched);
               quorum_index = matched ! (quorum - 1)
           in if \<not> use_group_commit then (ix_index quorum_index, False)
              else (case group_scan (ix_index quorum_index) (ix_group_id quorum_index) True matched of
                      Inl r \<Rightarrow> r
                    | Inr single_group \<Rightarrow>
                        if single_group then (ix_index quorum_index, False)
                        else (ix_index (last matched), False)))"

definition maj_one_less_than_quorum :: "MajorityConfig \<Rightarrow> AckedIndexer \<Rightarrow> nat" where
  "maj_one_less_than_quorum voters l =
     (let n = length voters
      in if n = 0 then u64_MAX
         else let pos = (if n \<le> 2 then 0 else n div 2 - 1)
              in ix_index (matched_desc l voters ! pos))"

definition count_yes :: "(nat \<Rightarrow> bool option) \<Rightarrow> nat list \<Rightarrow> nat" where
  "count_yes check vs = length (filter (\<lambda>v. check v = Some True) vs)"

definition count_missing :: "(nat \<Rightarrow> bool option) \<Rightarrow> nat list \<Rightarrow> nat" where
  "count_missing check vs = length (filter (\<lambda>v. check v = None) vs)"

definition maj_vote_result_with_diff ::
  "MajorityConfig \<Rightarrow> (nat \<Rightarrow> bool option) \<Rightarrow> VoteResult \<times> nat" where
  "maj_vote_result_with_diff voters check =
     (if voters = [] then (Won, 0)
      else let yes = count_yes check voters;
               missing = count_missing check voters;
               q = majority (length voters)
           in if q \<le> yes then (Won, 0)
              else if q \<le> yes + missing then (Pending, q - yes)
              else (Lost, 0))"

definition maj_vote_result :: "MajorityConfig \<Rightarrow> (nat \<Rightarrow> bool option) \<Rightarrow> VoteResult" where
  "maj_vote_result voters check =
     (if voters = [] then Won
      else let yes = count_yes check voters;
               missing = count_missing check voters;
               q = majority (length voters)
           in if q \<le> yes then Won
              else if q \<le> yes + missing then Pending
              else Lost)"

subsection \<open>Joint configurations\<close>

record JointConfig =
  incoming :: MajorityConfig
  outgoing :: MajorityConfig

definition JointConfig_new :: "nat list \<Rightarrow> JointConfig" where
  "JointConfig_new voters = \<lparr>incoming = voters, outgoing = []\<rparr>"

definition joint_committed_index :: "JointConfig \<Rightarrow> bool \<Rightarrow> AckedIndexer \<Rightarrow> nat \<times> bool" where
  "joint_committed_index c use_group_commit l =
     (let (i_idx, i_use_gc) = maj_committed_index (incoming c) use_group_commit l;
          (o_idx, o_use_gc) = maj_committed_index (outgoing c) use_group_commit l
      in (min i_idx o_idx, i_use_gc \<and> o_use_gc))"

definition join_results :: "VoteResult \<Rightarrow> VoteResult \<Rightarrow> VoteResult" where
  "join_results i q =
     (if i = Won \<and> q = Won then Won
      else if i = Lost \<or> q = Lost then Lost
      else Pending)"

definition joint_vote_result :: "JointConfig \<Rightarrow> (nat \<Rightarrow> bool option) \<Rightarrow> VoteResult" where
  "joint_vote_result c check =
     join_results (maj_vote_result (incoming c) check) (maj_vote_result (outgoing c) check)"

definition joint_one_less_than_quorum :: "JointConfig \<Rightarrow> AckedIndexer \<Rightarrow> nat" where
  "joint_one_less_than_quorum c l =
     min (maj_one_less_than_quorum (incoming c) l) (maj_one_less_than_quorum (outgoing c) l)"

definition joint_vote_result_with_diff ::
  "JointConfig \<Rightarrow> (nat \<Rightarrow> bool option) \<Rightarrow> VoteResult \<times> nat \<times> nat" where
  "joint_vote_result_with_diff c check =
     (let (i, i_diff) = maj_vote_result_with_diff (incoming c) check;
          (q, o_diff) = maj_vote_result_with_diff (outgoing c) check
      in (join_results i q, i_diff, o_diff))"

definition joint_clear :: "JointConfig \<Rightarrow> JointConfig" where
  "joint_clear c = \<lparr>incoming = [], outgoing = []\<rparr>"

definition joint_is_singleton :: "JointConfig \<Rightarrow> bool" where
  "joint_is_singleton c \<longleftrightarrow> outgoing c = [] \<and> length (incoming c) = 1"

text \<open>\<open>Union\<close> of \<^verbatim>\<open>src/util.rs\<close>: the distinct ids of both halves.\<close>

definition union_iter :: "nat list \<Rightarrow> nat list \<Rightarrow> nat list" where
  "union_iter a b = a @ filter (\<lambda>x. x \<notin> set a) b"

definition union_contains :: "nat list \<Rightarrow> nat list \<Rightarrow> nat \<Rightarrow> bool" where
  "union_contains a b x \<longleftrightarrow> x \<in> set a \<or> x \<in> set b"

definition union_len :: "nat list \<Rightarrow> nat list \<Rightarrow> nat" where
  "union_len a b = length a + length b - length (filter (\<lambda>x. x \<in> set a) b)"

definition union_is_empty :: "nat list \<Rightarrow> nat list \<Rightarrow> bool" where
  "union_is_empty a b \<longleftrightarrow> a = [] \<and> b = []"

definition joint_ids :: "JointConfig \<Rightarrow> nat list" where
  "joint_ids c = union_iter (incoming c) (outgoing c)"

definition joint_contains :: "JointConfig \<Rightarrow> nat \<Rightarrow> bool" where
  "joint_contains c x \<longleftrightarrow> x \<in> set (incoming c) \<or> x \<in> set (outgoing c)"

subsection \<open>Ranking by acknowledged index\<close>

text \<open>How many voters have acknowledged at least index \<open>i\<close>.\<close>

definition acks_at_least :: "AckedIndexer \<Rightarrow> nat list \<Rightarrow> nat \<Rightarrow> nat" where
  "acks_at_least l voters i = length (filter (\<lambda>v. i \<le> ix_index (acked l v)) voters)"

lemma length_matched_desc [simp]: "length (matched_desc l voters) = length voters"
  by (simp add: matched_desc_def)

lemma mset_matched_desc: "mset (matched_desc l voters) = image_mset (acked l) (mset voters)"
  by (simp add: matched_desc_def)

lemma matched_desc_antimono:
  assumes "i \<le> j" and "j < length voters"
  shows "ix_index (matched_desc l voters ! j) \<le> ix_index (matched_desc l voters ! i)"
proof -
  let ?key = "\<lambda>b. - int (ix_index b)"
  have "sorted (map ?key (matched_desc l voters))"
    by (simp add: matched_desc_def)
  then have "map ?key (matched_desc l voters) ! i \<le> map ?key (matched_desc l voters) ! j"
    using assms by (intro sorted_nth_mono) auto
  then show ?thesis using assms by simp
qed

lemma acks_matched_desc:
  "acks_at_least l voters i = length (filter (\<lambda>b. i \<le> ix_index b) (matched_desc l voters))"
proof -
  have "length (filter (\<lambda>b. i \<le> ix_index b) (matched_desc l voters)) =
      size (filter_mset (\<lambda>b. i \<le> ix_index b) (mset (matched_desc l voters)))"
    by (metis mset_filter size_mset)
  also have "\<dots> = acks_at_least l voters i"
    by (simp add: mset_matched_desc acks_at_least_def filter_mset_image_mset flip: mset_filter)
  finally show ?thesis by simp
qed

text \<open>
  The element at position \<open>k\<close> of the descending array is the largest index that at least
  \<open>k + 1\<close> voters have acknowledged.
\<close>

lemma rank_acks_ge:
  assumes "k < length voters"
  shows "Suc k \<le> acks_at_least l voters (ix_index (matched_desc l voters ! k))"
proof -
  let ?m = "matched_desc l voters"
  let ?P = "\<lambda>b. ix_index (?m ! k) \<le> ix_index b"
  have "filter ?P (take (Suc k) ?m) = take (Suc k) ?m"
  proof (rule filter_True, rule ballI)
    fix b
    assume "b \<in> set (take (Suc k) ?m)"
    then obtain i where i: "i < Suc k" "b = ?m ! i"
      using assms by (auto simp: in_set_conv_nth)
    then show "?P b" using assms matched_desc_antimono [of i k voters l] by simp
  qed
  then have "Suc k \<le> length (filter ?P (take (Suc k) ?m))"
    using assms by simp
  also have "\<dots> \<le> length (filter ?P ?m)"
    by (metis append_take_drop_id filter_append le_add1 length_append)
  finally show ?thesis by (simp add: acks_matched_desc)
qed

lemma rank_acks_lt:
  assumes "k < length voters" and "ix_index (matched_desc l voters ! k) < i"
  shows "acks_at_least l voters i \<le> k"
proof -
  let ?m = "matched_desc l voters"
  let ?P = "\<lambda>b. i \<le> ix_index b"
  have "filter ?P (drop k ?m) = []"
  proof (rule filter_False, rule ballI)
    fix b
    assume "b \<in> set (drop k ?m)"
    then obtain j where j: "j < length ?m - k" "b = ?m ! (k + j)"
      by (auto simp: in_set_conv_nth)
    then have "ix_index b \<le> ix_index (?m ! k)"
      using matched_desc_antimono [of k "k + j" voters l] by simp
    with assms show "\<not> ?P b" by simp
  qed
  then have "length (filter ?P ?m) = length (filter ?P (take k ?m))"
    by (metis append_Nil2 append_take_drop_id filter_append)
  also have "\<dots> \<le> k"
    by (rule le_trans [OF length_filter_le]) simp
  finally show ?thesis by (simp add: acks_matched_desc)
qed

lemma rank_iff:
  assumes "k < length voters"
  shows "i \<le> ix_index (matched_desc l voters ! k) \<longleftrightarrow> Suc k \<le> acks_at_least l voters i"
proof
  assume "i \<le> ix_index (matched_desc l voters ! k)"
  then have "acks_at_least l voters (ix_index (matched_desc l voters ! k)) \<le> acks_at_least l voters i"
    unfolding acks_at_least_def by (intro length_filter_mono) simp
  with rank_acks_ge [OF assms, of l] show "Suc k \<le> acks_at_least l voters i" by simp
next
  assume "Suc k \<le> acks_at_least l voters i"
  then show "i \<le> ix_index (matched_desc l voters ! k)"
    using rank_acks_lt [OF assms, of l i] by (cases "ix_index (matched_desc l voters ! k) < i") auto
qed

lemma majority_pos [simp]: "0 < majority n"
  by (simp add: majority_def)

lemma majority_le: "0 < n \<Longrightarrow> majority n \<le> n"
  by (simp add: majority_def)

lemma maj_committed_index_no_group:
  assumes "voters \<noteq> []"
  shows "i \<le> fst (maj_committed_index voters False l) \<longleftrightarrow>
    majority (length voters) \<le> acks_at_least l voters i"
proof -
  have "majority (length voters) - 1 < length voters"
    using assms majority_le [of "length voters"] by (cases voters) auto
  from rank_iff [OF this] assms show ?thesis
    by (simp add: maj_committed_index_def Let_def)
qed

lemma fst_joint_committed_index:
  "fst (joint_committed_index c b l) =
     min (fst (maj_committed_index (incoming c) b l)) (fst (maj_committed_index (outgoing c) b l))"
  by (simp add: joint_committed_index_def split: prod.splits)

text \<open>The group commit scan, run on the descending array.\<close>

lemma group_scan_bound: "group_scan q g b ms = Inl (i, f) \<Longrightarrow> i \<le> q \<and> f"
  by (induction q g b ms rule: group_scan.induct) (auto split: if_splits)

definition other_group :: "nat \<Rightarrow> Index list \<Rightarrow> Index \<Rightarrow> bool" where
  "other_group g pre m \<longleftrightarrow>
     (if g \<noteq> 0 then ix_group_id m \<noteq> g
      else \<exists>p \<in> set pre. ix_group_id p \<noteq> 0 \<and> ix_group_id p \<noteq> ix_group_id m)"

lemma group_scan_witness:
  assumes "group_scan q g b ms = Inl (i, f)"
  shows "\<exists>pre m post. ms = pre @ m # post \<and> i = min (ix_index m) q \<and> ix_group_id m \<noteq> 0 \<and>
    other_group g pre m"
  using assms
proof (induction q g b ms rule: group_scan.induct)
  case (2 q g b m ms)
  have extend: ?case
    if "\<exists>pre m' post. ms = pre @ m' # post \<and> i = min (ix_index m') q \<and> ix_group_id m' \<noteq> 0 \<and>
        other_group g' pre m'"
      and "\<And>pre m'. other_group g' pre m' \<Longrightarrow> other_group g (m # pre) m'" for g'
    using that by (metis append_Cons)
  consider "ix_group_id m = 0" | "ix_group_id m \<noteq> 0" "g = 0" | "ix_group_id m \<noteq> 0" "g = ix_group_id m"
    | "ix_group_id m \<noteq> 0" "g \<noteq> 0" "g \<noteq> ix_group_id m" by blast
  then show ?case
  proof cases
    case 1
    with 2 show ?thesis by (intro extend [of g]) (auto simp: other_group_def)
  next
    case 2
    with "2.prems" "2.IH"(2) show ?thesis
      by (intro extend [of "ix_group_id m"]) (auto simp: other_group_def)
  next
    case 3
    with "2.prems" "2.IH"(3) show ?thesis by (intro extend [of g]) (auto simp: other_group_def)
  next
    case 4
    with "2.prems" show ?thesis
      by (intro exI [of _ "[]"] exI [of _ m] exI [of _ ms]) (auto simp: other_group_def)
  qed
qed simp

lemma set_matched_desc: "set (matched_desc l voters) = acked l ` set voters"
  by (simp add: matched_desc_def)

lemma matched_desc_split_ge:
  assumes "matched_desc l voters = pre @ m # post" and "p \<in> set pre"
  shows "ix_index m \<le> ix_index p"
proof -
  obtain i where i: "i < length pre" "p = pre ! i"
    using assms(2) by (auto simp: in_set_conv_nth)
  have "length pre < length voters"
    using arg_cong [OF assms(1), of length] by simp
  then show ?thesis
    using matched_desc_antimono [of i "length pre" voters l] i assms(1) by (simp add: nth_append)
qed

subsection \<open>Votes\<close>

lemma count_yes_missing: "count_yes check vs + count_missing check vs \<le> length vs"
  unfolding count_yes_def count_missing_def by (induction vs) auto

lemma maj_won_iff:
  "voters \<noteq> [] \<Longrightarrow>
    maj_vote_result voters check = Won \<longleftrightarrow> majority (length voters) \<le> count_yes check voters"
  by (simp add: maj_vote_result_def Let_def)

lemma joint_won_iff:
  "joint_vote_result c check = Won \<longleftrightarrow>
    maj_vote_result (incoming c) check = Won \<and> maj_vote_result (outgoing c) check = Won"
  by (simp add: joint_vote_result_def join_results_def)

lemma maj_vote_result_diff: "fst (maj_vote_result_with_diff voters check) = maj_vote_result voters check"
  by (simp add: maj_vote_result_with_diff_def maj_vote_result_def Let_def)

lemma maj_won_meet:
  assumes "voters \<noteq> []" "maj_vote_result voters f = Won" "maj_vote_result voters g = Won"
  shows "\<exists>v \<in> set voters. f v = Some True \<and> g v = Some True"
  by (rule majority_filters_meet)
    (use assms in \<open>simp_all add: maj_won_iff count_yes_def majority_def\<close>)

lemma maj_vote_result_mono:
  assumes "maj_vote_result voters f = Won"
    and "\<And>v. v \<in> set voters \<Longrightarrow> f v = Some True \<Longrightarrow> g v = Some True"
  shows "maj_vote_result voters g = Won"
proof (cases "voters = []")
  case False
  have "count_yes f voters \<le> count_yes g voters"
    unfolding count_yes_def by (rule length_filter_mono) (use assms(2) in auto)
  with assms(1) False show ?thesis by (simp add: maj_won_iff)
qed (simp add: maj_vote_result_def)

subsection \<open>Quorum systems\<close>

text \<open>
  What the protocol relies on: quorums meet, and a larger set of supporters is still a quorum.
  From it, a term has at most one winner when no node supports two candidates.
\<close>

locale quorum_system =
  fixes quorum :: "'a set \<Rightarrow> bool"
  assumes quorum_meet: "quorum P \<Longrightarrow> quorum Q \<Longrightarrow> P \<inter> Q \<noteq> {}"
    and quorum_mono: "quorum P \<Longrightarrow> P \<subseteq> Q \<Longrightarrow> quorum Q"
begin

lemma single_winner:
  assumes "quorum {v. supports v = x}" and "quorum {v. supports v = y}"
  shows "x = y"
  using quorum_meet [OF assms] by auto

lemma quorum_not_empty: "quorum P \<Longrightarrow> P \<noteq> {}"
  using quorum_meet [of P P] by auto

end

text \<open>The test \<open>has_quorum\<close> applies to a set of ids, on a configuration that has voters.\<close>

definition joint_quorum :: "JointConfig \<Rightarrow> nat set \<Rightarrow> bool" where
  "joint_quorum c S \<longleftrightarrow>
     incoming c \<noteq> [] \<and> joint_vote_result c (\<lambda>x. if x \<in> S then Some True else None) = Won"

interpretation jq: quorum_system "joint_quorum c" for c
proof
  fix P Q
  assume "joint_quorum c P" "joint_quorum c Q"
  then have "\<exists>v \<in> set (incoming c).
      (if v \<in> P then Some True else None) = Some True \<and> (if v \<in> Q then Some True else None) = Some True"
    by (intro maj_won_meet) (auto simp: joint_quorum_def joint_won_iff)
  then show "P \<inter> Q \<noteq> {}" by (auto split: if_splits)
next
  fix P Q
  assume "joint_quorum c P" "P \<subseteq> Q"
  then show "joint_quorum c Q"
    by (auto simp: joint_quorum_def joint_won_iff elim!: maj_vote_result_mono split: if_splits)
qed

lemma joint_won_quorum:
  assumes "incoming c \<noteq> []" "joint_vote_result c f = Won"
  shows "joint_quorum c {v. f v = Some True}"
  using assms by (auto simp: joint_quorum_def joint_won_iff elim!: maj_vote_result_mono)

subsection \<open>Properties\<close>

text \<open>C15: the commit index of a joint configuration (group commit off) is the largest index that a
  majority of the incoming voters and a majority of the outgoing voters have acknowledged: an index
  is at or below it exactly when both halves (an empty half always) have a majority of
  acknowledgements for it.\<close>

theorem joint_committed_index_max:
  assumes "incoming c \<noteq> []" "distinct (incoming c)" "distinct (outgoing c)" "i \<le> u64_MAX"
  shows "i \<le> fst (joint_committed_index c False l) \<longleftrightarrow>
    length (incoming c) div 2 < card {v \<in> set (incoming c). i \<le> ix_index (acked l v)} \<and>
    (outgoing c \<noteq> [] \<longrightarrow>
      length (outgoing c) div 2 < card {v \<in> set (outgoing c). i \<le> ix_index (acked l v)})"
proof -
  have half: "i \<le> fst (maj_committed_index vs False l) \<longleftrightarrow>
      (vs \<noteq> [] \<longrightarrow> length vs div 2 < card {v \<in> set vs. i \<le> ix_index (acked l v)})"
    if "distinct vs" for vs
    using that assms(4) maj_committed_index_no_group [of vs i l]
    by (auto simp: maj_committed_index_def card_filter_distinct acks_at_least_def majority_def)
  show ?thesis
    using assms half [of "incoming c"] half [of "outgoing c"]
    by (simp add: fst_joint_committed_index)
qed

theorem joint_committed_index_max_witness:
  "3 \<le> fst (joint_committed_index \<lparr>incoming = [1, 2, 3], outgoing = []\<rparr> False
      (\<lambda>v. Some \<lparr>ix_index = v + 1, ix_group_id = 0\<rparr>))"
proof -
  let ?c = "\<lparr>incoming = [1, 2, 3], outgoing = []\<rparr>"
  let ?l = "\<lambda>v. Some \<lparr>ix_index = v + 1, ix_group_id = 0\<rparr>"
  have "{v \<in> {1, 2, 3::nat}. 3 \<le> v + 1} = {2, 3}" by auto
  then show ?thesis
    using joint_committed_index_max [of ?c 3 ?l] by (simp add: acked_def u64_MAX_def)
qed

text \<open>Election safety of the vote counting.  On the same joint configuration, if every node
  casts its vote for at most one candidate, two candidates that both win are the same.\<close>

theorem joint_election_safety:
  assumes "incoming c \<noteq> []"
    and "joint_vote_result c (\<lambda>v. map_option (\<lambda>w. w = x) (cast v)) = Won"
    and "joint_vote_result c (\<lambda>v. map_option (\<lambda>w. w = y) (cast v)) = Won"
  shows "x = y"
proof -
  have "joint_quorum c {v. cast v = Some x}" "joint_quorum c {v. cast v = Some y}"
    using joint_won_quorum [OF assms(1,2)] joint_won_quorum [OF assms(1,3)]
    by (auto elim!: jq.quorum_mono)
  then have "Some x = Some y" by (rule jq.single_winner)
  then show ?thesis by simp
qed

text \<open>C16: leader completeness at the quorum level.  If an index is committed by the acknowledgements
  of a joint configuration and a candidate wins an election on the same configuration, some voter
  has both acknowledged that index and granted its vote.\<close>

theorem joint_commit_meets_election:
  assumes "incoming c \<noteq> []" "i \<le> fst (joint_committed_index c False l)"
    and "joint_vote_result c check = Won"
  shows "\<exists>v \<in> set (incoming c). i \<le> ix_index (acked l v) \<and> check v = Some True"
proof -
  have "i \<le> fst (maj_committed_index (incoming c) False l)"
    using assms(2) by (simp add: fst_joint_committed_index)
  then have "majority (length (incoming c)) \<le> acks_at_least l (incoming c) i"
    using assms(1) by (simp add: maj_committed_index_no_group)
  then show ?thesis
    using assms(1,3)
    by (intro majority_filters_meet)
      (simp_all add: acks_at_least_def majority_def joint_won_iff maj_won_iff count_yes_def)
qed

theorem joint_commit_meets_election_witness:
  "\<exists>v \<in> {1, 2, 3::nat}. 5 \<le> ix_index (acked (\<lambda>v. Some \<lparr>ix_index = v + 3, ix_group_id = 0\<rparr>) v) \<and>
     (if v = 3 then None else Some True) = Some True"
proof -
  let ?c = "\<lparr>incoming = [1, 2, 3], outgoing = []\<rparr>"
  let ?l = "\<lambda>v. Some \<lparr>ix_index = v + 3, ix_group_id = 0\<rparr>"
  have "5 \<le> fst (joint_committed_index ?c False ?l)"
    by (simp add: joint_committed_index_def maj_committed_index_def matched_desc_def acked_def
        majority_def u64_MAX_def)
  moreover have "joint_vote_result ?c (\<lambda>v. if v = 3 then None else Some True) = Won"
    by (simp add: joint_won_iff maj_vote_result_def count_yes_def count_missing_def majority_def)
  ultimately show ?thesis
    using joint_commit_meets_election [of ?c 5 ?l "\<lambda>v. if v = 3 then None else Some True"] by simp
qed

text \<open>Group commit.  When the group commit computation reports success on a majority
  configuration, the index it returns has been acknowledged by two voters of different (assigned)
  groups; whether it reports success or not, the index never exceeds the plain commit index.\<close>

theorem group_commit_two_groups:
  assumes "voters \<noteq> []" "maj_committed_index voters True l = (i, gc)"
  shows "i \<le> fst (maj_committed_index voters False l) \<and>
    (gc \<longrightarrow> (\<exists>v \<in> set voters. \<exists>w \<in> set voters.
      i \<le> ix_index (acked l v) \<and> i \<le> ix_index (acked l w) \<and>
      ix_group_id (acked l v) \<noteq> 0 \<and> ix_group_id (acked l w) \<noteq> 0 \<and>
      ix_group_id (acked l v) \<noteq> ix_group_id (acked l w)))"
proof -
  let ?m = "matched_desc l voters"
  let ?k = "majority (length voters) - 1"
  have k: "?k < length voters"
    using assms(1) majority_le [of "length voters"] by (cases voters) auto
  have plain: "fst (maj_committed_index voters False l) = ix_index (?m ! ?k)"
    using assms(1) by (simp add: maj_committed_index_def Let_def)
  have ne: "?m \<noteq> []" using assms(1) length_matched_desc [of l voters] by force
  have last_le: "ix_index (last ?m) \<le> ix_index (?m ! ?k)"
    using matched_desc_antimono [of ?k "length voters - 1" voters l] k ne by (simp add: last_conv_nth)
  consider (early) f where "group_scan (ix_index (?m ! ?k)) (ix_group_id (?m ! ?k)) True ?m = Inl (i, f)"
      "gc = f"
    | (whole) "gc = False" "i = ix_index (?m ! ?k) \<or> i = ix_index (last ?m)"
    using assms by (auto simp: maj_committed_index_def Let_def split: sum.splits if_splits)
  then show ?thesis
  proof cases
    case whole
    then show ?thesis using plain last_le by auto
  next
    case early
    from group_scan_witness [OF early(1)] obtain pre m post where
      m: "?m = pre @ m # post" "i = min (ix_index m) (ix_index (?m ! ?k))" "ix_group_id m \<noteq> 0"
      and other: "other_group (ix_group_id (?m ! ?k)) pre m"
      by blast
    have "\<exists>p \<in> set ?m. i \<le> ix_index p \<and> ix_group_id p \<noteq> 0 \<and> ix_group_id p \<noteq> ix_group_id m"
    proof (cases "ix_group_id (?m ! ?k) = 0")
      case True
      then obtain p where p: "p \<in> set pre" "ix_group_id p \<noteq> 0" "ix_group_id p \<noteq> ix_group_id m"
        using other by (auto simp: other_group_def)
      have "p \<in> set ?m" using p(1) by (simp add: m(1))
      moreover have "i \<le> ix_index p" using matched_desc_split_ge [OF m(1) p(1)] m(2) by simp
      ultimately show ?thesis using p(2,3) by blast
    next
      case False
      have "?m ! ?k \<in> set ?m" using k by (simp add: nth_mem)
      moreover have "i \<le> ix_index (?m ! ?k)" using m(2) by simp
      ultimately show ?thesis using other False by (metis other_group_def)
    qed
    then obtain p where p: "p \<in> set ?m" "i \<le> ix_index p" "ix_group_id p \<noteq> 0"
        "ix_group_id p \<noteq> ix_group_id m" by blast
    have "m \<in> set ?m" by (simp add: m(1))
    then obtain v w where vw: "v \<in> set voters" "m = acked l v" "w \<in> set voters" "p = acked l w"
      using p(1) by (auto simp: set_matched_desc)
    have "i \<le> ix_index m" using m(2) by simp
    with vw p m(3) have "\<exists>v \<in> set voters. \<exists>w \<in> set voters.
      i \<le> ix_index (acked l v) \<and> i \<le> ix_index (acked l w) \<and>
      ix_group_id (acked l v) \<noteq> 0 \<and> ix_group_id (acked l w) \<noteq> 0 \<and>
      ix_group_id (acked l v) \<noteq> ix_group_id (acked l w)" by metis
    moreover have "i \<le> ix_index (?m ! ?k)" using group_scan_bound [OF early(1)] by simp
    ultimately show ?thesis using plain by simp
  qed
qed

text \<open>The decisions of a majority configuration do not depend on the iteration order of its hash
  set: permuting the voters changes neither a vote result (with or without the number of missing
  votes) nor the commit index nor the index acknowledged by one voter less than a quorum.\<close>

theorem majority_order_independent:
  assumes "mset vs = mset ws"
  shows "maj_vote_result vs check = maj_vote_result ws check \<and>
    maj_vote_result_with_diff vs check = maj_vote_result_with_diff ws check \<and>
    fst (maj_committed_index vs False l) = fst (maj_committed_index ws False l) \<and>
    maj_one_less_than_quorum vs l = maj_one_less_than_quorum ws l"
proof -
  have len: "length vs = length ws" using assms mset_eq_length by blast
  have nil: "vs = [] \<longleftrightarrow> ws = []" using assms by auto
  have cnt: "count_yes check vs = count_yes check ws" "count_missing check vs = count_missing check ws"
    by (simp_all add: count_yes_def count_missing_def length_filter_perm [OF assms])
  have acks: "acks_at_least l vs i = acks_at_least l ws i" for i
    by (simp add: acks_at_least_def length_filter_perm [OF assms])
  have rank: "ix_index (matched_desc l vs ! k) = ix_index (matched_desc l ws ! k)"
    if "k < length vs" for k
  proof -
    have "i \<le> ix_index (matched_desc l vs ! k) \<longleftrightarrow> i \<le> ix_index (matched_desc l ws ! k)" for i
      using that len by (simp add: rank_iff acks)
    then show ?thesis by (meson order_antisym order_refl)
  qed
  have "majority (length vs) - 1 < length vs" if "vs \<noteq> []"
    using that majority_le [of "length vs"] by (cases vs) auto
  then have "fst (maj_committed_index vs False l) = fst (maj_committed_index ws False l)"
    using len nil rank by (auto simp: maj_committed_index_def Let_def)
  moreover have "maj_one_less_than_quorum vs l = maj_one_less_than_quorum ws l"
    using len rank by (auto simp: maj_one_less_than_quorum_def Let_def)
  ultimately show ?thesis
    by (simp add: maj_vote_result_def maj_vote_result_with_diff_def len nil cnt)
qed

text \<open>The votes that come in on top of those of \<open>check\<close>.\<close>

definition new_yes :: "(nat \<Rightarrow> bool option) \<Rightarrow> (nat \<Rightarrow> bool option) \<Rightarrow> nat list \<Rightarrow> nat" where
  "new_yes check check' vs = length (filter (\<lambda>v. check v = None \<and> check' v = Some True) vs)"

lemma count_yes_extend:
  assumes "\<And>v. check v \<noteq> None \<Longrightarrow> check' v = check v"
  shows "count_yes check' vs = count_yes check vs + new_yes check check' vs"
proof (induction vs)
  case (Cons v vs)
  then show ?case using assms [of v] by (cases "check v") (auto simp: count_yes_def new_yes_def)
qed (simp add: count_yes_def new_yes_def)

lemma maj_diff_cases:
  "maj_vote_result_with_diff vs check = (maj_vote_result vs check, d) \<Longrightarrow>
    (if maj_vote_result vs check = Pending then 0 < d \<and> d \<le> count_missing check vs \<and> count_yes check vs + d = majority (length vs)
     else d = 0)"
  by (auto simp: maj_vote_result_with_diff_def maj_vote_result_def Let_def split: if_splits)

text \<open>What the number reported for a half means.\<close>

definition diff_exact :: "nat list \<Rightarrow> (nat \<Rightarrow> bool option) \<Rightarrow> nat \<Rightarrow> bool" where
  "diff_exact vs check d \<longleftrightarrow>
     (if maj_vote_result vs check = Pending
      then 0 < d \<and> d \<le> count_missing check vs \<and>
        (\<forall>check'. (\<forall>v. check v \<noteq> None \<longrightarrow> check' v = check v) \<longrightarrow>
           (maj_vote_result vs check' = Won \<longleftrightarrow> d \<le> new_yes check check' vs))
      else d = 0)"

lemma maj_diff_exact:
  assumes "maj_vote_result_with_diff vs check = (r, d)"
  shows "r = maj_vote_result vs check \<and> diff_exact vs check d"
proof -
  have r: "r = maj_vote_result vs check" using maj_vote_result_diff [of vs check] assms by simp
  note d = maj_diff_cases [OF assms [unfolded r]]
  have "maj_vote_result vs check' = Won \<longleftrightarrow> d \<le> new_yes check check' vs"
    if "maj_vote_result vs check = Pending" "\<And>v. check v \<noteq> None \<Longrightarrow> check' v = check v" for check'
  proof -
    have "vs \<noteq> []" using that(1) by (auto simp: maj_vote_result_def)
    then show ?thesis
      using d that(1) count_yes_extend [of check check' vs, OF that(2)] by (auto simp: maj_won_iff majority_def)
  qed
  with r d show ?thesis by (auto simp: diff_exact_def)
qed

text \<open>C35: the vote count with a difference.  The joint result is the plain one, and each half reports its own number, the
  incoming half first: while the half is pending, exactly that many of its outstanding voters must still grant, that is,
  whatever votes come in, the half is won if and only if at least that many of them are grants, and so many voters are
  outstanding; a half that is decided reports 0.\<close>

theorem vote_result_with_diff_exact:
  assumes "joint_vote_result_with_diff c check = (r, i_diff, o_diff)"
  shows "r = joint_vote_result c check \<and> diff_exact (incoming c) check i_diff \<and> diff_exact (outgoing c) check o_diff"
proof -
  obtain i q where h: "maj_vote_result_with_diff (incoming c) check = (i, i_diff)"
      "maj_vote_result_with_diff (outgoing c) check = (q, o_diff)" "r = join_results i q"
    using assms by (auto simp: joint_vote_result_with_diff_def split: prod.split_asm)
  from maj_diff_exact [OF h(1)] maj_diff_exact [OF h(2)] h(3) show ?thesis by (simp add: joint_vote_result_def)
qed

text \<open>Three incoming and five outgoing voters, one vote: one and two grants are wanting, and the two grants of 4 and 5 win the
  outgoing half.\<close>

definition ex_first_vote :: "nat \<Rightarrow> bool option" where
  "ex_first_vote v = (if v = 1 then Some True else None)"

theorem vote_result_with_diff_exact_witness:
  "joint_vote_result_with_diff \<lparr>incoming = [1, 2, 3], outgoing = [1, 4, 5, 6, 7]\<rparr> ex_first_vote = (Pending, 1, 2) \<and>
   maj_vote_result [1, 4, 5, 6, 7] (\<lambda>v. if v \<in> {4, 5} then Some True else ex_first_vote v) = Won"
proof -
  let ?c = "\<lparr>incoming = [1, 2, 3], outgoing = [1, 4, 5, 6, 7]\<rparr>"
  let ?f = "\<lambda>v. if v \<in> {4, 5} then Some True else ex_first_vote v"
  have h: "joint_vote_result_with_diff ?c ex_first_vote = (Pending, 1, 2)" "maj_vote_result (outgoing ?c) ex_first_vote = Pending"
      "new_yes ex_first_vote ?f (outgoing ?c) = 2"
    by code_simp+
  have "\<forall>v. ex_first_vote v \<noteq> None \<longrightarrow> ?f v = ex_first_vote v" by (auto simp: ex_first_vote_def)
  then have "maj_vote_result (outgoing ?c) ?f = Won \<longleftrightarrow> 2 \<le> new_yes ex_first_vote ?f (outgoing ?c)"
    using vote_result_with_diff_exact [OF h(1)] h(2) unfolding diff_exact_def by simp
  then show ?thesis using h by simp
qed

end
