(* ===== verification/InflightsBuf.thy ===== *)
theory InflightsBuf
  imports Prelude
begin

text \<open>
  \<^verbatim>\<open>src/tracker/inflights.rs\<close>: the ring buffer of in-flight append messages.  The window it stands
  for is the list of indexes from \<open>start\<close> on, wrapping at \<open>cap\<close>; every operation is shown to act
  on that list.  Of the allocation of \<open>buffer\<close> only \<open>capacity() > 0\<close> is observable
  (\<open>in_allocated\<close>).  Debug assertions are panics.
\<close>

record Inflights =
  in_start :: nat
  in_count :: nat
  in_buffer :: "nat list"
  in_cap :: nat
  in_incoming_cap :: "nat option"
  in_allocated :: bool

definition Inflights_new :: "nat \<Rightarrow> Inflights" where
  "Inflights_new c = \<lparr>in_start = 0, in_count = 0, in_buffer = [], in_cap = c,
     in_incoming_cap = None, in_allocated = (0 < c)\<rparr>"

definition ins_set_cap :: "Inflights \<Rightarrow> nat \<Rightarrow> Inflights panics" where
  "ins_set_cap s c =
     (if in_cap s = c then Some (s\<lparr>in_incoming_cap := None\<rparr>)
      else if in_cap s < c then
        (if in_start s + in_count s \<le> in_cap s
         then do {
           ensure (in_allocated s \<longrightarrow> length (in_buffer s) \<le> c);
           Some (s\<lparr>in_cap := c, in_incoming_cap := None\<rparr>)
         }
         else do {
           ensure (in_cap s = length (in_buffer s));
           ensure (in_start s \<le> in_cap s \<and> in_cap s - in_start s \<le> in_count s \<and>
             in_count s - (in_cap s - in_start s) \<le> length (in_buffer s));
           Some (s\<lparr>in_buffer := drop (in_start s) (in_buffer s) @
                     take (in_count s - (in_cap s - in_start s)) (in_buffer s),
                   in_allocated := True, in_start := 0, in_cap := c, in_incoming_cap := None\<rparr>)
         })
      else if in_count s = 0
      then Some (if in_allocated s
                 then s\<lparr>in_cap := c, in_incoming_cap := None, in_start := 0, in_buffer := [],
                        in_allocated := (0 < c)\<rparr>
                 else s\<lparr>in_cap := c, in_incoming_cap := None, in_start := 0\<rparr>)
      else Some (s\<lparr>in_incoming_cap := Some c\<rparr>))"

definition ins_full :: "Inflights \<Rightarrow> bool" where
  "ins_full s \<longleftrightarrow> in_count s = in_cap s \<or>
     (case in_incoming_cap s of None \<Rightarrow> False | Some c \<Rightarrow> c \<le> in_count s)"

definition ins_add :: "Inflights \<Rightarrow> nat \<Rightarrow> Inflights panics" where
  "ins_add s inflight = do {
     ensure (\<not> ins_full s);
     ensure (\<not> in_allocated s \<longrightarrow> in_count s = 0 \<and> in_start s = 0 \<and> in_incoming_cap s = None);
     let s = (if in_allocated s then s else s\<lparr>in_buffer := [], in_allocated := (0 < in_cap s)\<rparr>);
     let next = in_start s + in_count s;
     let next = (if in_cap s \<le> next then next - in_cap s else next);
     ensure (next \<le> length (in_buffer s));
     let buf = (if next = length (in_buffer s) then in_buffer s @ [inflight]
                else (in_buffer s)[next := inflight]);
     Some (s\<lparr>in_buffer := buf, in_count := in_count s + 1, in_allocated := True\<rparr>)
   }"

text \<open>The \<open>while\<close> loop of \<open>free_to\<close>: how many inflights are freed and where the window then starts.\<close>

function free_scan :: "Inflights \<Rightarrow> nat \<Rightarrow> nat \<Rightarrow> nat \<Rightarrow> (nat \<times> nat) panics" where
  "free_scan s to i idx =
     (if i < in_count s then
        (if length (in_buffer s) \<le> idx then None
         else if to < in_buffer s ! idx then Some (i, idx)
         else free_scan s to (i + 1) (if in_cap s \<le> idx + 1 then idx + 1 - in_cap s else idx + 1))
      else Some (i, idx))"
  by pat_completeness auto
termination
  by (relation "measure (\<lambda>(s, to, i, idx). in_count s - i)") auto

definition ins_free_to :: "Inflights \<Rightarrow> nat \<Rightarrow> Inflights panics" where
  "ins_free_to s to =
     (if in_count s = 0 then Some s
      else do {
        ensure (in_start s < length (in_buffer s));
        if to < in_buffer s ! in_start s then Some s
        else do {
          (i, idx) \<leftarrow> free_scan s to 0 (in_start s);
          let s = s\<lparr>in_count := in_count s - i, in_start := idx\<rparr>;
          Some (if in_count s = 0
                then (case in_incoming_cap s of
                        Some c \<Rightarrow> s\<lparr>in_incoming_cap := None, in_start := 0, in_cap := c,
                                    in_buffer := [], in_allocated := (0 < c)\<rparr>
                      | None \<Rightarrow> s)
                else s)
        }
      })"

definition ins_free_first_one :: "Inflights \<Rightarrow> Inflights panics" where
  "ins_free_first_one s =
     (if 0 < in_count s
      then do {
        ensure (in_start s < length (in_buffer s));
        ins_free_to s (in_buffer s ! in_start s)
      }
      else Some s)"

definition ins_reset :: "Inflights \<Rightarrow> Inflights" where
  "ins_reset s =
     s\<lparr>in_count := 0, in_start := 0, in_buffer := [], in_allocated := False,
       in_cap := (case in_incoming_cap s of Some c \<Rightarrow> c | None \<Rightarrow> in_cap s),
       in_incoming_cap := None\<rparr>"

definition ins_maybe_free_buffer :: "Inflights \<Rightarrow> Inflights" where
  "ins_maybe_free_buffer s =
     (if in_count s = 0 then s\<lparr>in_start := 0, in_buffer := [], in_allocated := False\<rparr> else s)"

subsection \<open>The window and the invariant\<close>

definition ring_pos :: "Inflights \<Rightarrow> nat \<Rightarrow> nat" where
  "ring_pos s k = (if in_start s + k < in_cap s then in_start s + k else in_start s + k - in_cap s)"

definition ins_window :: "Inflights \<Rightarrow> nat list" where
  "ins_window s = map (\<lambda>k. in_buffer s ! ring_pos s k) [0..<in_count s]"

definition ins_inv :: "Inflights \<Rightarrow> bool" where
  "ins_inv s \<longleftrightarrow>
     in_count s \<le> in_cap s \<and> (in_start s < in_cap s \<or> in_start s = 0) \<and>
     length (in_buffer s) \<le> in_cap s \<and>
     (if in_cap s < in_start s + in_count s then length (in_buffer s) = in_cap s
      else in_start s + in_count s \<le> length (in_buffer s)) \<and>
     (\<not> in_allocated s \<longrightarrow> in_buffer s = []) \<and>
     (case in_incoming_cap s of None \<Rightarrow> True | Some c \<Rightarrow> c < in_cap s \<and> 0 < in_count s)"

text \<open>The capacity a peer is being moved to: the pending one if there is one.\<close>

definition ins_limit :: "Inflights \<Rightarrow> nat" where
  "ins_limit s = (case in_incoming_cap s of None \<Rightarrow> in_cap s | Some c \<Rightarrow> c)"

lemma length_ins_window [simp]: "length (ins_window s) = in_count s"
  by (simp add: ins_window_def)

lemma ring_pos_bound: "ins_inv s \<Longrightarrow> k < in_count s \<Longrightarrow> ring_pos s k < length (in_buffer s)"
  by (auto simp: ins_inv_def ring_pos_def split: if_splits)

lemma ring_pos_0: "ins_inv s \<Longrightarrow> 0 < in_count s \<Longrightarrow> ring_pos s 0 = in_start s"
  by (auto simp: ins_inv_def ring_pos_def)

lemma ring_pos_Suc:
  "ins_inv s \<Longrightarrow> k < in_count s \<Longrightarrow>
    (if in_cap s \<le> ring_pos s k + 1 then ring_pos s k + 1 - in_cap s else ring_pos s k + 1)
      = ring_pos s (Suc k)"
  by (auto simp: ins_inv_def ring_pos_def)

lemma nth_ins_window: "k < in_count s \<Longrightarrow> ins_window s ! k = in_buffer s ! ring_pos s k"
  by (simp add: ins_window_def)

lemma ins_inv_new [simp]: "ins_inv (Inflights_new c)" "ins_window (Inflights_new c) = []"
  by (simp_all add: ins_inv_def Inflights_new_def ins_window_def)

lemma ins_inv_reset [simp]: "ins_inv (ins_reset s)" "ins_window (ins_reset s) = []"
  by (simp_all add: ins_inv_def ins_reset_def ins_window_def)

lemma ins_limit_reset [simp]: "ins_limit (ins_reset s) = ins_limit s"
  by (simp add: ins_limit_def ins_reset_def split: option.splits)

lemma ins_maybe_free_buffer:
  "ins_inv s \<Longrightarrow> ins_inv (ins_maybe_free_buffer s) \<and> ins_window (ins_maybe_free_buffer s) = ins_window s"
  by (auto simp: ins_inv_def ins_maybe_free_buffer_def ins_window_def split: option.splits)

lemma ins_inv_incoming:
  assumes "ins_inv (s\<lparr>in_incoming_cap := None\<rparr>)"
    and "case in_incoming_cap s of None \<Rightarrow> True | Some c \<Rightarrow> c < in_cap s \<and> 0 < in_count s"
  shows "ins_inv s"
  using assms by (auto simp: ins_inv_def split: if_splits)

lemma ins_add_window:
  assumes inv: "ins_inv s" and nfull: "\<not> ins_full s"
  shows "\<exists>s'. ins_add s x = Some s' \<and> ins_inv s' \<and> ins_window s' = ins_window s @ [x] \<and>
    in_count s' = in_count s + 1 \<and> ins_limit s' = ins_limit s"
proof -
  let ?next = "ring_pos s (in_count s)"
  have lt: "in_count s < in_cap s" using inv nfull by (auto simp: ins_inv_def ins_full_def)
  have next_le: "?next \<le> length (in_buffer s)" and next_cap: "?next < in_cap s"
    using inv lt by (auto simp: ins_inv_def ring_pos_def split: if_splits)
  let ?buf = "if ?next = length (in_buffer s) then in_buffer s @ [x] else (in_buffer s)[?next := x]"
  let ?s' = "s\<lparr>in_buffer := ?buf, in_count := in_count s + 1, in_allocated := True\<rparr>"
  have "ins_add s x = Some ?s'"
    using inv nfull next_le
    by (auto simp: ins_add_def ins_inv_def ring_pos_def Let_def split: option.splits if_splits)
  moreover have "ins_inv ?s'"
    using inv lt next_le next_cap nfull
    by (auto simp: ins_inv_def ring_pos_def ins_full_def split: option.splits if_splits)
  moreover have "ins_window ?s' = ins_window s @ [x]"
  proof (rule nth_equalityI)
    fix k
    assume "k < length (ins_window ?s')"
    then have k: "k \<le> in_count s" by simp
    have pos: "ring_pos ?s' k = ring_pos s k" by (simp add: ring_pos_def)
    show "ins_window ?s' ! k = (ins_window s @ [x]) ! k"
    proof (cases "k = in_count s")
      case True
      then show ?thesis using next_le pos
        by (simp add: nth_ins_window nth_append)
    next
      case False
      then have kl: "k < in_count s" using k by simp
      have "ring_pos s k \<noteq> ?next" using kl lt inv by (auto simp: ring_pos_def ins_inv_def)
      then show ?thesis
        using kl pos ring_pos_bound [OF inv kl] by (simp add: nth_ins_window nth_append)
    qed
  qed simp
  moreover have "ins_limit ?s' = ins_limit s" by (simp add: ins_limit_def split: option.splits)
  ultimately show ?thesis by auto
qed

lemma ins_add_full: "ins_full s \<Longrightarrow> ins_add s x = None"
  by (simp add: ins_add_def)

lemma free_scan_window:
  assumes "ins_inv s" "i \<le> in_count s"
  shows "free_scan s to i (ring_pos s i) =
    (let j = i + length (takeWhile (\<lambda>x. x \<le> to) (drop i (ins_window s))) in Some (j, ring_pos s j))"
  using assms(2)
proof (induction "in_count s - i" arbitrary: i)
  case 0
  then have "\<not> i < in_count s" by simp
  with 0 show ?case by (subst free_scan.simps) (simp add: Let_def)
next
  case (Suc n)
  then have i: "i < in_count s" by simp
  have drop: "drop i (ins_window s) = in_buffer s ! ring_pos s i # drop (Suc i) (ins_window s)"
    using i Cons_nth_drop_Suc [of i "ins_window s"] by (simp add: nth_ins_window)
  have IH: "free_scan s to (Suc i) (ring_pos s (Suc i)) =
    (let j = Suc i + length (takeWhile (\<lambda>x. x \<le> to) (drop (Suc i) (ins_window s)))
     in Some (j, ring_pos s j))"
    using Suc i by (intro Suc.hyps(1)) auto
  show ?case
    using i ring_pos_bound [OF assms(1) i] ring_pos_Suc [OF assms(1) i] IH
    by (subst free_scan.simps) (simp add: drop Let_def not_le)
qed

lemma ins_free_to_window:
  assumes inv: "ins_inv s"
  shows "\<exists>s'. ins_free_to s to = Some s' \<and> ins_inv s' \<and>
    ins_window s' = dropWhile (\<lambda>x. x \<le> to) (ins_window s) \<and> ins_limit s' = ins_limit s"
proof (cases "in_count s = 0")
  case True
  then show ?thesis using inv by (simp add: ins_free_to_def ins_window_def)
next
  case False
  let ?j = "length (takeWhile (\<lambda>x. x \<le> to) (ins_window s))"
  have start: "in_start s < length (in_buffer s)" "ins_window s ! 0 = in_buffer s ! in_start s"
    using ring_pos_0 [OF inv] ring_pos_bound [OF inv, of 0] nth_ins_window [of 0 s] False by auto
  have ne: "ins_window s \<noteq> []" using False length_ins_window [of s] by fastforce
  show ?thesis
  proof (cases "to < in_buffer s ! in_start s")
    case True
    have "dropWhile (\<lambda>x. x \<le> to) (ins_window s) = ins_window s"
      using True start(2) ne by (cases "ins_window s") auto
    then show ?thesis using True False start inv by (simp add: ins_free_to_def)
  next
    case notlt: False
    let ?t = "s\<lparr>in_count := in_count s - ?j, in_start := ring_pos s ?j\<rparr>"
    have j: "?j \<le> in_count s"
      using length_takeWhile_le [of "\<lambda>x. x \<le> to" "ins_window s"] by simp
    have scan: "free_scan s to 0 (in_start s) = Some (?j, ring_pos s ?j)"
      using free_scan_window [OF inv, of 0 to] ring_pos_0 [OF inv] False by (simp add: Let_def)
    have pos: "ring_pos ?t k = ring_pos s (?j + k)" if "k < in_count s - ?j" for k
      using that inv j by (auto simp: ring_pos_def ins_inv_def)
    have win: "ins_window ?t = drop ?j (ins_window s)"
      by (rule nth_equalityI) (auto simp: nth_ins_window pos)
    have core: "ins_inv (?t\<lparr>in_incoming_cap := None\<rparr>)"
      using inv j False by (auto simp: ins_inv_def ring_pos_def split: if_splits)
    have invt: "ins_inv ?t" if "in_count ?t \<noteq> 0"
      using core by (rule ins_inv_incoming)
        (use inv that in \<open>auto simp: ins_inv_def split: option.splits\<close>)
    have dw: "dropWhile (\<lambda>x. x \<le> to) (ins_window s) = ins_window ?t"
      using win by (simp add: dropWhile_eq_drop)
    have core0: "ins_inv ?t" if "in_incoming_cap s = None"
      using core by (rule ins_inv_incoming) (simp add: that)
    have res: "ins_free_to s to = Some (if in_count ?t = 0
        then (case in_incoming_cap ?t of
                Some c \<Rightarrow> ?t\<lparr>in_incoming_cap := None, in_start := 0, in_cap := c, in_buffer := [],
                  in_allocated := (0 < c)\<rparr>
              | None \<Rightarrow> ?t) else ?t)"
      using False notlt start(1) scan by (simp add: ins_free_to_def Let_def)
    show ?thesis
    proof (cases "in_count ?t = 0 \<and> in_incoming_cap s \<noteq> None")
      case True
      then obtain c where c: "in_incoming_cap s = Some c" by auto
      let ?u = "?t\<lparr>in_incoming_cap := None, in_start := 0, in_cap := c, in_buffer := [],
        in_allocated := (0 < c)\<rparr>"
      have "ins_free_to s to = Some ?u" using res True c by simp
      moreover have "ins_inv ?u" using True by (simp add: ins_inv_def)
      moreover have "ins_window ?u = ins_window ?t" using True by (simp add: ins_window_def)
      ultimately show ?thesis using dw c by (auto simp: ins_limit_def)
    next
      case stay: False
      then have "ins_free_to s to = Some ?t" using res by (auto split: option.splits)
      moreover have "ins_inv ?t" using stay invt core0 by auto
      moreover have "ins_limit ?t = ins_limit s" by (simp add: ins_limit_def split: option.splits)
      ultimately show ?thesis using dw by auto
    qed
  qed
qed

lemma ins_set_cap_window:
  assumes inv: "ins_inv s"
  shows "\<exists>s'. ins_set_cap s c = Some s' \<and> ins_inv s' \<and> ins_window s' = ins_window s \<and> ins_limit s' = c"
proof -
  consider (eq) "in_cap s = c" | (flat) "in_cap s < c" "in_start s + in_count s \<le> in_cap s"
    | (wrap) "in_cap s < c" "in_cap s < in_start s + in_count s"
    | (shrink) "c < in_cap s" "in_count s \<noteq> 0" | (empty) "c < in_cap s" "in_count s = 0"
    by linarith
  then show ?thesis
  proof cases
    case flat
    let ?s' = "s\<lparr>in_cap := c, in_incoming_cap := None\<rparr>"
    have "ins_window ?s' = ins_window s"
      using flat by (auto simp: ins_window_def ring_pos_def)
    then show ?thesis
      using flat inv by (auto simp: ins_set_cap_def ins_inv_def ins_limit_def)
  next
    case wrap
    let ?k = "in_cap s - in_start s"
    let ?s' = "s\<lparr>in_buffer := drop (in_start s) (in_buffer s) @ take (in_count s - ?k) (in_buffer s),
       in_allocated := True, in_start := 0, in_cap := c, in_incoming_cap := None\<rparr>"
    have len: "length (in_buffer s) = in_cap s" and cnt: "in_count s \<le> in_cap s"
      and st: "in_start s < in_cap s"
      using wrap inv by (auto simp: ins_inv_def)
    have "ins_window ?s' = ins_window s"
      using wrap len cnt st
      by (intro nth_equalityI) (auto simp: nth_ins_window ring_pos_def nth_append add.commute)
    moreover have "ins_inv ?s'" using wrap len cnt st by (auto simp: ins_inv_def)
    moreover have "?k \<le> in_count s" "in_count s - ?k \<le> in_cap s" using wrap cnt by auto
    then have "ins_set_cap s c = Some ?s'" using wrap len st by (simp add: ins_set_cap_def)
    ultimately show ?thesis by (auto simp: ins_limit_def)
  qed (use inv in \<open>auto simp: ins_set_cap_def ins_inv_def ins_window_def ring_pos_def ins_limit_def
         split: option.splits\<close>)
qed

lemma ins_full_iff: "ins_inv s \<Longrightarrow> ins_full s \<longleftrightarrow> ins_limit s \<le> length (ins_window s)"
  by (auto simp: ins_full_def ins_limit_def ins_inv_def split: option.splits)

subsection \<open>The contract of a flow-control window\<close>

text \<open>
  What \<^verbatim>\<open>Progress\<close> relies on: the buffer behaves as a bounded queue of indexes that is freed from
  the front.  Clients add indexes in increasing order, and then what stays in flight after an
  acknowledgement is exactly what lies above it.
\<close>

locale flow_window =
  fixes window :: "'w \<Rightarrow> nat list"
    and invar :: "'w \<Rightarrow> bool"
    and full :: "'w \<Rightarrow> bool"
    and add :: "'w \<Rightarrow> nat \<Rightarrow> 'w option"
    and free_to :: "'w \<Rightarrow> nat \<Rightarrow> 'w option"
    and reset :: "'w \<Rightarrow> 'w"
  assumes add_ok: "invar w \<Longrightarrow> \<not> full w \<Longrightarrow>
      \<exists>w'. add w x = Some w' \<and> invar w' \<and> window w' = window w @ [x]"
    and add_full: "full w \<Longrightarrow> add w x = None"
    and free_ok: "invar w \<Longrightarrow>
      \<exists>w'. free_to w t = Some w' \<and> invar w' \<and> window w' = dropWhile (\<lambda>x. x \<le> t) (window w)"
    and reset_ok: "invar (reset w) \<and> window (reset w) = []"
begin

lemma add_sorted:
  assumes "invar w" "sorted (window w)" "\<forall>y \<in> set (window w). y \<le> x" "add w x = Some w'"
  shows "invar w' \<and> sorted (window w')"
proof -
  have "\<not> full w" using add_full assms(4) by (cases "full w") auto
  then show ?thesis using add_ok [OF assms(1), of x] assms by (auto simp: sorted_append)
qed

lemma free_exact:
  assumes "invar w" "sorted (window w)" "free_to w t = Some w'"
  shows "window w' = filter (\<lambda>x. t < x) (window w)"
proof -
  have "dropWhile (\<lambda>x. x \<le> t) xs = filter (\<lambda>x. t < x) xs" if "sorted xs" for xs :: "nat list"
  proof (use that in \<open>induction xs\<close>)
    case (Cons a xs)
    then have "filter (\<lambda>x. t < x) xs = xs" if "t < a" using that by (auto intro!: filter_True)
    with Cons show ?case by auto
  qed simp
  with free_ok [OF assms(1), of t] assms(2,3) show ?thesis by auto
qed

end

interpretation iw: flow_window ins_window ins_inv ins_full ins_add ins_free_to ins_reset
proof
  fix w x
  assume "ins_inv w" "\<not> ins_full w"
  then show "\<exists>w'. ins_add w x = Some w' \<and> ins_inv w' \<and> ins_window w' = ins_window w @ [x]"
    using ins_add_window by blast
next
  fix w t
  assume "ins_inv w"
  then show "\<exists>w'. ins_free_to w t = Some w' \<and> ins_inv w' \<and>
      ins_window w' = dropWhile (\<lambda>x. x \<le> t) (ins_window w)"
    using ins_free_to_window by blast
qed (simp_all add: ins_add_full)

lemma ins_free_first_one_window:
  assumes inv: "ins_inv s" and "ins_window s = x # xs"
  shows "\<exists>s'. ins_free_first_one s = Some s' \<and> ins_inv s' \<and>
    ins_window s' = dropWhile (\<lambda>y. y \<le> x) xs \<and> ins_limit s' = ins_limit s"
proof -
  have c: "0 < in_count s" using assms(2) length_ins_window [of s] by simp
  then have "in_start s < length (in_buffer s)" "in_buffer s ! in_start s = x"
    using ring_pos_0 [OF inv] ring_pos_bound [OF inv, of 0] nth_ins_window [of 0 s] assms(2) by auto
  then show ?thesis using ins_free_to_window [OF inv, of x] c assms(2)
    by (simp add: ins_free_first_one_def)
qed

subsection \<open>Properties\<close>

text \<open>C25: the ring buffer refines a bounded queue.  From a well-formed buffer no operation panics
  except adding to a full one; adding appends to the window, freeing up to an index drops the
  prefix of the window at or below it, changing the capacity keeps the window (also across the wrap
  and while a smaller capacity waits for the window to drain) and sets the limit the buffer is full
  at, resetting empties it, and every operation keeps the buffer well-formed.\<close>

theorem inflights_refines_queue:
  assumes "ins_inv s"
  shows "(ins_full s \<longleftrightarrow> ins_limit s \<le> length (ins_window s)) \<and>
    (if ins_full s then ins_add s x = None
     else \<exists>s'. ins_add s x = Some s' \<and> ins_inv s' \<and> ins_window s' = ins_window s @ [x]) \<and>
    (\<exists>s'. ins_free_to s x = Some s' \<and> ins_inv s' \<and>
       ins_window s' = dropWhile (\<lambda>y. y \<le> x) (ins_window s)) \<and>
    (\<exists>s'. ins_set_cap s c = Some s' \<and> ins_inv s' \<and> ins_window s' = ins_window s \<and> ins_limit s' = c) \<and>
    ins_inv (ins_reset s) \<and> ins_window (ins_reset s) = [] \<and> ins_limit (ins_reset s) = ins_limit s"
  using ins_full_iff [OF assms] ins_add_full [of s x] iw.add_ok [OF assms, of x]
    iw.free_ok [OF assms, of x] ins_set_cap_window [OF assms, of c] ins_limit_reset [of s]
  by simp

theorem inflights_refines_queue_witness:
  "ins_add \<lparr>in_start = 1, in_count = 2, in_buffer = [7, 5, 6], in_cap = 3, in_incoming_cap = None,
     in_allocated = True\<rparr> 8 \<noteq> None"
proof -
  let ?s = "\<lparr>in_start = 1, in_count = 2, in_buffer = [7, 5, 6], in_cap = 3, in_incoming_cap = None,
     in_allocated = True\<rparr>"
  have "ins_inv ?s" by (simp add: ins_inv_def)
  moreover have "\<not> ins_full ?s" by (simp add: ins_full_def)
  ultimately show ?thesis using inflights_refines_queue [of ?s 8 0] by auto
qed

text \<open>Acknowledgements free exactly what they cover.  When the indexes in flight are in
  increasing order, freeing up to an index leaves exactly the indexes above it in flight, so the
  freed messages are those the peer has acknowledged.\<close>

theorem inflights_free_exact:
  assumes "ins_inv s" "sorted (ins_window s)"
  shows "\<exists>s'. ins_free_to s x = Some s' \<and> ins_window s' = filter (\<lambda>y. x < y) (ins_window s) \<and>
    sorted (ins_window s')"
proof -
  obtain s' where s': "ins_free_to s x = Some s'" using iw.free_ok [OF assms(1)] by blast
  moreover have "ins_window s' = filter (\<lambda>y. x < y) (ins_window s)"
    by (rule iw.free_exact [OF assms s'])
  ultimately show ?thesis using assms(2) sorted_filter [of id] by auto
qed

end
