(* ===== verification/Progress_Tracking.thy ===== *)
theory Progress_Tracking
  imports InflightsBuf
begin

text \<open>
  \<^verbatim>\<open>src/tracker/state.rs\<close> and \<^verbatim>\<open>src/tracker/progress.rs\<close>: what a leader knows of one follower.  The
  operations that call into the inflight window may panic there.  \<open>pr_step\<close> is the relation of the
  moves the leader makes on the progress of a regular peer while it leads (each rule composed the way the handlers of
  \<^verbatim>\<open>src/raft.rs\<close> compose the operations).  It leaves out \<open>pr_reset\<close>, with which a term begins, and the shortcut of
  \<^verbatim>\<open>maybe_commit\<close>, which writes \<^verbatim>\<open>matched\<close> of a witness directly.
\<close>

datatype ProgressState = Probe | Replicate | Snapshot_state

record Progress =
  matched :: nat
  next_idx :: nat
  pr_state :: ProgressState
  paused :: bool
  pending_snapshot :: nat
  pending_request_snapshot :: nat
  recent_active :: bool
  ins :: Inflights
  commit_group_id :: nat
  committed_index :: nat
  is_witness :: bool

definition Progress_new :: "nat \<Rightarrow> nat \<Rightarrow> Progress" where
  "Progress_new nxt ins_size = \<lparr>matched = 0, next_idx = nxt, pr_state = Probe, paused = False,
     pending_snapshot = 0, pending_request_snapshot = 0, recent_active = False,
     ins = Inflights_new ins_size, commit_group_id = 0, committed_index = 0, is_witness = False\<rparr>"

definition reset_state :: "Progress \<Rightarrow> ProgressState \<Rightarrow> Progress" where
  "reset_state p st = p\<lparr>paused := False, pending_snapshot := 0, pr_state := st,
     ins := ins_reset (ins p)\<rparr>"

definition pr_reset :: "Progress \<Rightarrow> nat \<Rightarrow> Progress" where
  "pr_reset p nxt = p\<lparr>matched := 0, next_idx := nxt, pr_state := Probe, paused := False,
     pending_snapshot := 0, pending_request_snapshot := INVALID_INDEX, recent_active := False,
     ins := ins_reset (ins p)\<rparr>"

definition become_probe :: "Progress \<Rightarrow> Progress" where
  "become_probe p =
     (if pr_state p = Snapshot_state
      then let pend = pending_snapshot p; q = reset_state p Probe
           in q\<lparr>next_idx := max (matched q + 1) (pend + 1)\<rparr>
      else let q = reset_state p Probe in q\<lparr>next_idx := matched q + 1\<rparr>)"

definition become_replicate :: "Progress \<Rightarrow> Progress" where
  "become_replicate p = (let q = reset_state p Replicate in q\<lparr>next_idx := matched q + 1\<rparr>)"

definition become_snapshot :: "Progress \<Rightarrow> nat \<Rightarrow> Progress" where
  "become_snapshot p snapshot_idx = (reset_state p Snapshot_state)\<lparr>pending_snapshot := snapshot_idx\<rparr>"

definition snapshot_failure :: "Progress \<Rightarrow> Progress" where
  "snapshot_failure p = p\<lparr>pending_snapshot := 0\<rparr>"

definition is_snapshot_caught_up :: "Progress \<Rightarrow> bool" where
  "is_snapshot_caught_up p \<longleftrightarrow> pr_state p = Snapshot_state \<and> pending_snapshot p \<le> matched p"

definition resume :: "Progress \<Rightarrow> Progress" where
  "resume p = p\<lparr>paused := False\<rparr>"

definition pause :: "Progress \<Rightarrow> Progress" where
  "pause p = p\<lparr>paused := True\<rparr>"

definition maybe_update :: "Progress \<Rightarrow> nat \<Rightarrow> Progress \<times> bool" where
  "maybe_update p n =
     (let need_update = matched p < n;
          q = (if need_update then resume (p\<lparr>matched := n\<rparr>) else p);
          q = (if next_idx q < n + 1 then q\<lparr>next_idx := n + 1\<rparr> else q)
      in (q, need_update))"

definition update_committed :: "Progress \<Rightarrow> nat \<Rightarrow> Progress" where
  "update_committed p c = (if committed_index p < c then p\<lparr>committed_index := c\<rparr> else p)"

definition optimistic_update :: "Progress \<Rightarrow> nat \<Rightarrow> Progress" where
  "optimistic_update p n = p\<lparr>next_idx := n + 1\<rparr>"

definition maybe_decr_to :: "Progress \<Rightarrow> nat \<Rightarrow> nat \<Rightarrow> nat \<Rightarrow> Progress \<times> bool" where
  "maybe_decr_to p rejected match_hint request_snapshot =
     (if pr_state p = Replicate then
        (if rejected < matched p \<or> (rejected = matched p \<and> request_snapshot = INVALID_INDEX)
         then (p, False)
         else if request_snapshot = INVALID_INDEX then (p\<lparr>next_idx := matched p + 1\<rparr>, True)
         else (p\<lparr>pending_request_snapshot := request_snapshot\<rparr>, True))
      else if (next_idx p = 0 \<or> next_idx p - 1 \<noteq> rejected) \<and> request_snapshot = INVALID_INDEX
      then (p, False)
      else let q = (if request_snapshot = INVALID_INDEX
                    then let q = p\<lparr>next_idx := min rejected (match_hint + 1)\<rparr>
                         in if next_idx q < matched q + 1 then q\<lparr>next_idx := matched q + 1\<rparr> else q
                    else if pending_request_snapshot p = INVALID_INDEX
                    then p\<lparr>pending_request_snapshot := request_snapshot\<rparr>
                    else p)
           in (resume q, True))"

definition is_paused :: "Progress \<Rightarrow> bool" where
  "is_paused p = (case pr_state p of
       Probe \<Rightarrow> paused p
     | Replicate \<Rightarrow> ins_full (ins p)
     | Snapshot_state \<Rightarrow> True)"

definition update_state :: "Progress \<Rightarrow> nat \<Rightarrow> Progress panics" where
  "update_state p lst = (case pr_state p of
       Replicate \<Rightarrow> do {
         let q = optimistic_update p lst;
         w \<leftarrow> ins_add (ins q) lst;
         Some (q\<lparr>ins := w\<rparr>)
       }
     | Probe \<Rightarrow> Some (pause p)
     | Snapshot_state \<Rightarrow> None)"

lemmas progress_defs = reset_state_def become_probe_def become_replicate_def become_snapshot_def
  snapshot_failure_def resume_def pause_def update_committed_def optimistic_update_def

subsection \<open>Well-formedness and the moves of the leader\<close>

definition pr_inv :: "Progress \<Rightarrow> bool" where
  "pr_inv p \<longleftrightarrow> matched p < next_idx p \<and> ins_inv (ins p) \<and> sorted (ins_window (ins p)) \<and>
     (\<forall>x \<in> set (ins_window (ins p)). x < next_idx p) \<and>
     (pr_state p \<noteq> Replicate \<longrightarrow> ins_window (ins p) = [])"

text \<open>
  The append-response handler: a rejection (\<open>Replicate\<close> falls back to \<open>Probe\<close>) and an accepted
  append, as \<open>handle_append_response\<close> composes them.
\<close>

definition on_reject :: "Progress \<Rightarrow> nat \<Rightarrow> nat \<Rightarrow> nat \<Rightarrow> Progress" where
  "on_reject p rejected hint request_snapshot =
     (let (q, b) = maybe_decr_to p rejected hint request_snapshot
      in if b \<and> pr_state q = Replicate then become_probe q else q)"

definition on_accept :: "Progress \<Rightarrow> nat \<Rightarrow> Progress panics" where
  "on_accept p n =
     (let (q, b) = maybe_update p n
      in if \<not> b then Some q
         else (case pr_state q of
             Probe \<Rightarrow> Some (become_replicate q)
           | Snapshot_state \<Rightarrow> Some (if is_snapshot_caught_up q then become_probe q else q)
           | Replicate \<Rightarrow> do { w \<leftarrow> ins_free_to (ins q) n; Some (q\<lparr>ins := w\<rparr>) }))"

inductive pr_step :: "Progress \<Rightarrow> Progress \<Rightarrow> bool" where
  rejected: "pr_step p (on_reject p rej hint req)"
| accepted: "on_accept p n = Some q \<Longrightarrow> pr_step p q"
| sent: "\<not> is_paused p \<Longrightarrow> next_idx p \<le> lst \<Longrightarrow> update_state p lst = Some q \<Longrightarrow> pr_step p q"
| sent_snapshot: "\<not> is_paused p \<Longrightarrow> pr_step p (become_snapshot p i)"
| snapshot_failed: "pr_state p = Snapshot_state \<Longrightarrow> pr_step p (pause (become_probe (snapshot_failure p)))"
| snapshot_done: "pr_state p = Snapshot_state \<Longrightarrow> pr_step p (pause (become_probe p))"
| unreachable: "pr_state p = Replicate \<Longrightarrow> pr_step p (become_probe p)"
| heartbeat: "pr_step p (resume p)"
| heartbeat_full: "pr_state p = Replicate \<Longrightarrow> ins_full (ins p) \<Longrightarrow>
    ins_free_first_one (ins p) = Some w \<Longrightarrow> pr_step p (resume p\<lparr>ins := w\<rparr>)"
| resized: "ins_set_cap (ins p) c = Some w \<Longrightarrow> pr_step p (p\<lparr>ins := w\<rparr>)"
| freed: "pr_step p (p\<lparr>ins := ins_maybe_free_buffer (ins p)\<rparr>)"

lemma maybe_update_simps:
  "matched (fst (maybe_update p n)) = max (matched p) n"
  "next_idx (fst (maybe_update p n)) = max (next_idx p) (n + 1)"
  "pr_state (fst (maybe_update p n)) = pr_state p"
  "ins (fst (maybe_update p n)) = ins p"
  "pending_snapshot (fst (maybe_update p n)) = pending_snapshot p"
  "snd (maybe_update p n) \<longleftrightarrow> matched p < n"
  by (auto simp: maybe_update_def Let_def resume_def)

lemma pr_invD: "pr_inv p \<Longrightarrow> ins_inv (ins p)" "pr_inv p \<Longrightarrow> matched p < next_idx p"
  by (simp_all add: pr_inv_def)

lemma pr_inv_maybe_update: "pr_inv p \<Longrightarrow> pr_inv (fst (maybe_update p n))"
  by (fastforce simp: pr_inv_def maybe_update_simps)

lemma pr_inv_become:
  assumes "ins_inv (ins p)"
  shows "pr_inv (become_probe p)" "pr_inv (become_replicate p)"
    "matched p < next_idx p \<Longrightarrow> pr_inv (become_snapshot p i)"
  by (auto simp: pr_inv_def progress_defs Let_def)

lemma pr_inv_pause_resume [simp]: "pr_inv (pause p) = pr_inv p" "pr_inv (resume p) = pr_inv p"
  by (simp_all add: pr_inv_def pause_def resume_def)

lemma maybe_decr_to_ins:
  "maybe_decr_to p r h q = (p', b) \<Longrightarrow> ins p' = ins p \<and> pr_state p' = pr_state p \<and> matched p' = matched p"
  by (auto simp: maybe_decr_to_def Let_def resume_def split: if_splits)

lemma maybe_decr_to_next:
  assumes "maybe_decr_to p r h q = (p', b)" "matched p < next_idx p"
  shows "matched p' < next_idx p'"
  using assms by (auto simp: maybe_decr_to_def Let_def resume_def split: if_splits)

lemma pr_inv_on_reject:
  assumes "pr_inv p"
  shows "pr_inv (on_reject p r h q)"
proof -
  obtain p' b where d: "maybe_decr_to p r h q = (p', b)" by fastforce
  note same = maybe_decr_to_ins [OF d]
  show ?thesis
  proof (cases "pr_state p = Replicate")
    case True
    then have "b \<or> p' = p" using d by (auto simp: maybe_decr_to_def split: if_splits)
    then show ?thesis
      using True assms same d pr_inv_become(1) [of p'] by (auto simp: on_reject_def pr_inv_def)
  next
    case False
    then show ?thesis
      using assms same d maybe_decr_to_next [OF d] by (auto simp: on_reject_def pr_inv_def)
  qed
qed

lemma on_accept_inv:
  assumes "pr_inv p"
  shows "\<exists>q. on_accept p n = Some q \<and> pr_inv q"
proof -
  let ?q = "fst (maybe_update p n)"
  have inv: "pr_inv ?q" by (rule pr_inv_maybe_update [OF assms])
  then have ii: "ins_inv (ins ?q)" and sw: "sorted (ins_window (ins ?q))" by (auto simp: pr_inv_def)
  obtain w where w: "ins_free_to (ins ?q) n = Some w" "ins_inv w"
    using iw.free_ok [OF ii, of n] by blast
  have win: "ins_window w = filter (\<lambda>x. n < x) (ins_window (ins ?q))"
    by (rule iw.free_exact [OF ii sw w(1)])
  have "pr_inv (?q\<lparr>ins := w\<rparr>)"
    using inv w(2) win sorted_filter [of id] by (auto simp: pr_inv_def)
  then show ?thesis
    using inv w(1) pr_inv_become [OF ii]
    by (cases "pr_state ?q") (auto simp: on_accept_def split: prod.splits)
qed

lemma update_state_inv:
  assumes "pr_inv p" "\<not> is_paused p" "next_idx p \<le> lst"
  shows "\<exists>q. update_state p lst = Some q \<and> pr_inv q \<and> matched q = matched p"
proof (cases "pr_state p")
  case Replicate
  then have nf: "\<not> ins_full (ins p)" using assms(2) by (simp add: is_paused_def)
  obtain w where w: "ins_add (ins p) lst = Some w" "ins_inv w" "ins_window w = ins_window (ins p) @ [lst]"
    using iw.add_ok [of "ins p" lst] assms(1) nf by (auto simp: pr_inv_def)
  then show ?thesis
    using assms Replicate
    by (fastforce simp: update_state_def optimistic_update_def pr_inv_def sorted_append)
qed (use assms in \<open>auto simp: update_state_def is_paused_def pause_def pr_inv_def\<close>)

lemma pr_step_inv: "pr_step p q \<Longrightarrow> pr_inv p \<Longrightarrow> pr_inv q"
proof (induction rule: pr_step.induct)
  case (heartbeat_full p w)
  show ?case
  proof (cases "ins_window (ins p)")
    case Nil
    then have "in_count (ins p) = 0" using length_ins_window [of "ins p"] by simp
    then have "w = ins p" using heartbeat_full(3) by (simp add: ins_free_first_one_def)
    then show ?thesis using heartbeat_full(4) by (simp add: resume_def pr_inv_def)
  next
    case (Cons x xs)
    obtain w' where "ins_free_first_one (ins p) = Some w'" "ins_inv w'"
        "ins_window w' = dropWhile (\<lambda>y. y \<le> x) xs"
      using ins_free_first_one_window [of "ins p" x xs] heartbeat_full(4) Cons by (auto simp: pr_inv_def)
    then show ?thesis
      using heartbeat_full Cons
      by (auto simp: pr_inv_def resume_def sorted_dropWhile dest: set_dropWhileD)
  qed
next
  case (resized p c w)
  then show ?case using ins_set_cap_window [of "ins p" c] by (auto simp: pr_inv_def)
next
  case (freed p)
  then show ?case using ins_maybe_free_buffer [of "ins p"] by (auto simp: pr_inv_def)
next
  case (sent p lst q)
  then show ?case using update_state_inv [of p lst] by auto
next
  case (accepted p n q)
  then show ?case using on_accept_inv [of p n] by auto
qed (auto simp: pr_inv_on_reject pr_inv_become pr_invD snapshot_failure_def)

lemma pr_step_matched: "pr_step p q \<Longrightarrow> matched p \<le> matched q"
proof (induction rule: pr_step.induct)
  case (rejected p r h req)
  obtain p' b where d: "maybe_decr_to p r h req = (p', b)" by fastforce
  then show ?case
    using maybe_decr_to_ins [OF d] by (auto simp: on_reject_def progress_defs Let_def)
next
  case (accepted p n q)
  then show ?case
    using maybe_update_simps [of p n]
    by (auto simp: on_accept_def progress_defs Let_def bind_eq_Some_conv
        split: prod.splits if_splits ProgressState.splits)
next
  case (sent p lst q)
  then show ?case
    by (auto simp: update_state_def progress_defs bind_eq_Some_conv split: ProgressState.splits)
qed (auto simp: progress_defs Let_def)

subsection \<open>Properties\<close>

text \<open>C26: along every sequence of moves the leader makes, while it leads, on the progress of a follower that is no witness,
  starting from a
  well-formed one, the progress stays well-formed (the next index to send is above the matched
  index, the indexes in flight are increasing and below the next index, nothing is in flight
  outside replication) and the matched index never decreases.\<close>

theorem progress_run_invariant:
  assumes "pr_step\<^sup>*\<^sup>* p q" and "pr_inv p"
  shows "pr_inv q \<and> matched p \<le> matched q \<and> matched q < next_idx q"
  using assms
proof (induction rule: rtranclp_induct)
  case base
  then show ?case by (simp add: pr_inv_def)
next
  case (step q r)
  then have "pr_inv r" using pr_step_inv by blast
  then show ?case using step pr_step_matched [of q r] by (force simp: pr_inv_def)
qed

theorem progress_run_invariant_witness:
  "\<exists>q. pr_step\<^sup>*\<^sup>* (Progress_new 1 2) q \<and> pr_state q = Replicate \<and> matched q = 3 \<and> matched q < next_idx q"
proof -
  let ?p = "Progress_new 1 2"
  let ?q = "become_replicate (fst (maybe_update ?p 3))"
  have "on_accept ?p 3 = Some ?q"
    by (simp add: on_accept_def maybe_update_def Progress_new_def resume_def)
  then have step: "pr_step\<^sup>*\<^sup>* ?p ?q" by (meson pr_step.accepted r_into_rtranclp)
  have inv: "pr_inv ?p" by (simp add: pr_inv_def Progress_new_def)
  have "pr_state ?q = Replicate" "matched ?q = 3"
    by (simp_all add: become_replicate_def reset_state_def Let_def maybe_update_simps Progress_new_def)
  then show ?thesis using step progress_run_invariant [OF step inv] by blast
qed

text \<open>C27: a progress that is not paused can always send: recording the last entry of an append
  starting at the next index does not panic, and afterwards the index is in flight (replicating) or
  the progress is paused (probing); a progress waiting for a snapshot is always paused.\<close>

theorem progress_send_when_not_paused:
  assumes "pr_inv p" "next_idx p \<le> lst"
  shows "if is_paused p then pr_state p = Replicate \<longrightarrow> update_state p lst = None
    else \<exists>q. update_state p lst = Some q \<and> pr_inv q \<and>
      (if pr_state p = Replicate
       then next_idx q = lst + 1 \<and> ins_window (ins q) = ins_window (ins p) @ [lst]
       else pr_state p = Probe \<and> is_paused q \<and> next_idx q = next_idx p)"
proof (cases "is_paused p")
  case True
  then show ?thesis
    by (auto simp: is_paused_def update_state_def ins_add_full optimistic_update_def)
next
  case False
  obtain q where q: "update_state p lst = Some q" "pr_inv q"
    using update_state_inv [OF assms(1) False assms(2)] by blast
  show ?thesis
  proof (cases "pr_state p")
    case Replicate
    then have nf: "\<not> ins_full (ins p)" using False by (simp add: is_paused_def)
    show ?thesis
      using q Replicate False iw.add_ok [of "ins p" lst] assms(1) nf
      by (auto simp: update_state_def optimistic_update_def pr_inv_def)
  qed (use q False in \<open>auto simp: update_state_def is_paused_def pause_def\<close>)
qed

theorem progress_send_when_not_paused_witness:
  "\<exists>q. update_state (become_replicate (Progress_new 1 2)) 4 = Some q \<and> next_idx q = 5"
proof -
  let ?p = "become_replicate (Progress_new 1 2)"
  have "pr_inv ?p" by (rule pr_inv_become) (simp add: Progress_new_def)
  moreover have "next_idx ?p = 1" "pr_state ?p = Replicate" "\<not> is_paused ?p"
    by (simp_all add: progress_defs Let_def Progress_new_def is_paused_def ins_full_def ins_reset_def
        Inflights_new_def)
  ultimately show ?thesis using progress_send_when_not_paused [of ?p 4] by auto
qed

text \<open>A rejected probe.  A stale rejection leaves a progress unchanged; a genuine one, outside
  replication and without a snapshot request, never raises the next index, keeps it above the
  matched index and, when there is room below, strictly lowers it, so probing makes progress.\<close>

theorem maybe_decr_to_probe:
  assumes "pr_inv p" "pr_state p \<noteq> Replicate" "maybe_decr_to p rejected hint INVALID_INDEX = (q, b)"
  shows "b = (rejected = next_idx p - 1) \<and> (\<not> b \<longrightarrow> q = p) \<and>
    (b \<longrightarrow> matched q = matched p \<and> matched q < next_idx q \<and> next_idx q \<le> next_idx p \<and>
      (matched p + 1 < next_idx p \<longrightarrow> next_idx q < next_idx p) \<and> next_idx q \<le> max (hint + 1) (matched p + 1))"
  using assms by (auto simp: maybe_decr_to_def Let_def resume_def pr_inv_def split: if_splits)

end
