(* ===== verification/Proto.thy ===== *)
theory Proto
  imports Prelude
begin

text \<open>
  The messages of \<^verbatim>\<open>proto/proto/eraftpb.proto\<close> and the helper code of \<^verbatim>\<open>proto/src/confchange.rs\<close>
  and \<^verbatim>\<open>proto/src/confstate.rs\<close>, with the parts of \<^verbatim>\<open>src/util.rs\<close> that look at entries.  The encoded
  size of an entry (\<open>compute_size\<close>) is generated code and a parameter.
\<close>

datatype EntryType = EntryNormal | EntryConfChange | EntryConfChangeV2

record Entry =
  entry_type :: EntryType
  e_term :: nat
  e_index :: nat
  e_data :: bytes
  e_context :: bytes
  sync_log :: bool
  e_subterm :: nat

definition Entry_default :: Entry where
  "Entry_default = \<lparr>entry_type = EntryNormal, e_term = 0, e_index = 0, e_data = [], e_context = [],
     sync_log = False, e_subterm = 0\<rparr>"

record ConfState =
  cs_voters :: "nat list"
  cs_learners :: "nat list"
  cs_voters_outgoing :: "nat list"
  cs_learners_next :: "nat list"
  cs_auto_leave :: bool
  cs_witness :: nat
  cs_witness_outgoing :: nat

definition ConfState_default :: ConfState where
  "ConfState_default = \<lparr>cs_voters = [], cs_learners = [], cs_voters_outgoing = [],
     cs_learners_next = [], cs_auto_leave = False, cs_witness = 0, cs_witness_outgoing = 0\<rparr>"

record SnapshotMetadata =
  sm_conf_state :: ConfState
  sm_index :: nat
  sm_term :: nat

definition SnapshotMetadata_default :: SnapshotMetadata where
  "SnapshotMetadata_default = \<lparr>sm_conf_state = ConfState_default, sm_index = 0, sm_term = 0\<rparr>"

record Snapshot =
  s_data :: bytes
  s_metadata :: SnapshotMetadata

definition Snapshot_default :: Snapshot where
  "Snapshot_default = \<lparr>s_data = [], s_metadata = SnapshotMetadata_default\<rparr>"

datatype MessageType =
    MsgHup | MsgBeat | MsgPropose | MsgAppend | MsgAppendResponse
  | MsgRequestVote | MsgRequestVoteResponse | MsgSnapshot | MsgHeartbeat | MsgHeartbeatResponse
  | MsgUnreachable | MsgSnapStatus | MsgCheckQuorum | MsgTransferLeader | MsgTimeoutNow
  | MsgReadIndex | MsgReadIndexResp | MsgRequestPreVote | MsgRequestPreVoteResponse

record Message =
  msg_type :: MessageType
  m_to :: nat
  m_from :: nat
  m_term :: nat
  m_log_term :: nat
  m_index :: nat
  m_entries :: "Entry list"
  m_commit :: nat
  m_commit_term :: nat
  m_snapshot :: Snapshot
  m_request_snapshot :: nat
  m_reject :: bool
  m_reject_hint :: nat
  m_context :: bytes
  m_deprecated_priority :: nat
  m_priority :: int

definition Message_default :: Message where
  "Message_default = \<lparr>msg_type = MsgHup, m_to = 0, m_from = 0, m_term = 0, m_log_term = 0,
     m_index = 0, m_entries = [], m_commit = 0, m_commit_term = 0, m_snapshot = Snapshot_default,
     m_request_snapshot = 0, m_reject = False, m_reject_hint = 0, m_context = [],
     m_deprecated_priority = 0, m_priority = 0\<rparr>"

record HardState =
  hs_term :: nat
  hs_vote :: nat
  hs_commit :: nat

definition HardState_default :: HardState where
  "HardState_default = \<lparr>hs_term = 0, hs_vote = 0, hs_commit = 0\<rparr>"

datatype ConfChangeTransition = Auto | Implicit | Explicit

datatype ConfChangeType = AddNode | RemoveNode | AddLearnerNode | AddWitness

record ConfChange =
  cc_change_type :: ConfChangeType
  cc_node_id :: nat
  cc_context :: bytes
  cc_id :: nat

record ConfChangeSingle =
  change_type :: ConfChangeType
  node_id :: nat

record ConfChangeV2 =
  transition :: ConfChangeTransition
  changes :: "ConfChangeSingle list"
  v2_context :: bytes

record WitnessHardState =
  wh_state :: HardState
  wh_last_log_index :: nat
  wh_last_log_term :: nat
  wh_last_log_subterm :: nat
  wh_lead :: nat
  wh_replication_set :: "nat list"
  wh_replication_set_outgoing :: "nat list"
  wh_committed_log_term :: nat
  wh_committed_log_subterm :: nat

record WitnessMessage =
  wm_msg_type :: MessageType
  wm_from :: nat
  wm_to :: nat
  wm_term :: nat
  wm_last_log_term :: nat
  wm_last_log_subterm :: nat
  wm_last_log_index :: nat
  wm_replication_set_incoming :: "nat list"
  wm_replication_set_outgoing :: "nat list"
  wm_vote_ids :: "nat list"
  wm_vote_vals :: "bool list"
  wm_context :: bytes
  wm_entries :: "Entry list"
  wm_commit :: nat
  wm_commit_term :: nat
  wm_commit_subterm :: nat

definition WitnessMessage_default :: WitnessMessage where
  "WitnessMessage_default = \<lparr>wm_msg_type = MsgHup, wm_from = 0, wm_to = 0, wm_term = 0,
     wm_last_log_term = 0, wm_last_log_subterm = 0, wm_last_log_index = 0,
     wm_replication_set_incoming = [], wm_replication_set_outgoing = [], wm_vote_ids = [],
     wm_vote_vals = [], wm_context = [], wm_entries = [], wm_commit = 0, wm_commit_term = 0,
     wm_commit_subterm = 0\<rparr>"

abbreviation snap_index :: "Snapshot \<Rightarrow> nat" where
  "snap_index s \<equiv> sm_index (s_metadata s)"

abbreviation snap_term :: "Snapshot \<Rightarrow> nat" where
  "snap_term s \<equiv> sm_term (s_metadata s)"

subsection \<open>Configuration changes\<close>

definition new_conf_change_single :: "nat \<Rightarrow> ConfChangeType \<Rightarrow> ConfChangeSingle" where
  "new_conf_change_single n ty = \<lparr>change_type = ty, node_id = n\<rparr>"

definition cc_into_v2 :: "ConfChange \<Rightarrow> ConfChangeV2" where
  "cc_into_v2 cc = \<lparr>transition = Auto,
     changes = [new_conf_change_single (cc_node_id cc) (cc_change_type cc)],
     v2_context = cc_context cc\<rparr>"

definition v2_enter_joint :: "ConfChangeV2 \<Rightarrow> bool option" where
  "v2_enter_joint cc =
     (if transition cc \<noteq> Auto \<or> 1 < length (changes cc)
      then (case transition cc of
              Auto \<Rightarrow> Some True
            | Implicit \<Rightarrow> Some True
            | Explicit \<Rightarrow> Some False)
      else None)"

definition v2_leave_joint :: "ConfChangeV2 \<Rightarrow> bool" where
  "v2_leave_joint cc \<longleftrightarrow> transition cc = Auto \<and> changes cc = []"

definition eq_without_order :: "nat list \<Rightarrow> nat list \<Rightarrow> bool" where
  "eq_without_order lhs rhs \<longleftrightarrow>
     list_all (\<lambda>l. l \<in> set rhs) lhs \<and> list_all (\<lambda>r. r \<in> set lhs) rhs"

definition conf_state_eq :: "ConfState \<Rightarrow> ConfState \<Rightarrow> bool" where
  "conf_state_eq lhs rhs \<longleftrightarrow>
     (if cs_voters lhs = cs_voters rhs \<and> cs_learners lhs = cs_learners rhs \<and>
         cs_voters_outgoing lhs = cs_voters_outgoing rhs \<and>
         cs_learners_next lhs = cs_learners_next rhs \<and> cs_auto_leave lhs = cs_auto_leave rhs
      then True
      else eq_without_order (cs_voters lhs) (cs_voters rhs) \<and>
           eq_without_order (cs_learners lhs) (cs_learners rhs) \<and>
           eq_without_order (cs_voters_outgoing lhs) (cs_voters_outgoing rhs) \<and>
           eq_without_order (cs_learners_next lhs) (cs_learners_next rhs) \<and>
           cs_auto_leave lhs = cs_auto_leave rhs)"

text \<open>
  Printing and parsing.  A \<^verbatim>\<open>u64\<close> prints in decimal; \<open>parse::<u64>\<close> takes an optional \<^verbatim>\<open>+\<close> and
  at least one digit, and fails on another character or a value above \<open>u64_MAX\<close>.
\<close>

definition digit_char :: "nat \<Rightarrow> char" where
  "digit_char d = char_of (48 + d)"

function show_nat :: "nat \<Rightarrow> string" where
  "show_nat n = (if n < 10 then [digit_char n] else show_nat (n div 10) @ [digit_char (n mod 10)])"
  by pat_completeness auto
termination
  by (relation "measure id") auto

definition is_digit :: "char \<Rightarrow> bool" where
  "is_digit c \<longleftrightarrow> 48 \<le> (of_char c :: nat) \<and> (of_char c :: nat) \<le> 57"

fun parse_digits :: "nat \<Rightarrow> string \<Rightarrow> string + nat" where
  "parse_digits acc [] = Inr acc"
| "parse_digits acc (c # cs) =
     (if \<not> is_digit c then Inl ''invalid digit found in string''
      else let acc' = acc * 10 + (of_char c - 48)
           in if u64_MAX < acc' then Inl ''number too large to fit in target type''
              else parse_digits acc' cs)"

definition parse_u64 :: "string \<Rightarrow> string + nat" where
  "parse_u64 s =
     (if s = [] then Inl ''cannot parse integer from empty string''
      else if s = ''+'' \<or> s = ''-'' then Inl ''invalid digit found in string''
      else parse_digits 0 (if hd s = CHR ''+'' then tl s else s))"

definition is_ws :: "char \<Rightarrow> bool" where
  "is_ws c \<longleftrightarrow> (of_char c :: nat) \<in> {9, 10, 12, 13, 32}"

text \<open>\<open>split_ascii_whitespace\<close>: the maximal runs of other characters.\<close>

fun split_ws :: "string \<Rightarrow> string \<Rightarrow> string list" where
  "split_ws acc [] = (if acc = [] then [] else [acc])"
| "split_ws acc (c # cs) =
     (if is_ws c then (if acc = [] then split_ws [] cs else acc # split_ws [] cs)
      else split_ws (acc @ [c]) cs)"

text \<open>\<open>trim\<close>, on ASCII text: the white space here includes the vertical tab.\<close>

definition is_trim_ws :: "char \<Rightarrow> bool" where
  "is_trim_ws c \<longleftrightarrow> (of_char c :: nat) \<in> {9, 10, 11, 12, 13, 32}"

definition str_trim :: "string \<Rightarrow> string" where
  "str_trim s = rev (dropWhile is_trim_ws (rev (dropWhile is_trim_ws s)))"

definition parse_token :: "string \<Rightarrow> string + ConfChangeSingle" where
  "parse_token tok =
     (if length tok < 2 then Inl (''unknown token '' @ tok)
      else case (if hd tok = CHR ''v'' then Some AddNode
                 else if hd tok = CHR ''l'' then Some AddLearnerNode
                 else if hd tok = CHR ''r'' then Some RemoveNode
                 else if hd tok = CHR ''w'' then Some AddWitness
                 else None) of
             None \<Rightarrow> Inl (''unknown token '' @ tok)
           | Some ty \<Rightarrow> (case parse_u64 (tl tok) of
                 Inl e \<Rightarrow> Inl (''parse token '' @ tok @ '' fail: '' @ e)
               | Inr n \<Rightarrow> Inr \<lparr>change_type = ty, node_id = n\<rparr>))"

fun parse_tokens :: "string list \<Rightarrow> string + ConfChangeSingle list" where
  "parse_tokens [] = Inr []"
| "parse_tokens (t # ts) = (case parse_token t of
       Inl e \<Rightarrow> Inl e
     | Inr cc \<Rightarrow> (case parse_tokens ts of Inl e \<Rightarrow> Inl e | Inr ccs \<Rightarrow> Inr (cc # ccs)))"

definition parse_conf_change :: "string \<Rightarrow> string + ConfChangeSingle list" where
  "parse_conf_change s =
     (let s = str_trim s in if s = [] then Inr [] else parse_tokens (split_ws [] s))"

definition type_char :: "ConfChangeType \<Rightarrow> char" where
  "type_char ty = (case ty of AddNode \<Rightarrow> CHR ''v'' | AddLearnerNode \<Rightarrow> CHR ''l''
     | RemoveNode \<Rightarrow> CHR ''r'' | AddWitness \<Rightarrow> CHR ''w'')"

definition stringify_single :: "ConfChangeSingle \<Rightarrow> string" where
  "stringify_single cc = type_char (change_type cc) # show_nat (node_id cc)"

fun stringify_conf_change :: "ConfChangeSingle list \<Rightarrow> string" where
  "stringify_conf_change [] = []"
| "stringify_conf_change [cc] = stringify_single cc"
| "stringify_conf_change (cc # cc' # ccs) =
     stringify_single cc @ '' '' @ stringify_conf_change (cc' # ccs)"

subsection \<open>Entries and their size\<close>

text \<open>The counting \<open>take_while\<close> of \<open>limit_size\<close>, with its running \<open>size\<close>.\<close>

fun limit_count :: "('a \<Rightarrow> nat) \<Rightarrow> nat \<Rightarrow> nat \<Rightarrow> 'a list \<Rightarrow> nat" where
  "limit_count compute_size mx sz [] = 0"
| "limit_count compute_size mx sz (e # es) =
     (if sz = 0 then 1 + limit_count compute_size mx (sz + compute_size e) es
      else if sz + compute_size e \<le> mx
      then 1 + limit_count compute_size mx (sz + compute_size e) es
      else 0)"

definition limit_size :: "('a \<Rightarrow> nat) \<Rightarrow> 'a list \<Rightarrow> nat option \<Rightarrow> 'a list" where
  "limit_size compute_size entries mx =
     (if length entries \<le> 1 then entries
      else case mx of
        None \<Rightarrow> entries
      | Some m \<Rightarrow> if m = NO_LIMIT then entries
                   else take (limit_count compute_size m 0 entries) entries)"

definition is_continuous_ents :: "Message \<Rightarrow> Entry list \<Rightarrow> bool" where
  "is_continuous_ents msg ents =
     (if m_entries msg \<noteq> [] \<and> ents \<noteq> []
      then e_index (last (m_entries msg)) + 1 = e_index (hd ents)
      else True)"

definition entry_approximate_size :: "Entry \<Rightarrow> nat" where
  "entry_approximate_size e = length (e_data e) + length (e_context e) + 12"

subsection \<open>Printing and parsing are inverse\<close>

lemma digit_char_simps:
  assumes "d < 10"
  shows "is_digit (digit_char d)" "of_char (digit_char d) = 48 + d"
  using assms by (simp_all add: digit_char_def is_digit_def of_char_of)

declare show_nat.simps [simp del]

lemma show_nat_nonempty [simp]: "show_nat n \<noteq> []"
  by (subst show_nat.simps) simp

lemma show_nat_digits: "c \<in> set (show_nat n) \<Longrightarrow> is_digit c"
proof (induction n rule: show_nat.induct)
  case (1 n)
  then show ?case
    by (subst (asm) (2) show_nat.simps) (auto simp: digit_char_simps split: if_splits)
qed

lemma parse_digits_append:
  "parse_digits acc (xs @ ys) = (case parse_digits acc xs of Inl e \<Rightarrow> Inl e | Inr a \<Rightarrow> parse_digits a ys)"
  by (induction acc xs rule: parse_digits.induct) (auto simp: Let_def)

lemma parse_show_nat: "n \<le> u64_MAX \<Longrightarrow> parse_digits 0 (show_nat n) = Inr n"
proof (induction n rule: show_nat.induct)
  case (1 n)
  show ?case
  proof (cases "n < 10")
    case True
    then show ?thesis
      using "1.prems" by (subst show_nat.simps) (simp add: digit_char_simps Let_def not_less)
  next
    case False
    then have "parse_digits 0 (show_nat (n div 10)) = Inr (n div 10)" using "1" by simp
    moreover have "n div 10 * 10 + n mod 10 = n" by simp
    ultimately show ?thesis
      using False "1.prems"
      by (subst show_nat.simps) (simp add: parse_digits_append digit_char_simps Let_def not_less)
  qed
qed

lemma digit_not_special: "is_digit c \<Longrightarrow> \<not> is_ws c \<and> \<not> is_trim_ws c \<and> c \<noteq> CHR ''+'' \<and> c \<noteq> CHR ''-''"
  by (auto simp: is_digit_def is_ws_def is_trim_ws_def)

lemma parse_u64_show: "n \<le> u64_MAX \<Longrightarrow> parse_u64 (show_nat n) = Inr n"
proof -
  assume n: "n \<le> u64_MAX"
  have "\<forall>c \<in> set (show_nat n). c \<noteq> CHR ''+'' \<and> c \<noteq> CHR ''-''"
    using show_nat_digits digit_not_special by blast
  then have "show_nat n \<noteq> ''+''" "show_nat n \<noteq> ''-''" "hd (show_nat n) \<noteq> CHR ''+''"
    by (cases "show_nat n"; auto)+
  then show ?thesis using n by (simp add: parse_u64_def parse_show_nat)
qed

lemma parse_token_stringify:
  assumes "node_id cc \<le> u64_MAX"
  shows "parse_token (stringify_single cc) = Inr (cc\<lparr>change_type := change_type cc\<rparr>)"
  using assms parse_u64_show [OF assms]
  by (cases "change_type cc") (auto simp: parse_token_def stringify_single_def type_char_def Suc_le_eq)

lemma stringify_no_ws: "c \<in> set (stringify_single cc) \<Longrightarrow> \<not> is_ws c \<and> \<not> is_trim_ws c"
  using show_nat_digits digit_not_special
  by (cases "change_type cc")
    (auto simp: stringify_single_def type_char_def is_ws_def is_trim_ws_def)

lemma split_ws_token:
  "(\<And>c. c \<in> set xs \<Longrightarrow> \<not> is_ws c) \<Longrightarrow> split_ws acc (xs @ ys) = split_ws (acc @ xs) ys"
  by (induction xs arbitrary: acc) auto

lemma stringify_single_nonempty [simp]: "stringify_single cc \<noteq> []"
  by (simp add: stringify_single_def)

lemma split_ws_stringify: "split_ws [] (stringify_conf_change ccs) = map stringify_single ccs"
proof (induction ccs rule: stringify_conf_change.induct)
  case (2 cc)
  then show ?case using split_ws_token [of "stringify_single cc" "[]" "[]"] stringify_no_ws by simp
next
  case (3 cc cc' ccs)
  then show ?case
    using split_ws_token [of "stringify_single cc" "[]" "'' '' @ stringify_conf_change (cc' # ccs)"]
      stringify_no_ws by (simp add: is_ws_def)
qed simp

lemma stringify_ends:
  assumes "ccs \<noteq> []"
  shows "stringify_conf_change ccs \<noteq> [] \<and> \<not> is_trim_ws (hd (stringify_conf_change ccs)) \<and>
    \<not> is_trim_ws (last (stringify_conf_change ccs))"
  using assms
proof (induction ccs rule: stringify_conf_change.induct)
  case (2 cc)
  then show ?case using stringify_no_ws [of _ cc] by (simp add: hd_in_set last_in_set)
next
  case (3 cc cc' ccs)
  then show ?case using stringify_no_ws [of _ cc] by (simp add: hd_in_set)
qed simp

lemma str_trim_id: "s \<noteq> [] \<Longrightarrow> \<not> is_trim_ws (hd s) \<Longrightarrow> \<not> is_trim_ws (last s) \<Longrightarrow> str_trim s = s"
proof -
  assume a: "s \<noteq> []" "\<not> is_trim_ws (hd s)" "\<not> is_trim_ws (last s)"
  then have "dropWhile is_trim_ws s = s" by (cases s) auto
  moreover have "dropWhile is_trim_ws (rev s) = rev s"
    using a by (cases "rev s") (auto simp: hd_rev)
  ultimately show ?thesis by (simp add: str_trim_def)
qed

lemma parse_tokens_stringify:
  "\<forall>cc \<in> set ccs. node_id cc \<le> u64_MAX \<Longrightarrow> parse_tokens (map stringify_single ccs) = Inr ccs"
  by (induction ccs) (auto simp: parse_token_stringify)

subsection \<open>Limiting the size of entries\<close>

lemma limit_count_le: "limit_count f mx sz es \<le> length es"
  by (induction f mx sz es rule: limit_count.induct) auto

lemma limit_count_sum:
  assumes "0 < sz"
  shows "sz + sum_list (map f (take (limit_count f mx sz es) es)) \<le> max sz mx \<and>
    (limit_count f mx sz es < length es \<longrightarrow>
      mx < sz + sum_list (map f (take (Suc (limit_count f mx sz es)) es)))"
  using assms
proof (induction f mx sz es rule: limit_count.induct)
  case (2 f mx sz e es)
  show ?case
  proof (cases "sz + f e \<le> mx")
    case True
    then have "sz + f e + sum_list (map f (take (limit_count f mx (sz + f e) es) es)) \<le> max (sz + f e) mx \<and>
        (limit_count f mx (sz + f e) es < length es \<longrightarrow>
          mx < sz + f e + sum_list (map f (take (Suc (limit_count f mx (sz + f e) es)) es)))"
      using 2 by auto
    then show ?thesis using 2 True by auto
  qed (use 2 in auto)
qed simp

lemma limit_size_cases:
  "limit_size f es mx = es \<or>
   (\<exists>m. mx = Some m \<and> m \<noteq> NO_LIMIT \<and> limit_size f es mx = take (limit_count f m 0 es) es)"
  by (auto simp: limit_size_def split: option.splits)

lemma limit_count_0 [simp]: "es \<noteq> [] \<Longrightarrow> 0 < limit_count f m 0 es"
  by (cases es) auto

lemma limit_size_prefix: "\<exists>n. limit_size f es mx = take n es \<and> (es \<noteq> [] \<longrightarrow> 0 < n)"
proof -
  have "limit_size f es mx = take (Suc (length es)) es \<or> (\<exists>m. limit_size f es mx = take (limit_count f m 0 es) es)"
    using limit_size_cases [of f es mx] by auto
  then show ?thesis by (metis limit_count_0 zero_less_Suc)
qed

lemma limit_size_Nil [simp]: "limit_size f [] mx = []" "limit_size f es mx = [] \<longleftrightarrow> es = []"
  using limit_size_prefix [of f es mx] by (auto simp: limit_size_def)

text \<open>A list cut by the limit is cut in the same place whatever follows it.\<close>

lemma limit_count_append:
  "limit_count f m sz xs < length xs \<Longrightarrow> limit_count f m sz (xs @ ys) = limit_count f m sz xs"
  by (induction xs arbitrary: sz) (auto split: if_splits)

lemma limit_size_append:
  assumes "length (limit_size f xs mx) < length xs"
  shows "limit_size f (xs @ ys) mx = limit_size f xs mx"
proof -
  from assms obtain m where m: "mx = Some m" "m \<noteq> NO_LIMIT" "limit_count f m 0 xs < length xs" "1 < length xs"
    by (auto simp: limit_size_def split: if_splits option.splits)
  then show ?thesis using limit_count_append [OF m(3), of ys] by (simp add: limit_size_def)
qed

lemma limit_size_full: "\<not> length (limit_size f xs mx) < length xs \<Longrightarrow> limit_size f xs mx = xs"
  using limit_size_prefix [of f xs mx] by auto

subsection \<open>Properties\<close>

text \<open>C36: \<open>stringify_conf_change\<close> and \<open>parse_conf_change\<close> are inverse: parsing the printed form of
  a list of configuration changes gives the list back, for all ids that fit in 64 bits.\<close>

theorem conf_change_roundtrip:
  assumes "\<forall>cc \<in> set ccs. node_id cc \<le> u64_MAX"
  shows "parse_conf_change (stringify_conf_change ccs) = Inr ccs"
proof (cases "ccs = []")
  case True
  then show ?thesis by (simp add: parse_conf_change_def str_trim_def)
next
  case False
  then show ?thesis
    using assms stringify_ends [OF False]
    by (simp add: parse_conf_change_def str_trim_id split_ws_stringify parse_tokens_stringify)
qed

theorem conf_change_roundtrip_witness:
  "parse_conf_change (stringify_conf_change [\<lparr>change_type = AddWitness, node_id = 42\<rparr>,
     \<lparr>change_type = RemoveNode, node_id = 0\<rparr>]) =
   Inr [\<lparr>change_type = AddWitness, node_id = 42\<rparr>, \<lparr>change_type = RemoveNode, node_id = 0\<rparr>]"
  by (rule conf_change_roundtrip) (simp add: u64_MAX_def)

text \<open>\<open>limit_size\<close> keeps a prefix, never empties a non-empty list, and, when it cuts, the kept
  prefix is within the limit unless it is the first entry with a positive size, and one more entry
  would exceed it.\<close>

theorem limit_size_exact:
  fixes compute_size :: "Entry \<Rightarrow> nat"
  assumes "\<And>e. 0 < compute_size e" and "limit_size compute_size es mx \<noteq> es"
  shows "\<exists>m n. mx = Some m \<and> limit_size compute_size es mx = take n es \<and> 0 < n \<and> n < length es \<and>
    (n = 1 \<or> sum_list (map compute_size (take n es)) \<le> m) \<and>
    m < sum_list (map compute_size (take (Suc n) es))"
proof -
  obtain m where m: "mx = Some m" "limit_size compute_size es mx = take (limit_count compute_size m 0 es) es"
    using limit_size_cases [of compute_size es mx] assms(2) by auto
  let ?n = "limit_count compute_size m 0 es"
  have lt: "?n < length es" using m(2) assms(2) by (metis not_le take_all)
  obtain e es' where es: "es = e # es'" using lt by (cases es) auto
  let ?k = "limit_count compute_size m (compute_size e) es'"
  have n: "?n = Suc ?k" by (simp add: es)
  note k = limit_count_sum [OF assms(1) [of e], of compute_size m es']
  have "?n = 1 \<or> sum_list (map compute_size (take ?n es)) \<le> m"
  proof (cases ?k)
    case (Suc k')
    then have "compute_size e \<le> m" by (cases es') (auto split: if_splits)
    then show ?thesis using k n by (simp add: es)
  qed (simp add: n)
  moreover have "m < sum_list (map compute_size (take (Suc ?n) es))"
    using k lt n by (simp add: es)
  ultimately show ?thesis using m lt n by auto
qed

text \<open>C37: \<open>conf_state_eq\<close> is equality of the four id sets and of \<open>auto_leave\<close>; it does not look
  at the witnesses, so two configurations that differ in their witness count as equal.\<close>

theorem conf_state_eq_ignores_witness:
  "(conf_state_eq a b \<longleftrightarrow>
     set (cs_voters a) = set (cs_voters b) \<and> set (cs_learners a) = set (cs_learners b) \<and>
     set (cs_voters_outgoing a) = set (cs_voters_outgoing b) \<and>
     set (cs_learners_next a) = set (cs_learners_next b) \<and> cs_auto_leave a = cs_auto_leave b) \<and>
   conf_state_eq a (a\<lparr>cs_witness := w, cs_witness_outgoing := w'\<rparr>)"
  by (auto simp: conf_state_eq_def eq_without_order_def list_all_iff)

end
