(* ===== verification/Tracker.thy ===== *)
theory Tracker
  imports Quorum Progress_Tracking Proto
begin

text \<open>
  \<^verbatim>\<open>src/tracker.rs\<close>: the configuration, the replication sets of the extended protocol, and the
  progress of every peer.  The arrays with one slot per half of a joint configuration are pairs
  (incoming, outgoing).
\<close>

fun pick :: "'a \<times> 'a \<Rightarrow> nat \<Rightarrow> 'a" where
  "pick (a, b) i = (if i = 0 then a else b)"

record Configuration =
  voters :: JointConfig
  learners :: "nat list"
  learners_next :: "nat list"
  auto_leave :: bool
  witnesses :: "nat \<times> nat"

definition Configuration_new :: "nat list \<Rightarrow> nat list \<Rightarrow> Configuration" where
  "Configuration_new vs ls = \<lparr>voters = JointConfig_new (hs_extend [] vs), learners = hs_extend [] ls,
     learners_next = [], auto_leave = False, witnesses = (0, 0)\<rparr>"

definition Configuration_with_capacity :: Configuration where
  "Configuration_with_capacity = \<lparr>voters = JointConfig_new [], learners = [], learners_next = [],
     auto_leave = False, witnesses = (0, 0)\<rparr>"

definition to_conf_state :: "Configuration \<Rightarrow> ConfState" where
  "to_conf_state c = \<lparr>cs_voters = incoming (voters c), cs_learners = learners c,
     cs_voters_outgoing = outgoing (voters c), cs_learners_next = learners_next c,
     cs_auto_leave = auto_leave c, cs_witness = fst (witnesses c), cs_witness_outgoing = snd (witnesses c)\<rparr>"

definition conf_clear :: "Configuration \<Rightarrow> Configuration" where
  "conf_clear c = \<lparr>voters = joint_clear (voters c), learners = [], learners_next = [],
     auto_leave = False, witnesses = (0, 0)\<rparr>"

subsection \<open>Replication sets\<close>

record ReplicationSet =
  repl_witness :: nat
  excluded :: nat
  non_witness_voters :: "nat list"

definition ReplicationSet_default :: ReplicationSet where
  "ReplicationSet_default = \<lparr>repl_witness = 0, excluded = 0, non_witness_voters = []\<rparr>"

record Epoch =
  subterm :: nat
  replication_sets :: "ReplicationSet \<times> ReplicationSet"
  witness_subterm :: "nat \<times> nat"
  witness_pending_subterm :: "nat \<times> nat"

definition Epoch_default :: Epoch where
  "Epoch_default = \<lparr>subterm = 0, replication_sets = (ReplicationSet_default, ReplicationSet_default),
     witness_subterm = (0, 0), witness_pending_subterm = (0, 0)\<rparr>"

definition has_witness :: "Epoch \<Rightarrow> bool" where
  "has_witness e \<longleftrightarrow> repl_witness (fst (replication_sets e)) \<noteq> 0 \<or> repl_witness (snd (replication_sets e)) \<noteq> 0"

definition replicate_to_witness :: "Epoch \<Rightarrow> bool \<times> bool" where
  "replicate_to_witness e =
     (let r0 = fst (replication_sets e); r1 = snd (replication_sets e)
      in (repl_witness r0 \<noteq> 0 \<and> excluded r0 \<noteq> repl_witness r0,
          repl_witness r1 \<noteq> 0 \<and> excluded r1 \<noteq> repl_witness r1))"

subsection \<open>The tracker\<close>

type_synonym ProgressMap = "(nat, Progress) hmap"

definition acked_index :: "ProgressMap \<Rightarrow> AckedIndexer" where
  "acked_index prs voter_id =
     map_option (\<lambda>p. \<lparr>ix_index = matched p, ix_group_id = commit_group_id p\<rparr>) (map_of prs voter_id)"

record ProgressTracker =
  progress :: ProgressMap
  conf :: Configuration
  votes :: "(nat, bool) hmap"
  max_inflight :: nat
  group_commit :: bool
  epoch :: Epoch

definition ProgressTracker_new :: "nat \<Rightarrow> ProgressTracker" where
  "ProgressTracker_new mi = \<lparr>progress = [], conf = Configuration_with_capacity, votes = [],
     max_inflight = mi, group_commit = False, epoch = Epoch_default\<rparr>"

definition tracker_enable_group_commit :: "ProgressTracker \<Rightarrow> bool \<Rightarrow> ProgressTracker" where
  "tracker_enable_group_commit t b = t\<lparr>group_commit := b\<rparr>"

definition tracker_clear :: "ProgressTracker \<Rightarrow> ProgressTracker" where
  "tracker_clear t = t\<lparr>progress := [], conf := conf_clear (conf t), votes := []\<rparr>"

definition is_singleton :: "ProgressTracker \<Rightarrow> bool" where
  "is_singleton t = joint_is_singleton (voters (conf t))"

definition maximal_committed_index :: "ProgressTracker \<Rightarrow> nat \<times> bool" where
  "maximal_committed_index t =
     joint_committed_index (voters (conf t)) (group_commit t) (acked_index (progress t))"

definition reset_votes :: "ProgressTracker \<Rightarrow> ProgressTracker" where
  "reset_votes t = t\<lparr>votes := []\<rparr>"

definition record_vote :: "ProgressTracker \<Rightarrow> nat \<Rightarrow> bool \<Rightarrow> ProgressTracker" where
  "record_vote t i v = (if hm_contains (votes t) i then t else t\<lparr>votes := hm_insert i v (votes t)\<rparr>)"

definition vote_result :: "ProgressTracker \<Rightarrow> (nat, bool) hmap \<Rightarrow> VoteResult" where
  "vote_result t vs = joint_vote_result (voters (conf t)) (map_of vs)"

text \<open>The counting loop shared by both tallies.\<close>

definition count_votes :: "ProgressTracker \<Rightarrow> nat \<times> nat" where
  "count_votes t = fold (\<lambda>(i, v) (granted, rejected).
       if \<not> joint_contains (voters (conf t)) i then (granted, rejected)
       else if v then (granted + 1, rejected) else (granted, rejected + 1)) (votes t) (0, 0)"

definition tally_votes :: "ProgressTracker \<Rightarrow> nat \<times> nat \<times> VoteResult" where
  "tally_votes t = (let (granted, rejected) = count_votes t
     in (granted, rejected, vote_result t (votes t)))"

definition tally_votes_with_diff :: "ProgressTracker \<Rightarrow> nat \<times> nat \<times> VoteResult \<times> nat \<times> nat" where
  "tally_votes_with_diff t = (let (granted, rejected) = count_votes t;
       (result, diff) = joint_vote_result_with_diff (voters (conf t)) (map_of (votes t))
     in (granted, rejected, result, diff))"

definition has_quorum :: "ProgressTracker \<Rightarrow> nat list \<Rightarrow> bool" where
  "has_quorum t potential_quorum \<longleftrightarrow>
     joint_vote_result (voters (conf t)) (\<lambda>i. if i \<in> set potential_quorum then Some True else None) = Won"

text \<open>One iteration of the loop of \<open>quorum_recently_active\<close>: the new progress, and whether it is active.\<close>

definition activity :: "nat \<Rightarrow> nat \<Rightarrow> Progress \<Rightarrow> Progress \<times> bool" where
  "activity perspective_of i pr =
     (if i = perspective_of then (pr\<lparr>recent_active := True\<rparr>, True)
      else if is_witness pr then (pr\<lparr>recent_active := True\<rparr>, True)
      else if recent_active pr then (pr\<lparr>recent_active := False\<rparr>, True)
      else (pr, False))"

definition quorum_recently_active :: "ProgressTracker \<Rightarrow> nat \<Rightarrow> ProgressTracker \<times> bool" where
  "quorum_recently_active t perspective_of =
     (let active = map fst (filter (\<lambda>(i, pr). snd (activity perspective_of i pr)) (progress t));
          t = t\<lparr>progress := map (\<lambda>(i, pr). (i, fst (activity perspective_of i pr))) (progress t)\<rparr>
      in (t, has_quorum t active))"

datatype MapChangeType = Add | Remove

type_synonym MapChange = "(nat \<times> MapChangeType) list"

fun apply_map_change :: "nat \<Rightarrow> nat \<times> MapChangeType \<Rightarrow> ProgressTracker \<Rightarrow> ProgressTracker" where
  "apply_map_change nxt (i, Add) t =
     (let pr = Progress_new nxt (max_inflight t);
          pr = pr\<lparr>recent_active := True,
                 is_witness := (fst (witnesses (conf t)) = i \<or> snd (witnesses (conf t)) = i)\<rparr>
      in t\<lparr>progress := hm_insert i pr (progress t)\<rparr>)"
| "apply_map_change nxt (i, Remove) t = t\<lparr>progress := hm_remove i (progress t)\<rparr>"

definition apply_conf :: "ProgressTracker \<Rightarrow> Configuration \<Rightarrow> MapChange \<Rightarrow> nat \<Rightarrow> ProgressTracker" where
  "apply_conf t c chs nxt = fold (apply_map_change nxt) chs (t\<lparr>conf := c\<rparr>)"

subsection \<open>Adjusting the replication sets\<close>

definition initial_set :: "MajorityConfig \<Rightarrow> nat \<Rightarrow> ReplicationSet" where
  "initial_set vs w =
     (let members = filter (\<lambda>i. w \<noteq> i) vs;
          non_witness_count = length members;
          wit = (if w \<in> set vs then w else 0);
          wit = (if wit = 0 \<and> w \<noteq> 0 then w else wit)
      in if wit \<noteq> 0 \<and> 2 \<le> non_witness_count
         then \<lparr>repl_witness = wit, excluded = wit, non_witness_voters = members\<rparr>
         else if wit \<noteq> 0
         then \<lparr>repl_witness = wit, excluded = 0, non_witness_voters = hs_insert wit members\<rparr>
         else \<lparr>repl_witness = wit, excluded = 0, non_witness_voters = members\<rparr>)"

definition reset_replication_set :: "ProgressTracker \<Rightarrow> bool \<Rightarrow> ProgressTracker" where
  "reset_replication_set t reset_subterm = t\<lparr>epoch := Epoch_default\<lparr>
     subterm := (if reset_subterm then 0 else subterm (epoch t) + 1),
     replication_sets := (initial_set (incoming (voters (conf t))) (fst (witnesses (conf t))),
                          initial_set (outgoing (voters (conf t))) (snd (witnesses (conf t))))\<rparr>\<rparr>"

text \<open>The recovery of an excluded node: \<open>None\<close> when the loop body falls through.\<close>

definition recover_set :: "ProgressMap \<Rightarrow> nat \<Rightarrow> ReplicationSet \<Rightarrow> ReplicationSet option" where
  "recover_set prs leader_id st =
     (if excluded st = 0 then None
      else case map_of prs (excluded st) of
        None \<Rightarrow> None
      | Some excluded_pr \<Rightarrow>
          if recent_active excluded_pr \<and>
             (excluded st = repl_witness st \<or> pr_state excluded_pr = Replicate)
          then let inactive_id =
                     (case find (\<lambda>(i, pr). \<not> recent_active pr \<and> i \<noteq> leader_id \<and>
                              (i \<in> set (non_witness_voters st) \<or> i = repl_witness st)) prs of
                        Some (i, _) \<Rightarrow> i | None \<Rightarrow> 0)
               in if 0 < inactive_id \<or> excluded st \<noteq> repl_witness st
                  then Some \<lparr>repl_witness = repl_witness st,
                    excluded = (if 0 < inactive_id then inactive_id else repl_witness st),
                    non_witness_voters = hs_insert (excluded st)
                      (hs_remove (if 0 < inactive_id then inactive_id else repl_witness st)
                        (non_witness_voters st))\<rparr>
                  else None
          else None)"

text \<open>The exclusion of an unreachable voter in favour of the witness.\<close>

definition degrade_set :: "ProgressMap \<Rightarrow> nat \<Rightarrow> ReplicationSet \<Rightarrow> ReplicationSet option" where
  "degrade_set prs leader_id st =
     (if repl_witness st \<noteq> 0 \<and> repl_witness st \<notin> set (non_witness_voters st)
      then case find (\<lambda>i. case map_of prs i of
                        Some pr \<Rightarrow> \<not> recent_active pr \<and> i \<noteq> leader_id
                      | None \<Rightarrow> False) (non_witness_voters st) of
             Some i \<Rightarrow> Some \<lparr>repl_witness = repl_witness st, excluded = i,
               non_witness_voters = hs_insert (repl_witness st) (hs_remove i (non_witness_voters st))\<rparr>
           | None \<Rightarrow> None
      else None)"

definition adjust_set :: "ProgressMap \<Rightarrow> nat \<Rightarrow> ReplicationSet \<Rightarrow> ReplicationSet option" where
  "adjust_set prs leader_id st =
     (case recover_set prs leader_id st of
        Some st' \<Rightarrow> Some st'
      | None \<Rightarrow> degrade_set prs leader_id st)"

definition change_replication_set :: "ProgressTracker \<Rightarrow> nat \<Rightarrow> ProgressTracker \<times> bool" where
  "change_replication_set t leader_id =
     (let old_epoch = epoch t;
          s0 = adjust_set (progress t) leader_id (fst (replication_sets old_epoch));
          s1 = adjust_set (progress t) leader_id (snd (replication_sets old_epoch));
          new_epoch = Epoch_default\<lparr>subterm := subterm old_epoch + 1,
            replication_sets := (case s0 of Some s \<Rightarrow> s | None \<Rightarrow> ReplicationSet_default,
                                 case s1 of Some s \<Rightarrow> s | None \<Rightarrow> ReplicationSet_default)\<rparr>;
          changed = (s0 \<noteq> None \<or> s1 \<noteq> None)
      in if changed then (t\<lparr>epoch := new_epoch\<rparr>, True) else (t, False))"

definition scoped_acked_index :: "ProgressMap \<Rightarrow> nat list \<Rightarrow> AckedIndexer" where
  "scoped_acked_index prs scope voter_id =
     (if voter_id \<notin> set scope then None else acked_index prs voter_id)"

definition one_less_than_quorum_in_replication_set :: "ProgressTracker \<Rightarrow> (nat, nat) hmap" where
  "one_less_than_quorum_in_replication_set t =
     (let (w0, w1) = replicate_to_witness (epoch t);
          result = (if w0
                    then let st = fst (replication_sets (epoch t))
                         in hm_insert (repl_witness st)
                              (maj_one_less_than_quorum (incoming (voters (conf t)))
                                (scoped_acked_index (progress t) (non_witness_voters st))) []
                    else [])
      in if w1
         then let st = snd (replication_sets (epoch t))
              in hm_insert (repl_witness st)
                   (maj_one_less_than_quorum (outgoing (voters (conf t)))
                     (scoped_acked_index (progress t) (non_witness_voters st))) result
         else result)"

subsection \<open>Votes and activity\<close>

text \<open>The first recorded vote of a peer counts.\<close>

lemma record_vote_first:
  "map_of (votes (record_vote t i v)) j =
     (if j = i \<and> map_of (votes t) i = None then Some v else map_of (votes t) j)"
  by (auto simp: record_vote_def hm_contains_def)

lemma record_vote_frame [frame]:
  "progress (record_vote t i v) = progress t" "conf (record_vote t i v) = conf t"
  "epoch (record_vote t i v) = epoch t"
  by (simp_all add: record_vote_def)

lemma apply_map_change_frame:
  "conf (apply_map_change nxt ch t) = conf t" "votes (apply_map_change nxt ch t) = votes t"
  "epoch (apply_map_change nxt ch t) = epoch t" "max_inflight (apply_map_change nxt ch t) = max_inflight t"
  by (cases "(nxt, ch, t)" rule: apply_map_change.cases; simp add: Let_def)+

lemma fold_apply_map_change_frame:
  "conf (fold (apply_map_change nxt) chs t) = conf t" "votes (fold (apply_map_change nxt) chs t) = votes t"
  "epoch (fold (apply_map_change nxt) chs t) = epoch t"
  by (induction chs arbitrary: t) (simp_all add: apply_map_change_frame)

lemma apply_conf_frame [simp]:
  "conf (apply_conf t c chs nxt) = c" "votes (apply_conf t c chs nxt) = votes t"
  "epoch (apply_conf t c chs nxt) = epoch t"
  by (simp_all add: apply_conf_def fold_apply_map_change_frame)

lemma has_quorum_iff:
  "incoming (voters (conf t)) \<noteq> [] \<Longrightarrow> has_quorum t ids \<longleftrightarrow> joint_quorum (voters (conf t)) (set ids)"
  by (simp add: has_quorum_def joint_quorum_def)

subsection \<open>Swaps in a replication set\<close>

text \<open>What the sets satisfy: the excluded node is not a member, and of the witness and the members at most one is left out.\<close>

definition repl_ok :: "ReplicationSet \<Rightarrow> bool" where
  "repl_ok st \<longleftrightarrow> excluded st \<notin> set (non_witness_voters st) \<and> 0 \<notin> set (non_witness_voters st) \<and>
     (repl_witness st = 0 \<longrightarrow> excluded st = 0) \<and>
     (excluded st \<noteq> repl_witness st \<longrightarrow> repl_witness st \<in> set (non_witness_voters st))"

lemma initial_set_ok: "0 \<notin> set vs \<Longrightarrow> repl_ok (initial_set vs w)"
  by (auto simp: initial_set_def repl_ok_def Let_def)

text \<open>A member other than the leader that has not been heard of, and an excluded node that can come back.\<close>

definition silent :: "ProgressMap \<Rightarrow> nat \<Rightarrow> ReplicationSet \<Rightarrow> nat \<Rightarrow> bool" where
  "silent prs leader st i \<longleftrightarrow> i \<in> set (non_witness_voters st) \<and> i \<noteq> leader \<and>
     (case map_of prs i of Some pr \<Rightarrow> \<not> recent_active pr | None \<Rightarrow> False)"

definition may_return :: "ProgressMap \<Rightarrow> ReplicationSet \<Rightarrow> bool" where
  "may_return prs st \<longleftrightarrow> excluded st \<noteq> 0 \<and>
     (case map_of prs (excluded st) of
        Some pr \<Rightarrow> recent_active pr \<and> (excluded st = repl_witness st \<or> pr_state pr = Replicate)
      | None \<Rightarrow> False)"

definition swap_due :: "ProgressMap \<Rightarrow> nat \<Rightarrow> ReplicationSet \<Rightarrow> bool" where
  "swap_due prs leader st \<longleftrightarrow>
     may_return prs st \<and> (excluded st \<noteq> repl_witness st \<or> (\<exists>i. silent prs leader st i)) \<or>
     repl_witness st \<noteq> 0 \<and> repl_witness st \<notin> set (non_witness_voters st) \<and> (\<exists>i. silent prs leader st i)"

text \<open>The member \<open>x\<close> goes out and \<open>n\<close> comes in.\<close>

definition swapped :: "nat \<Rightarrow> nat \<Rightarrow> ReplicationSet \<Rightarrow> ReplicationSet \<Rightarrow> bool" where
  "swapped x n st st' \<longleftrightarrow> x \<in> set (non_witness_voters st) \<and> n \<notin> set (non_witness_voters st) \<and>
     repl_witness st' = repl_witness st \<and> excluded st' = x \<and>
     set (non_witness_voters st') = insert n (set (non_witness_voters st) - {x})"

lemma swapped_ok:
  assumes "swapped x n st st'" "repl_ok st" "n \<in> {excluded st, repl_witness st}" "n \<noteq> 0"
  shows "repl_ok st'"
proof -
  let ?M = "set (non_witness_voters st)"
  have st': "set (non_witness_voters st') = insert n (?M - {x})" "excluded st' = x" "repl_witness st' = repl_witness st"
      and x: "x \<in> ?M" "n \<notin> ?M"
    using assms(1) by (simp_all add: swapped_def)
  have "w = 0 \<longrightarrow> x = 0" "x \<noteq> w \<longrightarrow> w \<in> insert n (?M - {x})" "0 \<notin> insert n (?M - {x})"
    if "e \<notin> ?M" "0 \<notin> ?M" "w = 0 \<longrightarrow> e = 0" "e \<noteq> w \<longrightarrow> w \<in> ?M" "n \<in> {e, w}" for e w
    using that x assms(4) by (cases "e = w"; auto)+
  from this [of "excluded st" "repl_witness st"] show ?thesis using assms(2,3) x unfolding repl_ok_def st' by blast
qed

text \<open>The members the recovery looks for are the silent ones: a witness that may return has been heard of.\<close>

lemma find_silent:
  fixes prs :: ProgressMap and leader :: nat
  assumes "repl_ok st" "may_return prs st" "distinct (keys prs)"
  defines "P \<equiv> \<lambda>(i, pr). \<not> recent_active pr \<and> i \<noteq> leader \<and> (i \<in> set (non_witness_voters st) \<or> i = repl_witness st)"
  shows "case find P prs of Some (x, _) \<Rightarrow> silent prs leader st x | None \<Rightarrow> \<forall>i. \<not> silent prs leader st i"
proof -
  have P: "P (i, pr) \<longleftrightarrow> silent prs leader st i" if "map_of prs i = Some pr" for i pr
    using that assms(1,2) by (auto simp: P_def silent_def may_return_def repl_ok_def)
  show ?thesis
  proof (cases "find P prs")
    case None
    then have "\<not> silent prs leader st i" for i
      using P [of i] by (cases "map_of prs i") (auto simp: find_None_iff silent_def dest: map_of_SomeD)
    with None show ?thesis by simp
  next
    case (Some y)
    then obtain x pr where y: "y = (x, pr)" "P (x, pr)" "(x, pr) \<in> set prs" 
      by (metis find_Some_iff nth_mem prod.exhaust)
    then have "silent prs leader st x" using P map_of_is_SomeI [OF assms(3)] by simp
    with Some y show ?thesis by simp
  qed
qed

lemma recover_set_swap:
  assumes "repl_ok st" "distinct (keys prs)"
  shows "case recover_set prs leader st of
      None \<Rightarrow> \<not> (may_return prs st \<and> (excluded st \<noteq> repl_witness st \<or> (\<exists>i. silent prs leader st i)))
    | Some st' \<Rightarrow> may_return prs st \<and> (\<exists>x. swapped x (excluded st) st st' \<and>
        (silent prs leader st x \<or> x = repl_witness st \<and> (\<forall>i. \<not> silent prs leader st i)))"
proof (cases "may_return prs st")
  case False
  then have "recover_set prs leader st = None" by (auto simp: recover_set_def may_return_def split: option.split)
  with False show ?thesis by simp
next
  case True
  let ?P = "\<lambda>(i, pr). \<not> recent_active pr \<and> i \<noteq> leader \<and> (i \<in> set (non_witness_voters st) \<or> i = repl_witness st)"
  note found = find_silent [OF assms(1) True assms(2), of leader]
  from True obtain pr where pr: "excluded st \<noteq> 0" "map_of prs (excluded st) = Some pr" "recent_active pr"
      "excluded st = repl_witness st \<or> pr_state pr = Replicate"
    by (auto simp: may_return_def split: option.split_asm)
  show ?thesis
  proof (cases "find ?P prs")
    case None
    then show ?thesis using found pr True assms(1)
      by (auto simp: recover_set_def swapped_def repl_ok_def Let_def split: if_split_asm)
  next
    case (Some y)
    then obtain x q where y: "find ?P prs = Some (x, q)" "silent prs leader st x" using found by (cases y) auto
    moreover have "0 < x" using y(2) assms(1) by (cases x) (auto simp: silent_def repl_ok_def)
    ultimately show ?thesis using pr True assms(1)
      by (auto simp: recover_set_def swapped_def repl_ok_def silent_def Let_def)
  qed
qed

lemma degrade_set_swap:
  "case degrade_set prs leader st of
      None \<Rightarrow> \<not> (repl_witness st \<noteq> 0 \<and> repl_witness st \<notin> set (non_witness_voters st) \<and> (\<exists>i. silent prs leader st i))
    | Some st' \<Rightarrow> repl_witness st \<noteq> 0 \<and> (\<exists>x. swapped x (repl_witness st) st st' \<and> silent prs leader st x)"
proof -
  let ?P = "\<lambda>i. case map_of prs i of Some pr \<Rightarrow> \<not> recent_active pr \<and> i \<noteq> leader | None \<Rightarrow> False"
  have "silent prs leader st i \<longleftrightarrow> i \<in> set (non_witness_voters st) \<and> ?P i" for i
    by (auto simp: silent_def split: option.split)
  then show ?thesis
    by (auto simp: degrade_set_def swapped_def find_None_iff find_Some_iff split: option.split dest: nth_mem)
qed

lemma adjust_set_swap:
  assumes "repl_ok st" "distinct (keys prs)"
  shows "case adjust_set prs leader st of
      None \<Rightarrow> \<not> swap_due prs leader st
    | Some st' \<Rightarrow> swap_due prs leader st \<and> repl_ok st' \<and> (\<exists>x n. swapped x n st st' \<and>
        (n = excluded st \<and> may_return prs st \<and> (silent prs leader st x \<or> x = repl_witness st \<and> (\<forall>i. \<not> silent prs leader st i)) \<or>
         n = repl_witness st \<and> silent prs leader st x))"
proof (cases "recover_set prs leader st")
  case (Some st')
  then obtain x where x: "may_return prs st" "swapped x (excluded st) st st'"
      "silent prs leader st x \<or> x = repl_witness st \<and> (\<forall>i. \<not> silent prs leader st i)"
    using recover_set_swap [OF assms, of leader] by auto
  have "swap_due prs leader st" using x by (auto simp: swap_due_def swapped_def)
  moreover have "repl_ok st'" using swapped_ok [OF x(2) assms(1)] x(1) by (simp add: may_return_def)
  ultimately show ?thesis using Some x by (auto simp: adjust_set_def)
next
  case None
  note rec = recover_set_swap [OF assms, of leader]
  show ?thesis
  proof (cases "degrade_set prs leader st")
    case (Some st')
    then obtain x where x: "repl_witness st \<noteq> 0" "swapped x (repl_witness st) st st'" "silent prs leader st x"
      using degrade_set_swap [where prs = prs and leader = leader and st = st] by auto
    have "swap_due prs leader st" using x by (auto simp: swap_due_def swapped_def)
    moreover have "repl_ok st'" using swapped_ok [OF x(2) assms(1)] x(1) by simp
    ultimately show ?thesis using None Some x by (auto simp: adjust_set_def)
  qed (use None rec degrade_set_swap [where prs = prs and leader = leader and st = st] in \<open>auto simp: adjust_set_def swap_due_def\<close>)
qed

subsection \<open>Properties\<close>

text \<open>The leader's activity check.  It succeeds exactly when the ids that are active (the leader
  itself, every witness, and every peer heard from since the last check) contain a quorum of the
  joint configuration; afterwards only the leader and the witnesses are still marked active, so
  each check needs fresh contact.\<close>

theorem quorum_recently_active_exact:
  assumes "distinct (keys (progress t))" "incoming (voters (conf t)) \<noteq> []"
  shows "let (t', b) = quorum_recently_active t me
    in (b \<longleftrightarrow> joint_quorum (voters (conf t)) {i. \<exists>pr. map_of (progress t) i = Some pr \<and>
          (i = me \<or> is_witness pr \<or> recent_active pr)}) \<and>
       (\<forall>i. map_of (progress t') i =
          map_option (\<lambda>pr. pr\<lparr>recent_active := (i = me \<or> is_witness pr)\<rparr>) (map_of (progress t) i)) \<and>
       conf t' = conf t \<and> votes t' = votes t"
proof -
  let ?act = "map fst (filter (\<lambda>(i, pr). snd (activity me i pr)) (progress t))"
  let ?t = "t\<lparr>progress := map (\<lambda>(i, pr). (i, fst (activity me i pr))) (progress t)\<rparr>"
  have set: "set ?act = {i. \<exists>pr. map_of (progress t) i = Some pr \<and> (i = me \<or> is_witness pr \<or> recent_active pr)}"
    using assms(1) by (force simp: activity_def split: if_splits)
  have upd: "map_of (progress ?t) i =
      map_option (\<lambda>pr. pr\<lparr>recent_active := (i = me \<or> is_witness pr)\<rparr>) (map_of (progress t) i)" for i
  proof -
    have "map_of (map (\<lambda>(i, pr). (i, fst (activity me i pr))) ps) i =
        map_option (\<lambda>pr. pr\<lparr>recent_active := (i = me \<or> is_witness pr)\<rparr>) (map_of ps i)" for ps
      by (induction ps) (auto simp: activity_def)
    then show ?thesis by simp
  qed
  have "quorum_recently_active t me = (?t, has_quorum ?t ?act)"
    by (simp add: quorum_recently_active_def Let_def)
  moreover have "has_quorum ?t ?act \<longleftrightarrow> joint_quorum (voters (conf t)) (set ?act)"
    using has_quorum_iff [of ?t ?act] assms(2) by simp
  ultimately show ?thesis using set upd by simp
qed


text \<open>Voter 2 is silent and the witness 3 comes in for it; the other half loses its set.\<close>

definition ex_silent_tracker :: ProgressTracker where
  "ex_silent_tracker = (ProgressTracker_new 4)\<lparr>
     progress := [(1, (Progress_new 1 4)\<lparr>recent_active := True\<rparr>), (2, Progress_new 1 4)],
     epoch := Epoch_default\<lparr>replication_sets := (initial_set [1, 2, 3] 3, initial_set [1, 4, 5] 4)\<rparr>\<rparr>"


end
