(* ===== verification/Confchange.thy ===== *)
theory Confchange
  imports Tracker
begin

text \<open>
  \<^verbatim>\<open>src/confchange.rs\<close>, \<^verbatim>\<open>src/confchange/changer.rs\<close> and \<^verbatim>\<open>src/confchange/restore.rs\<close>: validated changes
  of the configuration.  A change works on a copy of the configuration and a log of progress
  changes; nothing is applied to the tracker before the result is checked.
\<close>

definition joint :: "Configuration \<Rightarrow> bool" where
  "joint cfg \<longleftrightarrow> outgoing (voters cfg) \<noteq> []"

record IncrChangeMap =
  ic_changes :: MapChange
  ic_base :: ProgressMap

definition ic_contains :: "IncrChangeMap \<Rightarrow> nat \<Rightarrow> bool" where
  "ic_contains prs i =
     (case find (\<lambda>(j, _). j = i) (rev (ic_changes prs)) of
        Some (_, Remove) \<Rightarrow> False
      | Some (_, Add) \<Rightarrow> True
      | None \<Rightarrow> hm_contains (ic_base prs) i)"

definition ic_push :: "nat \<times> MapChangeType \<Rightarrow> IncrChangeMap \<Rightarrow> IncrChangeMap" where
  "ic_push ch prs = prs\<lparr>ic_changes := ic_changes prs @ [ch]\<rparr>"

type_synonym change_state = "Configuration \<times> IncrChangeMap"

abbreviation upd_incoming :: "(nat list \<Rightarrow> nat list) \<Rightarrow> Configuration \<Rightarrow> Configuration" where
  "upd_incoming f cfg \<equiv> cfg\<lparr>voters := (voters cfg)\<lparr>incoming := f (incoming (voters cfg))\<rparr>\<rparr>"

definition init_progress :: "change_state \<Rightarrow> nat \<Rightarrow> bool \<Rightarrow> change_state" where
  "init_progress s i is_learner = (case s of (cfg, prs) \<Rightarrow>
     (if \<not> is_learner then upd_incoming (hs_insert i) cfg
      else cfg\<lparr>learners := hs_insert i (learners cfg)\<rparr>,
      ic_push (i, Add) prs))"

definition make_voter :: "change_state \<Rightarrow> nat \<Rightarrow> change_state" where
  "make_voter s i = (case s of (cfg, prs) \<Rightarrow>
     if \<not> ic_contains prs i then init_progress s i False
     else let cfg = upd_incoming (hs_insert i) cfg;
              cfg = cfg\<lparr>learners := hs_remove i (learners cfg)\<rparr>;
              cfg = cfg\<lparr>learners_next := hs_remove i (learners_next cfg)\<rparr>
          in (cfg, prs))"

definition make_learner :: "change_state \<Rightarrow> nat \<Rightarrow> change_state" where
  "make_learner s i = (case s of (cfg, prs) \<Rightarrow>
     if \<not> ic_contains prs i then init_progress s i True
     else if i \<in> set (learners cfg) then s
     else let cfg = upd_incoming (hs_remove i) cfg;
              cfg = cfg\<lparr>learners := hs_remove i (learners cfg)\<rparr>;
              cfg = cfg\<lparr>learners_next := hs_remove i (learners_next cfg)\<rparr>;
              cfg = (if i \<in> set (outgoing (voters cfg))
                     then cfg\<lparr>learners_next := hs_insert i (learners_next cfg)\<rparr>
                     else cfg\<lparr>learners := hs_insert i (learners cfg)\<rparr>)
          in (cfg, prs))"

definition make_witness :: "change_state \<Rightarrow> nat \<Rightarrow> change_state" where
  "make_witness s i = (case s of (cfg, prs) \<Rightarrow>
     let cfg = upd_incoming (hs_insert i) cfg;
         cfg = cfg\<lparr>learners := hs_remove i (learners cfg)\<rparr>;
         cfg = cfg\<lparr>learners_next := hs_remove i (learners_next cfg)\<rparr>;
         cfg = cfg\<lparr>witnesses := (i, snd (witnesses cfg))\<rparr>
     in if \<not> ic_contains prs i then init_progress (cfg, prs) i False else (cfg, prs))"

definition remove_peer :: "change_state \<Rightarrow> nat \<Rightarrow> change_state" where
  "remove_peer s i = (case s of (cfg, prs) \<Rightarrow>
     if \<not> ic_contains prs i then s
     else let cfg = upd_incoming (hs_remove i) cfg;
              cfg = cfg\<lparr>learners := hs_remove i (learners cfg)\<rparr>;
              cfg = cfg\<lparr>learners_next := hs_remove i (learners_next cfg)\<rparr>;
              cfg = (if fst (witnesses cfg) = i then cfg\<lparr>witnesses := (0, snd (witnesses cfg))\<rparr> else cfg)
          in (cfg, if i \<notin> set (outgoing (voters cfg)) then ic_push (i, Remove) prs else prs))"

definition apply_single :: "ConfChangeSingle \<Rightarrow> change_state \<Rightarrow> change_state" where
  "apply_single cc s =
     (if node_id cc = 0 then s
      else case change_type cc of
        AddNode \<Rightarrow> make_voter s (node_id cc)
      | AddLearnerNode \<Rightarrow> make_learner s (node_id cc)
      | RemoveNode \<Rightarrow> remove_peer s (node_id cc)
      | AddWitness \<Rightarrow> make_witness s (node_id cc))"

definition apply_changes :: "change_state \<Rightarrow> ConfChangeSingle list \<Rightarrow> Error + change_state" where
  "apply_changes s ccs =
     (let s = fold apply_single ccs s
      in if incoming (voters (fst s)) = [] then Inl (ConfChangeError ''removed all voters'') else Inr s)"

text \<open>A loop that returns at the first error.\<close>

fun first_error :: "('a \<Rightarrow> string option) \<Rightarrow> 'a list \<Rightarrow> string option" where
  "first_error f [] = None"
| "first_error f (x # xs) = (case f x of Some e \<Rightarrow> Some e | None \<Rightarrow> first_error f xs)"

definition or_else :: "string option \<Rightarrow> string option \<Rightarrow> string option" where
  "or_else a b = (case a of Some e \<Rightarrow> Some e | None \<Rightarrow> b)"

definition voter_error :: "IncrChangeMap \<Rightarrow> nat \<Rightarrow> string option" where
  "voter_error prs i = (if \<not> ic_contains prs i then Some (''no progress for voter '' @ show_nat i) else None)"

definition learner_error :: "Configuration \<Rightarrow> IncrChangeMap \<Rightarrow> nat \<Rightarrow> string option" where
  "learner_error cfg prs i =
     (if \<not> ic_contains prs i then Some (''no progress for learner '' @ show_nat i)
      else if i \<in> set (outgoing (voters cfg))
      then Some (show_nat i @ '' is in learners and outgoing voters'')
      else if i \<in> set (incoming (voters cfg))
      then Some (show_nat i @ '' is in learners and incoming voters'')
      else None)"

definition learner_next_error :: "Configuration \<Rightarrow> IncrChangeMap \<Rightarrow> nat \<Rightarrow> string option" where
  "learner_next_error cfg prs i =
     (if \<not> ic_contains prs i then Some (''no progress for learner(next) '' @ show_nat i)
      else if i \<notin> set (outgoing (voters cfg))
      then Some (show_nat i @ '' is in learners_next and outgoing voters'')
      else None)"

definition not_joint_error :: "Configuration \<Rightarrow> string option" where
  "not_joint_error cfg =
     (if \<not> joint cfg
      then if learners_next cfg \<noteq> [] then Some ''learners_next must be empty when not joint''
           else if auto_leave cfg then Some ''auto_leave must be false when not joint''
           else None
      else None)"

definition witness_error :: "nat \<Rightarrow> MajorityConfig \<Rightarrow> nat \<Rightarrow> string option" where
  "witness_error i vs w =
     (if 0 < w \<and> w \<notin> set vs
      then Some (show_nat w @ '' is in Witnesses['' @ show_nat i @ ''] but not in Voters['' @ show_nat i @ '']'')
      else None)"

definition check_invariants :: "Configuration \<Rightarrow> IncrChangeMap \<Rightarrow> Error + unit" where
  "check_invariants cfg prs =
     (case or_else (first_error (voter_error prs) (joint_ids (voters cfg)))
        (or_else (first_error (learner_error cfg prs) (learners cfg))
        (or_else (first_error (learner_next_error cfg prs) (learners_next cfg))
        (or_else (not_joint_error cfg)
        (or_else (witness_error 0 (incoming (voters cfg)) (fst (witnesses cfg)))
                 (witness_error 1 (outgoing (voters cfg)) (snd (witnesses cfg))))))) of
        Some e \<Rightarrow> Inl (ConfChangeError e)
      | None \<Rightarrow> Inr ())"

definition check_and_copy :: "ProgressTracker \<Rightarrow> Error + change_state" where
  "check_and_copy t =
     (let prs = \<lparr>ic_changes = [], ic_base = progress t\<rparr>
      in case check_invariants (conf t) prs of
           Inl e \<Rightarrow> Inl e
         | Inr _ \<Rightarrow> Inr (conf t, prs))"

text \<open>What the three changes return once their checks have passed.\<close>

definition checked :: "change_state \<Rightarrow> Error + Configuration \<times> MapChange" where
  "checked s = (case check_invariants (fst s) (snd s) of
     Inl e \<Rightarrow> Inl e
   | Inr _ \<Rightarrow> Inr (fst s, ic_changes (snd s)))"

definition enter_joint ::
  "ProgressTracker \<Rightarrow> bool \<Rightarrow> ConfChangeSingle list \<Rightarrow> Error + Configuration \<times> MapChange" where
  "enter_joint t auto ccs =
     (if joint (conf t) then Inl (ConfChangeError ''config is already joint'')
      else case check_and_copy t of
        Inl e \<Rightarrow> Inl e
      | Inr (cfg, prs) \<Rightarrow>
          if incoming (voters cfg) = []
          then Inl (ConfChangeError ''can't make a zero-voter config joint'')
          else
            let cfg = cfg\<lparr>voters := (voters cfg)\<lparr>
                    outgoing := hs_extend (outgoing (voters cfg)) (incoming (voters cfg))\<rparr>\<rparr>;
                cfg = cfg\<lparr>witnesses := (fst (witnesses cfg), fst (witnesses cfg))\<rparr>
            in case apply_changes (cfg, prs) ccs of
                 Inl e \<Rightarrow> Inl e
               | Inr (cfg, prs) \<Rightarrow> checked (cfg\<lparr>auto_leave := auto\<rparr>, prs))"

text \<open>
  In \<open>leave_joint\<close> the second test repeats the first and its message, which prints the whole
  configuration, cannot be reached; only its prefix is kept.
\<close>

definition leave_joint :: "ProgressTracker \<Rightarrow> Error + Configuration \<times> MapChange" where
  "leave_joint t =
     (if \<not> joint (conf t) then Inl (ConfChangeError ''can't leave a non-joint config'')
      else case check_and_copy t of
        Inl e \<Rightarrow> Inl e
      | Inr (cfg, prs) \<Rightarrow>
          if outgoing (voters cfg) = []
          then Inl (ConfChangeError ''configuration is not joint: '')
          else
            let cfg = cfg\<lparr>learners := hs_extend (learners cfg) (learners_next cfg), learners_next := []\<rparr>;
                prs = fold (\<lambda>i prs.
                        if i \<notin> set (incoming (voters cfg)) \<and> i \<notin> set (learners cfg) \<and>
                           fst (witnesses cfg) \<noteq> i
                        then ic_push (i, Remove) prs else prs) (outgoing (voters cfg)) prs;
                cfg = cfg\<lparr>voters := (voters cfg)\<lparr>outgoing := []\<rparr>\<rparr>;
                cfg = cfg\<lparr>witnesses := (fst (witnesses cfg), 0)\<rparr>;
                cfg = cfg\<lparr>auto_leave := False\<rparr>
            in checked (cfg, prs))"

definition symmetric_difference :: "nat list \<Rightarrow> nat list \<Rightarrow> nat list" where
  "symmetric_difference xs ys = filter (\<lambda>x. x \<notin> set ys) xs @ filter (\<lambda>y. y \<notin> set xs) ys"

definition simple :: "ProgressTracker \<Rightarrow> ConfChangeSingle list \<Rightarrow> Error + Configuration \<times> MapChange" where
  "simple t ccs =
     (if joint (conf t)
      then Inl (ConfChangeError ''can't apply simple config change in joint config'')
      else case check_and_copy t of
        Inl e \<Rightarrow> Inl e
      | Inr s \<Rightarrow> (case apply_changes s ccs of
            Inl e \<Rightarrow> Inl e
          | Inr s \<Rightarrow>
              if 1 < length (symmetric_difference (incoming (voters (fst s))) (incoming (voters (conf t))))
              then Inl (ConfChangeError ''more than one voter changed without entering joint config'')
              else checked s))"

subsection \<open>Restoring from a ConfState\<close>

definition to_conf_change_single :: "ConfState \<Rightarrow> ConfChangeSingle list \<times> ConfChangeSingle list" where
  "to_conf_change_single cs =
     (let out = map (\<lambda>i. new_conf_change_single i
                      (if i = cs_witness_outgoing cs then AddWitness else AddNode)) (cs_voters_outgoing cs);
          inc = map (\<lambda>i. new_conf_change_single i RemoveNode) (cs_voters_outgoing cs)
              @ map (\<lambda>i. new_conf_change_single i (if i = cs_witness cs then AddWitness else AddNode))
                  (cs_voters cs)
              @ map (\<lambda>i. new_conf_change_single i AddLearnerNode) (cs_learners cs)
              @ map (\<lambda>i. new_conf_change_single i AddLearnerNode) (cs_learners_next cs)
      in (out, inc))"

text \<open>The loops of \<open>restore\<close>: one simple change after the other.\<close>

fun apply_simples :: "nat \<Rightarrow> ConfChangeSingle list \<Rightarrow> ProgressTracker \<Rightarrow> Error + ProgressTracker" where
  "apply_simples nxt [] t = Inr t"
| "apply_simples nxt (cc # ccs) t = (case simple t [cc] of
     Inl e \<Rightarrow> Inl e
   | Inr (cfg, chs) \<Rightarrow> apply_simples nxt ccs (apply_conf t cfg chs nxt))"

definition confchange_restore :: "ProgressTracker \<Rightarrow> nat \<Rightarrow> ConfState \<Rightarrow> Error + ProgressTracker" where
  "confchange_restore t nxt cs =
     (case to_conf_change_single cs of (out, inc) \<Rightarrow>
        if out = [] then apply_simples nxt inc t
        else case apply_simples nxt out t of
          Inl e \<Rightarrow> Inl e
        | Inr t \<Rightarrow> (case enter_joint t (cs_auto_leave cs) inc of
              Inl e \<Rightarrow> Inl e
            | Inr (cfg, chs) \<Rightarrow> Inr (apply_conf t cfg chs nxt)))"

lemma hs_extend_eq_Nil [simp]: "hs_extend xs ys = [] \<longleftrightarrow> xs = [] \<and> ys = []"
  by (metis set_hs_extend set_empty Un_empty)

subsection \<open>What the checks mean\<close>

text \<open>The invariants of a configuration, over the set of tracked peers.\<close>

definition conf_ok :: "(nat \<Rightarrow> bool) \<Rightarrow> Configuration \<Rightarrow> bool" where
  "conf_ok tracked cfg \<longleftrightarrow>
     (let I = set (incoming (voters cfg)); Q = set (outgoing (voters cfg)) in
      (\<forall>i \<in> I \<union> Q \<union> set (learners cfg) \<union> set (learners_next cfg). tracked i) \<and>
      set (learners cfg) \<inter> (I \<union> Q) = {} \<and> set (learners_next cfg) \<subseteq> Q \<and>
      (\<not> joint cfg \<longrightarrow> learners_next cfg = [] \<and> \<not> auto_leave cfg) \<and>
      (fst (witnesses cfg) \<noteq> 0 \<longrightarrow> fst (witnesses cfg) \<in> I) \<and>
      (snd (witnesses cfg) \<noteq> 0 \<longrightarrow> snd (witnesses cfg) \<in> Q))"

definition conf_distinct :: "Configuration \<Rightarrow> bool" where
  "conf_distinct cfg \<longleftrightarrow> distinct (incoming (voters cfg)) \<and> distinct (outgoing (voters cfg)) \<and>
     distinct (learners cfg) \<and> distinct (learners_next cfg)"

lemma first_error_None: "first_error f xs = None \<longleftrightarrow> (\<forall>x \<in> set xs. f x = None)"
  by (induction xs) (auto split: option.splits)

lemma or_else_None: "or_else a b = None \<longleftrightarrow> a = None \<and> b = None"
  by (auto simp: or_else_def split: option.splits)

lemma error_None:
  "voter_error prs i = None \<longleftrightarrow> ic_contains prs i"
  "learner_error cfg prs i = None \<longleftrightarrow>
     ic_contains prs i \<and> i \<notin> set (outgoing (voters cfg)) \<and> i \<notin> set (incoming (voters cfg))"
  "learner_next_error cfg prs i = None \<longleftrightarrow> ic_contains prs i \<and> i \<in> set (outgoing (voters cfg))"
  "not_joint_error cfg = None \<longleftrightarrow> (\<not> joint cfg \<longrightarrow> learners_next cfg = [] \<and> \<not> auto_leave cfg)"
  "witness_error k vs w = None \<longleftrightarrow> (w \<noteq> 0 \<longrightarrow> w \<in> set vs)"
  by (auto simp: voter_error_def learner_error_def learner_next_error_def not_joint_error_def witness_error_def)

lemma check_invariants_iff: "check_invariants cfg prs = Inr () \<longleftrightarrow> conf_ok (ic_contains prs) cfg"
proof -
  have "check_invariants cfg prs = Inr () \<longleftrightarrow>
     (\<forall>i \<in> set (joint_ids (voters cfg)). ic_contains prs i) \<and>
     (\<forall>i \<in> set (learners cfg). ic_contains prs i \<and> i \<notin> set (outgoing (voters cfg)) \<and> i \<notin> set (incoming (voters cfg))) \<and>
     (\<forall>i \<in> set (learners_next cfg). ic_contains prs i \<and> i \<in> set (outgoing (voters cfg))) \<and>
     (\<not> joint cfg \<longrightarrow> learners_next cfg = [] \<and> \<not> auto_leave cfg) \<and>
     (fst (witnesses cfg) \<noteq> 0 \<longrightarrow> fst (witnesses cfg) \<in> set (incoming (voters cfg))) \<and>
     (snd (witnesses cfg) \<noteq> 0 \<longrightarrow> snd (witnesses cfg) \<in> set (outgoing (voters cfg)))"
    unfolding check_invariants_def option.case_eq_if
    by (simp add: or_else_None first_error_None error_None)
  moreover have "set (joint_ids (voters cfg)) = set (incoming (voters cfg)) \<union> set (outgoing (voters cfg))"
    by (auto simp: joint_ids_def union_iter_def)
  ultimately show ?thesis unfolding conf_ok_def Let_def by blast
qed

lemma check_invariants_cases: "check_invariants cfg prs = Inr () \<or> (\<exists>e. check_invariants cfg prs = Inl e)"
  by (auto simp: check_invariants_def split: option.splits)

lemma ic_contains_push [simp]:
  "ic_contains (ic_push (j, c) prs) i = (if i = j then c = Add else ic_contains prs i)"
  by (cases c) (auto simp: ic_contains_def ic_push_def split: option.splits)

lemma ic_contains_base [simp]: "ic_contains \<lparr>ic_changes = [], ic_base = b\<rparr> = hm_contains b"
  by (auto simp: ic_contains_def)

lemma ic_base_push [simp]: "ic_base (ic_push ch prs) = ic_base prs"
  by (simp add: ic_push_def)

lemma hm_contains_simps [simp]:
  "hm_contains (hm_insert j v m) i \<longleftrightarrow> i = j \<or> hm_contains m i"
  "hm_contains (hm_remove j m) i \<longleftrightarrow> i \<noteq> j \<and> hm_contains m i"
  by (auto simp: hm_contains_def)

text \<open>The progress map after applying the change log is the one the checks looked at.\<close>

lemma progress_apply_map_changes:
  "hm_contains (progress (fold (apply_map_change nxt) chs t)) i \<longleftrightarrow>
     ic_contains \<lparr>ic_changes = chs, ic_base = progress t\<rparr> i"
proof (induction chs rule: rev_induct)
  case Nil
  then show ?case by simp
next
  case (snoc ch chs)
  obtain j c where ch: "ch = (j, c)" by (cases ch)
  have "ic_contains \<lparr>ic_changes = chs @ [(j, c)], ic_base = progress t\<rparr> i =
      ic_contains (ic_push (j, c) \<lparr>ic_changes = chs, ic_base = progress t\<rparr>) i" by (simp add: ic_push_def)
  then show ?case using snoc ch by (cases c) (auto simp: Let_def)
qed

lemma progress_apply_conf [simp]:
  "hm_contains (progress (apply_conf t cfg chs nxt)) = ic_contains \<lparr>ic_changes = chs, ic_base = progress t\<rparr>"
  by (rule ext) (simp add: apply_conf_def progress_apply_map_changes)

lemma distinct_apply_map_changes:
  "distinct (keys (progress t)) \<Longrightarrow> distinct (keys (progress (fold (apply_map_change nxt) chs t)))"
proof (induction chs arbitrary: t)
  case (Cons ch chs)
  have "distinct (keys (progress (apply_map_change nxt ch t)))"
    using Cons.prems by (cases "(nxt, ch, t)" rule: apply_map_change.cases) (simp_all add: Let_def)
  then show ?case using Cons.IH by simp
qed simp

subsection \<open>One change\<close>

lemma apply_single_base [simp]: "ic_base (snd (apply_single cc s)) = ic_base (snd s)"
  by (cases s) (auto simp: apply_single_def make_voter_def make_learner_def make_witness_def remove_peer_def
      init_progress_def Let_def split: ConfChangeType.splits)

lemma apply_single_outgoing [simp]:
  "outgoing (voters (fst (apply_single cc s))) = outgoing (voters (fst s))"
  "snd (witnesses (fst (apply_single cc s))) = snd (witnesses (fst s))"
  "auto_leave (fst (apply_single cc s)) = auto_leave (fst s)"
  by (cases s; auto simp: apply_single_def make_voter_def make_learner_def make_witness_def remove_peer_def
      init_progress_def Let_def split: ConfChangeType.splits)+

lemma apply_single_distinct: "conf_distinct (fst s) \<Longrightarrow> conf_distinct (fst (apply_single cc s))"
  by (cases s) (auto simp: conf_distinct_def apply_single_def make_voter_def make_learner_def make_witness_def
      remove_peer_def init_progress_def Let_def split: ConfChangeType.splits)

lemma fold_apply_single_frame [simp]:
  "ic_base (snd (fold apply_single ccs s)) = ic_base (snd s)"
  "outgoing (voters (fst (fold apply_single ccs s))) = outgoing (voters (fst s))"
  "snd (witnesses (fst (fold apply_single ccs s))) = snd (witnesses (fst s))"
  "auto_leave (fst (fold apply_single ccs s)) = auto_leave (fst s)"
  by (induction ccs arbitrary: s) simp_all

lemma fold_apply_single_distinct: "conf_distinct (fst s) \<Longrightarrow> conf_distinct (fst (fold apply_single ccs s))"
  by (induction ccs arbitrary: s) (simp_all add: apply_single_distinct)

subsection \<open>The three changes\<close>

text \<open>The state \<open>enter_joint\<close> starts its changes from.\<close>

definition joint_start :: "ProgressTracker \<Rightarrow> change_state" where
  "joint_start t = ((conf t)\<lparr>voters := \<lparr>incoming = incoming (voters (conf t)),
      outgoing = hs_extend (outgoing (voters (conf t))) (incoming (voters (conf t)))\<rparr>,
    witnesses := (fst (witnesses (conf t)), fst (witnesses (conf t)))\<rparr>,
    \<lparr>ic_changes = [], ic_base = progress t\<rparr>)"

definition simple_start :: "ProgressTracker \<Rightarrow> change_state" where
  "simple_start t = (conf t, \<lparr>ic_changes = [], ic_base = progress t\<rparr>)"

lemma start_simps [simp]:
  "ic_base (snd (joint_start t)) = progress t" "ic_base (snd (simple_start t)) = progress t"
  "outgoing (voters (fst (joint_start t))) =
     hs_extend (outgoing (voters (conf t))) (incoming (voters (conf t)))"
  "snd (witnesses (fst (joint_start t))) = fst (witnesses (conf t))"
  "outgoing (voters (fst (simple_start t))) = outgoing (voters (conf t))"
  by (simp_all add: joint_start_def simple_start_def)

definition tracker_ok :: "ProgressTracker \<Rightarrow> bool" where
  "tracker_ok t \<longleftrightarrow> conf_ok (hm_contains (progress t)) (conf t)"

lemma check_and_copy_eq:
  "check_and_copy t = (if tracker_ok t then Inr (simple_start t)
     else Inl (projl (check_invariants (conf t) \<lparr>ic_changes = [], ic_base = progress t\<rparr>)))"
proof -
  have "check_invariants (conf t) \<lparr>ic_changes = [], ic_base = progress t\<rparr> = Inr () \<longleftrightarrow> tracker_ok t"
    by (simp only: check_invariants_iff tracker_ok_def ic_contains_base)
  then show ?thesis
    using check_invariants_cases [of "conf t" "\<lparr>ic_changes = [], ic_base = progress t\<rparr>"]
    by (cases "tracker_ok t") (auto simp: check_and_copy_def simple_start_def)
qed

lemma checked_Inr:
  "checked s = Inr r \<longleftrightarrow> conf_ok (ic_contains (snd s)) (fst s) \<and> r = (fst s, ic_changes (snd s))"
  using check_invariants_cases [of "fst s" "snd s"]
  by (auto simp: checked_def check_invariants_iff [symmetric])

lemma joint_start_eq:
  "((conf t)\<lparr>voters := (voters (conf t))\<lparr>
        outgoing := hs_extend (outgoing (voters (conf t))) (incoming (voters (conf t)))\<rparr>,
      witnesses := (fst (witnesses (conf t)), fst (witnesses (conf t)))\<rparr>,
      \<lparr>ic_changes = [], ic_base = progress t\<rparr>) = joint_start t"
  by (simp add: joint_start_def)

lemma enter_joint_Inr:
  "enter_joint t auto ccs = Inr r \<longleftrightarrow>
     \<not> joint (conf t) \<and> tracker_ok t \<and> incoming (voters (conf t)) \<noteq> [] \<and>
     (let (cfg, prs) = fold apply_single ccs (joint_start t) in
        incoming (voters cfg) \<noteq> [] \<and> conf_ok (ic_contains prs) (cfg\<lparr>auto_leave := auto\<rparr>) \<and>
        r = (cfg\<lparr>auto_leave := auto\<rparr>, ic_changes prs))"
proof -
  obtain cfg prs where f: "fold apply_single ccs (joint_start t) = (cfg, prs)" by fastforce
  show ?thesis
    by (auto simp: enter_joint_def check_and_copy_eq simple_start_def Let_def joint_start_eq apply_changes_def f
        checked_Inr split: if_splits)
qed

lemma simple_Inr:
  "simple t ccs = Inr r \<longleftrightarrow>
     \<not> joint (conf t) \<and> tracker_ok t \<and>
     (let (cfg, prs) = fold apply_single ccs (simple_start t) in
        incoming (voters cfg) \<noteq> [] \<and>
        length (symmetric_difference (incoming (voters cfg)) (incoming (voters (conf t)))) \<le> 1 \<and>
        conf_ok (ic_contains prs) cfg \<and> r = (cfg, ic_changes prs))"
proof -
  obtain cfg prs where f: "fold apply_single ccs (simple_start t) = (cfg, prs)" by fastforce
  show ?thesis
    by (auto simp: simple_def check_and_copy_eq Let_def apply_changes_def f checked_Inr split: if_splits)
qed

text \<open>The result of \<open>leave_joint\<close>.\<close>

definition leave_conf :: "Configuration \<Rightarrow> Configuration" where
  "leave_conf cfg = cfg\<lparr>learners := hs_extend (learners cfg) (learners_next cfg), learners_next := [],
     voters := (voters cfg)\<lparr>outgoing := []\<rparr>, witnesses := (fst (witnesses cfg), 0), auto_leave := False\<rparr>"

definition leave_removed :: "Configuration \<Rightarrow> nat \<Rightarrow> bool" where
  "leave_removed cfg i \<longleftrightarrow> i \<notin> set (incoming (voters cfg)) \<and>
     i \<notin> set (hs_extend (learners cfg) (learners_next cfg)) \<and> fst (witnesses cfg) \<noteq> i"

lemma fold_push_removes:
  "fold (\<lambda>i prs. if P i then ic_push (i, Remove) prs else prs) ids prs =
     prs\<lparr>ic_changes := ic_changes prs @ map (\<lambda>i. (i, Remove)) (filter P ids)\<rparr>"
  by (induction ids arbitrary: prs) (auto simp: ic_push_def)

lemma ic_contains_removes:
  "ic_contains \<lparr>ic_changes = map (\<lambda>i. (i, Remove)) ids, ic_base = b\<rparr> i \<longleftrightarrow> i \<notin> set ids \<and> hm_contains b i"
proof (induction ids rule: rev_induct)
  case (snoc j ids)
  have "\<lparr>ic_changes = map (\<lambda>i. (i, Remove)) (ids @ [j]), ic_base = b\<rparr> =
      ic_push (j, Remove) \<lparr>ic_changes = map (\<lambda>i. (i, Remove)) ids, ic_base = b\<rparr>" by (simp add: ic_push_def)
  then show ?case using snoc by auto
qed simp

lemma leave_joint_Inr:
  "leave_joint t = Inr r \<longleftrightarrow> joint (conf t) \<and> tracker_ok t \<and>
     (let rem = filter (leave_removed (conf t)) (outgoing (voters (conf t))) in
      conf_ok (\<lambda>i. i \<notin> set rem \<and> hm_contains (progress t) i) (leave_conf (conf t)) \<and>
      r = (leave_conf (conf t), map (\<lambda>i. (i, Remove)) rem))"
proof -
  have contains: "ic_contains \<lparr>ic_changes = map (\<lambda>i. (i, Remove)) ids, ic_base = b\<rparr> =
      (\<lambda>i. i \<notin> set ids \<and> hm_contains b i)" for ids b
    by (rule ext) (rule ic_contains_removes)
  have *: "leave_joint t =
     (if \<not> joint (conf t) then Inl (ConfChangeError ''can't leave a non-joint config'')
      else if tracker_ok t
      then checked (leave_conf (conf t), \<lparr>ic_changes = map (\<lambda>i. (i, Remove))
               (filter (leave_removed (conf t)) (outgoing (voters (conf t)))), ic_base = progress t\<rparr>)
      else Inl (projl (check_invariants (conf t) \<lparr>ic_changes = [], ic_base = progress t\<rparr>)))"
    by (auto simp: leave_joint_def check_and_copy_eq simple_start_def Let_def fold_push_removes joint_def
        leave_conf_def leave_removed_def [abs_def])
  show ?thesis unfolding * by (auto simp: checked_Inr contains Let_def)
qed

inductive conf_step :: "ProgressTracker \<Rightarrow> Configuration \<times> MapChange \<Rightarrow> bool" where
  conf_simple: "simple t ccs = Inr r \<Longrightarrow> conf_step t r"
| conf_enter: "enter_joint t auto ccs = Inr r \<Longrightarrow> conf_step t r"
| conf_leave: "leave_joint t = Inr r \<Longrightarrow> conf_step t r"

subsection \<open>Changes keep the configuration consistent\<close>

text \<open>
  What every single change keeps, before the final check: everything named is tracked, learners are
  not voters, staged learners are outgoing voters and not incoming ones.
\<close>

definition conf_core :: "(nat \<Rightarrow> bool) \<Rightarrow> Configuration \<Rightarrow> bool" where
  "conf_core tracked cfg \<longleftrightarrow>
     (let I = set (incoming (voters cfg)); Q = set (outgoing (voters cfg));
          L = set (learners cfg); N = set (learners_next cfg) in
      (\<forall>i \<in> I \<union> Q \<union> L \<union> N. tracked i) \<and> L \<inter> (I \<union> Q) = {} \<and> N \<subseteq> Q \<and> N \<inter> I = {})"

definition tracker_inv :: "ProgressTracker \<Rightarrow> bool" where
  "tracker_inv t \<longleftrightarrow> tracker_ok t \<and> conf_distinct (conf t) \<and> distinct (keys (progress t)) \<and>
     set (learners_next (conf t)) \<inter> set (incoming (voters (conf t))) = {}"

lemma make_voter_core:
  "conf_core (ic_contains (snd s)) (fst s) \<Longrightarrow>
    conf_core (ic_contains (snd (make_voter s i))) (fst (make_voter s i))"
  by (cases s) (auto simp: conf_core_def make_voter_def init_progress_def Let_def)

lemma make_learner_core:
  "conf_core (ic_contains (snd s)) (fst s) \<Longrightarrow>
    conf_core (ic_contains (snd (make_learner s i))) (fst (make_learner s i))"
  by (cases s) (auto simp: conf_core_def make_learner_def init_progress_def Let_def)

lemma make_witness_core:
  "conf_core (ic_contains (snd s)) (fst s) \<Longrightarrow>
    conf_core (ic_contains (snd (make_witness s i))) (fst (make_witness s i))"
  by (cases s) (auto simp: conf_core_def make_witness_def init_progress_def Let_def)

lemma remove_peer_core:
  "conf_core (ic_contains (snd s)) (fst s) \<Longrightarrow>
    conf_core (ic_contains (snd (remove_peer s i))) (fst (remove_peer s i))"
  by (cases s) (auto simp: conf_core_def remove_peer_def Let_def)

lemma apply_single_core:
  "conf_core (ic_contains (snd s)) (fst s) \<Longrightarrow>
    conf_core (ic_contains (snd (apply_single cc s))) (fst (apply_single cc s))"
  by (auto simp: apply_single_def make_voter_core make_learner_core make_witness_core remove_peer_core
      split: ConfChangeType.splits)

lemma fold_apply_single_core:
  "conf_core (ic_contains (snd s)) (fst s) \<Longrightarrow>
    conf_core (ic_contains (snd (fold apply_single ccs s))) (fst (fold apply_single ccs s))"
  by (induction ccs arbitrary: s) (simp_all add: apply_single_core)

lemma start_core:
  assumes "tracker_inv t" "\<not> joint (conf t)"
  shows "conf_core (ic_contains (snd (joint_start t))) (fst (joint_start t))"
    and "conf_core (ic_contains (snd (simple_start t))) (fst (simple_start t))"
  using assms
  by (auto simp: conf_core_def joint_start_def simple_start_def tracker_inv_def tracker_ok_def conf_ok_def
      joint_def Let_def)

lemma start_distinct:
  assumes "tracker_inv t"
  shows "conf_distinct (fst (joint_start t))" "conf_distinct (fst (simple_start t))"
  using assms by (auto simp: conf_distinct_def joint_start_def simple_start_def tracker_inv_def)

text \<open>The witness stays a voter unless it is demoted to a learner.\<close>

definition witness_in :: "Configuration \<Rightarrow> bool" where
  "witness_in cfg \<longleftrightarrow> (fst (witnesses cfg) \<noteq> 0 \<longrightarrow> fst (witnesses cfg) \<in> set (incoming (voters cfg)))"

definition witness_ids :: "Configuration \<Rightarrow> ConfChangeSingle list \<Rightarrow> nat set" where
  "witness_ids cfg ccs = insert (fst (witnesses cfg)) {node_id cc |cc. cc \<in> set ccs \<and> change_type cc = AddWitness}"

lemma apply_single_witness:
  assumes "witness_in (fst s)" "fst (witnesses (fst s)) \<in> insert 0 W"
    and "change_type cc = AddLearnerNode \<Longrightarrow> node_id cc \<notin> W"
    and "change_type cc = AddWitness \<Longrightarrow> node_id cc \<in> W"
  shows "witness_in (fst (apply_single cc s)) \<and> fst (witnesses (fst (apply_single cc s))) \<in> insert 0 W"
  using assms
  by (cases s; cases "change_type cc")
     (auto simp: witness_in_def apply_single_def make_voter_def make_learner_def make_witness_def remove_peer_def
       init_progress_def Let_def)

lemma fold_apply_single_witness:
  assumes "witness_in (fst s)" "fst (witnesses (fst s)) \<in> insert 0 W"
    and "\<forall>cc \<in> set ccs. (change_type cc = AddLearnerNode \<longrightarrow> node_id cc \<notin> W) \<and>
      (change_type cc = AddWitness \<longrightarrow> node_id cc \<in> W)"
  shows "witness_in (fst (fold apply_single ccs s))"
  using assms
proof (induction ccs arbitrary: s)
  case (Cons cc ccs)
  have "witness_in (fst (apply_single cc s)) \<and> fst (witnesses (fst (apply_single cc s))) \<in> insert 0 W"
    by (rule apply_single_witness) (use Cons.prems in auto)
  then show ?case using Cons by simp
qed simp

lemma core_conf_ok:
  assumes "conf_core tracked cfg" "witness_in cfg"
    and "snd (witnesses cfg) \<noteq> 0 \<longrightarrow> snd (witnesses cfg) \<in> set (outgoing (voters cfg))"
    and "\<not> joint cfg \<longrightarrow> \<not> auto_leave cfg"
  shows "conf_ok tracked cfg"
  using assms by (auto simp: conf_core_def conf_ok_def witness_in_def joint_def Let_def)

lemma conf_core_auto [simp]: "conf_core tr (cfg\<lparr>auto_leave := b\<rparr>) = conf_core tr cfg"
  by (simp add: conf_core_def)

subsection \<open>Quorums before and after\<close>

lemma count_yes_card:
  "distinct vs \<Longrightarrow> count_yes (\<lambda>x. if x \<in> P then Some True else None) vs = card (P \<inter> set vs)"
proof -
  assume d: "distinct vs"
  have "P \<inter> set vs = {x \<in> set vs. x \<in> P}" by auto
  then show ?thesis using card_filter_distinct [OF d, of "\<lambda>x. x \<in> P"]
    by (simp add: count_yes_def)
qed

text \<open>Majorities of two sets that differ in at most one element meet.\<close>

lemma near_majorities_meet:
  assumes "distinct xs" "distinct ys" "length (symmetric_difference xs ys) \<le> 1"
    and "majority (length xs) \<le> card (P \<inter> set xs)" "majority (length ys) \<le> card (Q \<inter> set ys)"
  shows "P \<inter> Q \<noteq> {}"
proof
  assume disj: "P \<inter> Q = {}"
  let ?d = "card (set xs - set ys)" and ?e = "card (set ys - set xs)"
  have sym: "?d + ?e \<le> 1"
  proof -
    have "?d = length (filter (\<lambda>x. x \<notin> set ys) xs)" "?e = length (filter (\<lambda>y. y \<notin> set xs) ys)"
      using card_filter_distinct [OF assms(1), of "\<lambda>x. x \<notin> set ys"]
        card_filter_distinct [OF assms(2), of "\<lambda>y. y \<notin> set xs"] by (simp_all add: set_diff_eq)
    then show ?thesis using assms(3) by (simp add: symmetric_difference_def)
  qed
  have "card ((P \<inter> set xs) \<union> (Q \<inter> set ys)) = card (P \<inter> set xs) + card (Q \<inter> set ys)"
    by (rule card_Un_disjoint) (use disj in auto)
  moreover have "card ((P \<inter> set xs) \<union> (Q \<inter> set ys)) \<le> card (set xs \<union> set ys)"
    by (rule card_mono) auto
  moreover have "card (set xs \<union> set ys) = length xs + ?e" "card (set xs \<union> set ys) = length ys + ?d"
    using card_Un_disjoint [of "set xs" "set ys - set xs"] card_Un_disjoint [of "set ys" "set xs - set ys"]
      distinct_card [OF assms(1)] distinct_card [OF assms(2)] by (simp_all add: Un_commute)
  ultimately show False using assms(4,5) sym unfolding majority_def by linarith
qed

lemma joint_quorum_incoming:
  "joint_quorum c P \<Longrightarrow> distinct (incoming c) \<Longrightarrow> majority (length (incoming c)) \<le> card (P \<inter> set (incoming c))"
  by (auto simp: joint_quorum_def joint_won_iff maj_won_iff count_yes_card)

lemma joint_quorum_outgoing:
  "joint_quorum c P \<Longrightarrow> distinct (outgoing c) \<Longrightarrow> outgoing c \<noteq> [] \<Longrightarrow>
    majority (length (outgoing c)) \<le> card (P \<inter> set (outgoing c))"
  by (simp add: joint_quorum_def joint_won_iff maj_won_iff count_yes_card)

lemma enter_joint_result:
  assumes "enter_joint t auto ccs = Inr (cfg, chs)" "tracker_inv t"
  shows "conf_distinct cfg \<and> set (outgoing (voters cfg)) = set (incoming (voters (conf t))) \<and>
    conf_ok (ic_contains \<lparr>ic_changes = chs, ic_base = progress t\<rparr>) cfg \<and>
    conf_core (ic_contains \<lparr>ic_changes = chs, ic_base = progress t\<rparr>) cfg"
proof -
  obtain cfg' prs where f: "fold apply_single ccs (joint_start t) = (cfg', prs)" by fastforce
  have r: "\<not> joint (conf t)" "conf_ok (ic_contains prs) (cfg'\<lparr>auto_leave := auto\<rparr>)"
      "cfg = cfg'\<lparr>auto_leave := auto\<rparr>" "chs = ic_changes prs"
    using assms(1) f by (auto simp: enter_joint_Inr)
  have "ic_base prs = progress t" using fold_apply_single_frame(1) [of ccs "joint_start t"] unfolding f by simp
  then have prs: "prs = \<lparr>ic_changes = chs, ic_base = progress t\<rparr>" using r(4) by simp
  have "outgoing (voters cfg') = outgoing (voters (fst (joint_start t)))"
    using fold_apply_single_frame(2) [of ccs "joint_start t"] unfolding f by simp
  then have "set (outgoing (voters cfg)) = set (incoming (voters (conf t)))"
    using r(1,3) by (simp add: joint_start_def joint_def)
  moreover have "conf_distinct cfg"
    using fold_apply_single_distinct [OF start_distinct(1) [OF assms(2)], of ccs] f r(3)
    by (simp add: conf_distinct_def)
  moreover have "conf_core (ic_contains prs) cfg"
    using fold_apply_single_core [OF start_core(1) [OF assms(2) r(1)], of ccs] f r(3) by simp
  ultimately show ?thesis using r(2,3) prs by simp
qed

lemma simple_result:
  assumes "simple t ccs = Inr (cfg, chs)" "tracker_inv t"
  shows "conf_distinct cfg \<and> outgoing (voters cfg) = [] \<and>
    length (symmetric_difference (incoming (voters cfg)) (incoming (voters (conf t)))) \<le> 1 \<and>
    conf_ok (ic_contains \<lparr>ic_changes = chs, ic_base = progress t\<rparr>) cfg \<and>
    conf_core (ic_contains \<lparr>ic_changes = chs, ic_base = progress t\<rparr>) cfg"
proof -
  obtain cfg' prs where f: "fold apply_single ccs (simple_start t) = (cfg', prs)" by fastforce
  have r: "\<not> joint (conf t)" "conf_ok (ic_contains prs) cfg" "cfg' = cfg" "chs = ic_changes prs"
      "length (symmetric_difference (incoming (voters cfg)) (incoming (voters (conf t)))) \<le> 1"
    using assms(1) f by (auto simp: simple_Inr)
  have "ic_base prs = progress t" using fold_apply_single_frame(1) [of ccs "simple_start t"] unfolding f by simp
  then have prs: "prs = \<lparr>ic_changes = chs, ic_base = progress t\<rparr>" using r(4) by simp
  have "outgoing (voters cfg) = []"
    using fold_apply_single_frame(2) [of ccs "simple_start t"] r(1,3) unfolding f by (simp add: joint_def)
  moreover have "conf_distinct cfg"
    using fold_apply_single_distinct [OF start_distinct(2) [OF assms(2)], of ccs] f r(3) by simp
  moreover have "conf_core (ic_contains prs) cfg"
    using fold_apply_single_core [OF start_core(2) [OF assms(2) r(1)], of ccs] f r(3) by simp
  ultimately show ?thesis using r(2,5) by (simp flip: prs)
qed

lemma leave_joint_result:
  assumes "leave_joint t = Inr (cfg, chs)" "tracker_inv t"
  shows "conf_distinct cfg \<and> incoming (voters cfg) = incoming (voters (conf t)) \<and> learners_next cfg = [] \<and>
    conf_ok (ic_contains \<lparr>ic_changes = chs, ic_base = progress t\<rparr>) cfg"
proof -
  let ?rem = "filter (leave_removed (conf t)) (outgoing (voters (conf t)))"
  have r: "conf_ok (\<lambda>i. i \<notin> set ?rem \<and> hm_contains (progress t) i) (leave_conf (conf t))"
      "cfg = leave_conf (conf t)" "chs = map (\<lambda>i. (i, Remove)) ?rem"
    using assms(1) unfolding leave_joint_Inr Let_def by blast+
  have "ic_contains \<lparr>ic_changes = chs, ic_base = progress t\<rparr> = (\<lambda>i. i \<notin> set ?rem \<and> hm_contains (progress t) i)"
    unfolding r(3) by (rule ext) (rule ic_contains_removes)
  then show ?thesis using r(1,2) assms(2)
    by (simp add: leave_conf_def conf_distinct_def tracker_inv_def)
qed

lemma apply_conf_distinct:
  "distinct (keys (progress t)) \<Longrightarrow> distinct (keys (progress (apply_conf t cfg chs nxt)))"
  using distinct_apply_map_changes [of "t\<lparr>conf := cfg\<rparr>"] by (simp add: apply_conf_def)

lemma conf_step_inv:
  assumes "conf_step t (cfg, chs)" "tracker_inv t"
  shows "tracker_inv (apply_conf t cfg chs nxt)"
proof -
  have "conf_distinct cfg \<and> conf_ok (ic_contains \<lparr>ic_changes = chs, ic_base = progress t\<rparr>) cfg \<and>
      set (learners_next cfg) \<inter> set (incoming (voters cfg)) = {}"
    using assms(1)
  proof cases
    case (conf_simple ccs)
    then show ?thesis using simple_result [OF _ assms(2)] by (auto simp: conf_core_def Let_def)
  next
    case (conf_enter auto ccs)
    then show ?thesis using enter_joint_result [OF _ assms(2)] by (auto simp: conf_core_def Let_def)
  next
    case conf_leave
    then show ?thesis using leave_joint_result [OF _ assms(2)] by auto
  qed
  then show ?thesis using assms(2) apply_conf_distinct [of t cfg chs nxt] by (simp add: tracker_inv_def tracker_ok_def)
qed

subsection \<open>Properties\<close>

text \<open>C14: configuration changes are safe.  Whenever one of the three changes is accepted (a simple
  change, entering a joint configuration, leaving it), every quorum of the configuration before and
  every quorum of the configuration after share a voter.  This is what keeps two leaders of one term
  apart across a change.\<close>

theorem conf_change_quorums_meet:
  assumes "conf_step t (cfg, chs)" "tracker_inv t"
    and "joint_quorum (voters (conf t)) P" "joint_quorum (voters cfg) Q"
  shows "P \<inter> Q \<noteq> {}"
  using assms(1)
proof cases
  case (conf_simple ccs)
  note r = simple_result [OF conf_simple assms(2)]
  have d: "distinct (incoming (voters cfg))" "distinct (incoming (voters (conf t)))"
    using r assms(2) by (auto simp: conf_distinct_def tracker_inv_def)
  have "Q \<inter> P \<noteq> {}"
    by (rule near_majorities_meet [OF d]) (use r joint_quorum_incoming assms(3,4) d in auto)
  then show ?thesis by blast
next
  case (conf_enter auto ccs)
  note r = enter_joint_result [OF conf_enter assms(2)]
  have ne: "outgoing (voters cfg) \<noteq> []" using r assms(3) by (auto simp: joint_quorum_def)
  have d: "distinct (outgoing (voters cfg))" "distinct (incoming (voters (conf t)))"
    using r assms(2) by (auto simp: conf_distinct_def tracker_inv_def)
  have "symmetric_difference (outgoing (voters cfg)) (incoming (voters (conf t))) = []"
    using r by (simp add: symmetric_difference_def)
  then have "Q \<inter> P \<noteq> {}"
    by (intro near_majorities_meet [OF d])
      (use joint_quorum_incoming [OF assms(3) d(2)] joint_quorum_outgoing [OF assms(4) d(1) ne] in simp_all)
  then show ?thesis by blast
next
  case conf_leave
  note r = leave_joint_result [OF conf_leave assms(2)]
  have d: "distinct (incoming (voters (conf t)))" using assms(2) by (simp add: conf_distinct_def tracker_inv_def)
  have "majority (length (incoming (voters (conf t)))) \<le> card (Q \<inter> set (incoming (voters (conf t))))"
    using joint_quorum_incoming [OF assms(4)] r d by simp
  then show ?thesis
    by (intro near_majorities_meet [OF d d _ joint_quorum_incoming [OF assms(3) d]])
      (simp_all add: symmetric_difference_def)
qed

definition ex_tracker :: ProgressTracker where
  "ex_tracker = (ProgressTracker_new 4)\<lparr>conf := Configuration_new [1, 2, 3] [],
     progress := [(1, Progress_new 1 4), (2, Progress_new 1 4), (3, Progress_new 1 4)]\<rparr>"

definition ex_changes :: "ConfChangeSingle list" where
  "ex_changes = [new_conf_change_single 3 RemoveNode, new_conf_change_single 4 AddNode]"

lemmas ex_tracker_defs = ex_tracker_def Configuration_new_def JointConfig_new_def hs_extend_def hs_insert_def
  ProgressTracker_new_def

lemma ex_tracker_inv: "tracker_inv ex_tracker" "\<not> joint (conf ex_tracker)"
    "incoming (voters (conf ex_tracker)) = [1, 2, 3]" "fst (witnesses (conf ex_tracker)) = 0"
  by (auto simp: ex_tracker_defs tracker_inv_def tracker_ok_def conf_ok_def conf_distinct_def joint_def
      hm_contains_def)

lemma ex_enter: "\<exists>cfg chs. enter_joint ex_tracker True ex_changes = Inr (cfg, chs) \<and>
    incoming (voters cfg) = [1, 2, 4] \<and> outgoing (voters cfg) = [1, 2, 3]"
proof -
  obtain cfg prs where f: "fold apply_single ex_changes (joint_start ex_tracker) = (cfg, prs)" by fastforce
  then have cfg: "incoming (voters cfg) = [1, 2, 4]" "outgoing (voters cfg) = [1, 2, 3]"
      "fst (witnesses cfg) = 0" "snd (witnesses cfg) = 0"
    by (auto simp: ex_changes_def new_conf_change_single_def joint_start_def apply_single_def remove_peer_def
        make_voter_def init_progress_def ex_tracker_defs ic_contains_def hm_contains_def hs_remove_def Let_def)
  have "conf_core (ic_contains prs) (cfg\<lparr>auto_leave := True\<rparr>)"
    using fold_apply_single_core [OF start_core(1) [OF ex_tracker_inv(1,2)], of ex_changes] f by simp
  then have "conf_ok (ic_contains prs) (cfg\<lparr>auto_leave := True\<rparr>)"
    by (rule core_conf_ok) (simp_all add: witness_in_def cfg joint_def)
  then have "enter_joint ex_tracker True ex_changes = Inr (cfg\<lparr>auto_leave := True\<rparr>, ic_changes prs)"
    using ex_tracker_inv f cfg by (simp add: enter_joint_Inr tracker_inv_def)
  then show ?thesis using cfg by simp
qed

theorem conf_change_quorums_meet_witness:
  "\<exists>cfg chs. conf_step ex_tracker (cfg, chs) \<and>
     joint_quorum (voters (conf ex_tracker)) {1, 2} \<and> joint_quorum (voters cfg) {1, 2} \<and> {1, 2::nat} \<inter> {1, 2} \<noteq> {}"
proof -
  obtain cfg chs where e: "enter_joint ex_tracker True ex_changes = Inr (cfg, chs)"
      "incoming (voters cfg) = [1, 2, 4]" "outgoing (voters cfg) = [1, 2, 3]" using ex_enter by blast
  have s: "conf_step ex_tracker (cfg, chs)" by (rule conf_enter [OF e(1)])
  have q: "joint_quorum (voters (conf ex_tracker)) {1, 2}" "joint_quorum (voters cfg) {1, 2}"
    by (simp_all add: joint_quorum_def e ex_tracker_defs joint_vote_result_def join_results_def
        maj_vote_result_def count_yes_def majority_def)
  show ?thesis using s q conf_change_quorums_meet [OF s ex_tracker_inv(1) q] by blast
qed

text \<open>C17: an accepted change keeps the tracker consistent.  After applying it, the sets have no
  duplicates, every voter and learner has a progress, learners are disjoint from the voters of both
  halves, staged learners are outgoing voters that are no longer incoming ones, each witness is a
  voter of its half, and a configuration that is not joint has neither staged learners nor an
  automatic leave pending.\<close>

theorem conf_change_invariant:
  assumes "conf_step t (cfg, chs)" "tracker_inv t"
  shows "tracker_inv (apply_conf t cfg chs nxt)"
  using assms by (rule conf_step_inv)

theorem conf_change_invariant_witness:
  "\<exists>cfg chs. enter_joint ex_tracker True ex_changes = Inr (cfg, chs) \<and> tracker_inv (apply_conf ex_tracker cfg chs 7)"
proof -
  obtain cfg chs where e: "enter_joint ex_tracker True ex_changes = Inr (cfg, chs)" using ex_enter by blast
  show ?thesis using e conf_change_invariant [OF conf_enter [OF e] ex_tracker_inv(1)] by blast
qed

text \<open>The validation rejects nothing else.  From a consistent tracker that is not joint and has
  voters, \<open>enter_joint\<close> fails only when the changes remove every voter, as long as no learner is made
  of a witness; and from a consistent joint tracker \<open>leave_joint\<close> always succeeds, keeps the incoming
  voters, drops the outgoing ones and promotes the staged learners.\<close>

theorem conf_change_total:
  assumes "tracker_inv t"
    and "\<forall>cc \<in> set ccs. change_type cc = AddLearnerNode \<longrightarrow> node_id cc \<notin> witness_ids (conf t) ccs"
  shows "if joint (conf t)
    then \<exists>cfg chs. leave_joint t = Inr (cfg, chs) \<and> incoming (voters cfg) = incoming (voters (conf t)) \<and>
      outgoing (voters cfg) = [] \<and> learners_next cfg = [] \<and>
      set (learners cfg) = set (learners (conf t)) \<union> set (learners_next (conf t))
    else incoming (voters (conf t)) \<noteq> [] \<longrightarrow>
      (\<exists>r. enter_joint t auto ccs = Inr r) \<or>
      enter_joint t auto ccs = Inl (ConfChangeError ''removed all voters'')"
proof (cases "joint (conf t)")
  case True
  let ?rem = "filter (leave_removed (conf t)) (outgoing (voters (conf t)))"
  have "conf_ok (\<lambda>i. i \<notin> set ?rem \<and> hm_contains (progress t) i) (leave_conf (conf t))"
    using assms(1) by (auto simp: conf_ok_def leave_conf_def leave_removed_def tracker_inv_def tracker_ok_def joint_def Let_def)
  then have "leave_joint t = Inr (leave_conf (conf t), map (\<lambda>i. (i, Remove)) ?rem)"
    using True assms(1) by (simp add: leave_joint_Inr tracker_inv_def Let_def)
  then show ?thesis using True by (simp add: leave_conf_def)
next
  case False
  obtain cfg prs where f: "fold apply_single ccs (joint_start t) = (cfg, prs)" by fastforce
  have ok: "tracker_ok t" using assms(1) by (simp add: tracker_inv_def)
  have core: "conf_core (ic_contains prs) (cfg\<lparr>auto_leave := auto\<rparr>)"
    using fold_apply_single_core [OF start_core(1) [OF assms(1) False], of ccs] f by simp
  have out: "outgoing (voters cfg) = outgoing (voters (fst (joint_start t)))"
      "snd (witnesses cfg) = fst (witnesses (conf t))"
    using fold_apply_single_frame(2,3) [of ccs "joint_start t"] unfolding f by simp_all
  have "witness_in (fst (fold apply_single ccs (joint_start t)))"
    by (rule fold_apply_single_witness [where W = "witness_ids (conf t) ccs"])
      (use ok assms(2) in \<open>auto simp: witness_in_def joint_start_def tracker_ok_def conf_ok_def Let_def witness_ids_def\<close>)
  then have wit: "witness_in cfg" using f by simp
  have "conf_ok (ic_contains prs) (cfg\<lparr>auto_leave := auto\<rparr>)" if "incoming (voters (conf t)) \<noteq> []"
    by (rule core_conf_ok [OF core])
      (use wit ok out that False in \<open>auto simp: witness_in_def joint_def joint_start_def tracker_ok_def conf_ok_def Let_def\<close>)
  then have "incoming (voters (conf t)) \<noteq> [] \<longrightarrow> incoming (voters cfg) \<noteq> [] \<longrightarrow>
      enter_joint t auto ccs = Inr (cfg\<lparr>auto_leave := auto\<rparr>, ic_changes prs)"
    using False ok f by (simp add: enter_joint_Inr)
  moreover have "incoming (voters cfg) = [] \<Longrightarrow> incoming (voters (conf t)) \<noteq> [] \<Longrightarrow>
      enter_joint t auto ccs = Inl (ConfChangeError ''removed all voters'')"
    using False ok f
    by (simp add: enter_joint_def check_and_copy_eq simple_start_def apply_changes_def joint_start_eq Let_def)
  ultimately show ?thesis using False by auto
qed

end
