(* ===== verification/Log_Unstable.thy ===== *)
theory Log_Unstable
  imports Proto
begin

text \<open>
  \<^verbatim>\<open>src/log_unstable.rs\<close>: the entries and the snapshot that are not yet in stable storage.
  \<open>u_entries ! i\<close> has log position \<open>u_offset + i\<close>.  Shrinking the capacity of the vector
  (\<open>maybe_shrink_entries\<close>, \<open>release_entry_buffer\<close>) changes no value and is left out.
\<close>

record Unstable =
  u_snapshot :: "Snapshot option"
  u_entries :: "Entry list"
  u_entries_size :: nat
  u_offset :: nat

definition Unstable_new :: "nat \<Rightarrow> Unstable" where
  "Unstable_new off = \<lparr>u_snapshot = None, u_entries = [], u_entries_size = 0, u_offset = off\<rparr>"

definition u_maybe_first_index :: "Unstable \<Rightarrow> nat option" where
  "u_maybe_first_index u = map_option (\<lambda>snap. snap_index snap + 1) (u_snapshot u)"

definition u_maybe_last_index :: "Unstable \<Rightarrow> nat option" where
  "u_maybe_last_index u =
     (if u_entries u = [] then map_option snap_index (u_snapshot u)
      else Some (u_offset u + length (u_entries u) - 1))"

definition u_maybe_term :: "Unstable \<Rightarrow> nat \<Rightarrow> nat option panics" where
  "u_maybe_term u idx =
     (if idx < u_offset u
      then Some (case u_snapshot u of
             None \<Rightarrow> None
           | Some snap \<Rightarrow> if idx = snap_index snap then Some (snap_term snap) else None)
      else case u_maybe_last_index u of
             None \<Rightarrow> Some None
           | Some lst \<Rightarrow>
               if lst < idx then Some None
               else do { e \<leftarrow> index (u_entries u) (idx - u_offset u); Some (Some (e_term e)) })"

definition u_stable_entries :: "Unstable \<Rightarrow> nat \<Rightarrow> nat \<Rightarrow> Unstable panics" where
  "u_stable_entries u idx trm = do {
     ensure (u_snapshot u = None);
     ensure (u_entries u \<noteq> []);
     let entry = last (u_entries u);
     ensure (e_index entry = idx \<and> e_term entry = trm);
     Some (u\<lparr>u_offset := e_index entry + 1, u_entries := [], u_entries_size := 0\<rparr>)
   }"

definition u_stable_snap :: "Unstable \<Rightarrow> nat \<Rightarrow> Unstable panics" where
  "u_stable_snap u idx = do {
     snap \<leftarrow> u_snapshot u;
     ensure (snap_index snap = idx);
     Some (u\<lparr>u_snapshot := None\<rparr>)
   }"

definition u_restore :: "Unstable \<Rightarrow> Snapshot \<Rightarrow> Unstable" where
  "u_restore u snap = u\<lparr>u_entries := [], u_entries_size := 0, u_offset := snap_index snap + 1,
     u_snapshot := Some snap\<rparr>"

definition u_must_check_outofbounds :: "Unstable \<Rightarrow> nat \<Rightarrow> nat \<Rightarrow> unit panics" where
  "u_must_check_outofbounds u lo hi = do {
     ensure (lo \<le> hi);
     let upper = u_offset u + length (u_entries u);
     ensure (\<not> (lo < u_offset u \<or> upper < hi))
   }"

definition sizes :: "Entry list \<Rightarrow> nat" where
  "sizes es = sum_list (map entry_approximate_size es)"

definition u_truncate_and_append :: "Unstable \<Rightarrow> Entry list \<Rightarrow> Unstable panics" where
  "u_truncate_and_append u ents = do {
     e0 \<leftarrow> index ents 0;
     let after = e_index e0;
     u \<leftarrow> (if after = u_offset u + length (u_entries u) then Some u
           else if after \<le> u_offset u
           then Some (u\<lparr>u_offset := after, u_entries := [], u_entries_size := 0\<rparr>)
           else do {
             u_must_check_outofbounds u (u_offset u) after;
             let k = after - u_offset u;
             sz \<leftarrow> sub (u_entries_size u) (sizes (drop k (u_entries u)));
             Some (u\<lparr>u_entries_size := sz, u_entries := take k (u_entries u)\<rparr>)
           });
     Some (u\<lparr>u_entries := u_entries u @ ents, u_entries_size := u_entries_size u + sizes ents\<rparr>)
   }"

definition u_slice :: "Unstable \<Rightarrow> nat \<Rightarrow> nat \<Rightarrow> Entry list panics" where
  "u_slice u lo hi = do {
     u_must_check_outofbounds u lo hi;
     slice (u_entries u) (lo - u_offset u) (hi - u_offset u)
   }"

subsection \<open>Well-formedness\<close>

definition u_inv :: "Unstable \<Rightarrow> bool" where
  "u_inv u \<longleftrightarrow> contiguous e_index (u_offset u) (u_entries u) \<and> u_entries_size u = sizes (u_entries u) \<and>
     (case u_snapshot u of None \<Rightarrow> True | Some snap \<Rightarrow> u_offset u = snap_index snap + 1)"

lemma sizes_append [simp]: "sizes (xs @ ys) = sizes xs + sizes ys"
  by (simp add: sizes_def)

lemma sizes_take_drop: "sizes (take k xs) + sizes (drop k xs) = sizes xs"
  by (metis append_take_drop_id sizes_append)

lemma u_inv_new [simp]: "u_inv (Unstable_new off)"
  by (simp add: u_inv_def Unstable_new_def sizes_def)

lemma u_inv_restore [simp]: "u_inv (u_restore u snap)"
  by (simp add: u_inv_def u_restore_def sizes_def)

text \<open>The entries after an append at \<open>after\<close>: what lies below it is kept, the rest is replaced.\<close>

lemma u_truncate_and_append_ok:
  assumes inv: "u_inv u" and ents: "ents \<noteq> []" "contiguous e_index after ents"
    and after: "after \<le> u_offset u + length (u_entries u)"
    and snap: "\<And>s. u_snapshot u = Some s \<Longrightarrow> snap_index s < after"
  shows "\<exists>u'. u_truncate_and_append u ents = Some u' \<and> u_inv u' \<and> u_snapshot u' = u_snapshot u \<and>
    u_offset u' = min after (u_offset u) \<and>
    u_entries u' = take (after - u_offset u) (u_entries u) @ ents"
proof -
  have e0: "index ents 0 = Some (hd ents)" "e_index (hd ents) = after"
    using ents contiguous_hd [of e_index after ents] by (simp_all add: hd_conv_nth)
  consider (direct) "after = u_offset u + length (u_entries u)"
    | (before) "after \<le> u_offset u" "after \<noteq> u_offset u + length (u_entries u)"
    | (inside) "u_offset u < after" "after < u_offset u + length (u_entries u)"
    using after by linarith
  then show ?thesis
  proof cases
    case direct
    then show ?thesis
      using inv ents e0 by (auto simp: u_truncate_and_append_def u_inv_def contiguous_append split: option.splits)
  next
    case before
    have "u_offset u = after" if "u_snapshot u = Some s" for s
      using inv snap [OF that] before that by (simp add: u_inv_def)
    then show ?thesis
      using inv ents e0 before
      by (auto simp: u_truncate_and_append_def u_inv_def sizes_def split: option.splits)
  next
    case inside
    let ?k = "after - u_offset u"
    have "sizes (drop ?k (u_entries u)) \<le> u_entries_size u"
      using inv sizes_take_drop [of ?k "u_entries u"] by (simp add: u_inv_def)
    moreover have "u_entries_size u - sizes (drop ?k (u_entries u)) = sizes (take ?k (u_entries u))"
      using inv sizes_take_drop [of ?k "u_entries u"] by (simp add: u_inv_def)
    moreover have "u_must_check_outofbounds u (u_offset u) after = Some ()"
      using inside by (simp add: u_must_check_outofbounds_def)
    ultimately have res: "u_truncate_and_append u ents =
        Some (u\<lparr>u_entries := take ?k (u_entries u) @ ents,
                u_entries_size := sizes (take ?k (u_entries u)) + sizes ents\<rparr>)"
      using e0 inside by (simp add: u_truncate_and_append_def Let_def)
    have "contiguous e_index (u_offset u) (take ?k (u_entries u) @ ents)"
      using inv ents(2) inside by (simp add: u_inv_def contiguous_append contiguous_take)
    then show ?thesis using inv inside by (auto simp: res u_inv_def split: option.splits)
  qed
qed

lemma u_slice_ok:
  assumes "u_offset u \<le> lo" "lo \<le> hi" "hi \<le> u_offset u + length (u_entries u)"
  shows "u_slice u lo hi = Some (take (hi - lo) (drop (lo - u_offset u) (u_entries u)))"
  using assms by (auto simp: u_slice_def u_must_check_outofbounds_def)

lemma u_maybe_term_ok:
  assumes "u_inv u"
  shows "u_maybe_term u idx =
    Some (if u_offset u \<le> idx \<and> idx < u_offset u + length (u_entries u)
          then Some (e_term (u_entries u ! (idx - u_offset u)))
          else case u_snapshot u of
            None \<Rightarrow> None
          | Some s \<Rightarrow> if idx = snap_index s then Some (snap_term s) else None)"
proof (cases "u_entries u = []")
  case True
  then show ?thesis
    using assms by (auto simp: u_maybe_term_def u_maybe_last_index_def u_inv_def split: option.splits)
next
  case False
  then have "u_offset u + length (u_entries u) - 1 < idx \<longleftrightarrow> \<not> idx < u_offset u + length (u_entries u)"
    by (cases "u_entries u") auto
  then show ?thesis
    using assms False by (auto simp: u_maybe_term_def u_maybe_last_index_def u_inv_def split: option.splits)
qed

subsection \<open>Properties\<close>

text \<open>Appending to the unstable log.  For a contiguous run of entries that neither leaves a gap
  nor reaches below the pending snapshot, \<open>truncate_and_append\<close> does not panic; the positions below
  the first new entry keep their entries, the positions from it on hold the new entries, and the
  byte count stays the exact sum of the entry sizes (its subtraction never underflows).\<close>

theorem unstable_truncate_and_append:
  assumes "u_inv u" "ents \<noteq> []" "contiguous e_index after ents"
    and "after \<le> u_offset u + length (u_entries u)"
    and "case u_snapshot u of None \<Rightarrow> True | Some s \<Rightarrow> snap_index s < after"
  shows "\<exists>u'. u_truncate_and_append u ents = Some u' \<and> u_inv u' \<and>
    u_offset u' = min after (u_offset u) \<and>
    u_entries u' = take (after - u_offset u) (u_entries u) @ ents \<and>
    u_entries_size u' = sizes (u_entries u')"
proof -
  have "\<And>s. u_snapshot u = Some s \<Longrightarrow> snap_index s < after" using assms(5) by simp
  from u_truncate_and_append_ok [OF assms(1-4) this] show ?thesis by (auto simp: u_inv_def)
qed

end
