(* ===== verification/Storage_Mem.thy ===== *)
theory Storage_Mem
  imports Proto
begin

text \<open>
  \<^verbatim>\<open>src/storage.rs\<close>: the \<^verbatim>\<open>Storage\<close> trait as a record of its methods, and \<^verbatim>\<open>MemStorage\<close>.
  Trait methods take \<open>&self\<close>; a method that may panic returns an \<open>option\<close>.  The two
  test hooks that \<^verbatim>\<open>MemStorage\<close> changes behind its lock (\<open>trigger_snap_unavailable\<close>,
  \<open>get_entries_context\<close>) are the first component of \<open>mem_entries\<close> and \<open>mem_snapshot\<close>; the trait
  record exposes the result.
\<close>

record RaftState =
  rs_hard_state :: HardState
  rs_conf_state :: ConfState

definition RaftState_default :: RaftState where
  "RaftState_default = \<lparr>rs_hard_state = HardState_default, rs_conf_state = ConfState_default\<rparr>"

definition rs_initialized :: "RaftState \<Rightarrow> bool" where
  "rs_initialized s \<longleftrightarrow> rs_conf_state s \<noteq> ConfState_default"

datatype GetEntriesFor =
    SendAppend nat nat bool
  | GenReady
  | TransferLeader
  | CommitByVote
  | Empty bool

definition can_async :: "GetEntriesFor \<Rightarrow> bool" where
  "can_async c = (case c of SendAppend _ _ _ \<Rightarrow> True | Empty b \<Rightarrow> b | _ \<Rightarrow> False)"

text \<open>The trait.  \<open>compute_size\<close> is the generated size of an entry, which the log also uses.\<close>

record 's Storage =
  st_initial_state :: "'s \<Rightarrow> Error + RaftState"
  st_entries :: "'s \<Rightarrow> nat \<Rightarrow> nat \<Rightarrow> nat option \<Rightarrow> GetEntriesFor \<Rightarrow> (Error + Entry list) panics"
  st_term :: "'s \<Rightarrow> nat \<Rightarrow> (Error + nat) panics"
  st_first_index :: "'s \<Rightarrow> Error + nat"
  st_last_index :: "'s \<Rightarrow> Error + nat"
  st_snapshot :: "'s \<Rightarrow> nat \<Rightarrow> nat \<Rightarrow> (Error + Snapshot) panics"
  compute_size :: "Entry \<Rightarrow> nat"

record MemStorageCore =
  raft_state :: RaftState
  ms_entries :: "Entry list"
  snapshot_metadata :: SnapshotMetadata
  trigger_snap_unavailable :: bool
  trigger_log_unavailable :: bool
  get_entries_context :: "GetEntriesFor option"

definition MemStorage_new :: MemStorageCore where
  "MemStorage_new = \<lparr>raft_state = RaftState_default, ms_entries = [],
     snapshot_metadata = SnapshotMetadata_default, trigger_snap_unavailable = False,
     trigger_log_unavailable = False, get_entries_context = None\<rparr>"

definition mem_set_hardstate :: "MemStorageCore \<Rightarrow> HardState \<Rightarrow> MemStorageCore" where
  "mem_set_hardstate c hs = c\<lparr>raft_state := (raft_state c)\<lparr>rs_hard_state := hs\<rparr>\<rparr>"

definition mem_set_conf_state :: "MemStorageCore \<Rightarrow> ConfState \<Rightarrow> MemStorageCore" where
  "mem_set_conf_state c cs = c\<lparr>raft_state := (raft_state c)\<lparr>rs_conf_state := cs\<rparr>\<rparr>"

definition mem_first_index :: "MemStorageCore \<Rightarrow> nat" where
  "mem_first_index c =
     (case ms_entries c of e # _ \<Rightarrow> e_index e | [] \<Rightarrow> sm_index (snapshot_metadata c) + 1)"

definition mem_last_index :: "MemStorageCore \<Rightarrow> nat" where
  "mem_last_index c =
     (if ms_entries c = [] then sm_index (snapshot_metadata c) else e_index (last (ms_entries c)))"

definition mem_has_entry_at :: "MemStorageCore \<Rightarrow> nat \<Rightarrow> bool" where
  "mem_has_entry_at c i \<longleftrightarrow> ms_entries c \<noteq> [] \<and> mem_first_index c \<le> i \<and> i \<le> mem_last_index c"

definition mem_commit_to :: "MemStorageCore \<Rightarrow> nat \<Rightarrow> MemStorageCore panics" where
  "mem_commit_to c i = do {
     ensure (mem_has_entry_at c i);
     e0 \<leftarrow> index (ms_entries c) 0;
     diff \<leftarrow> sub i (e_index e0);
     e \<leftarrow> index (ms_entries c) diff;
     Some (mem_set_hardstate c
       ((rs_hard_state (raft_state c))\<lparr>hs_commit := i, hs_term := e_term e\<rparr>))
   }"

definition mem_apply_snapshot :: "MemStorageCore \<Rightarrow> Snapshot \<Rightarrow> MemStorageCore \<times> (Error + unit)" where
  "mem_apply_snapshot c snap =
     (let meta = s_metadata snap; i = sm_index meta
      in if i < mem_first_index c then (c, Inl (Store SnapshotOutOfDate))
         else (c\<lparr>snapshot_metadata := meta, ms_entries := [],
                 raft_state :=
                   \<lparr>rs_hard_state = (rs_hard_state (raft_state c))
                      \<lparr>hs_term := max (hs_term (rs_hard_state (raft_state c))) (sm_term meta),
                       hs_commit := i\<rparr>,
                    rs_conf_state = sm_conf_state meta\<rparr>\<rparr>, Inr ()))"

definition mem_core_snapshot :: "MemStorageCore \<Rightarrow> Snapshot panics" where
  "mem_core_snapshot c = do {
     let i = hs_commit (rs_hard_state (raft_state c));
     t \<leftarrow> (if i = sm_index (snapshot_metadata c) then Some (sm_term (snapshot_metadata c))
           else if sm_index (snapshot_metadata c) < i then do {
             e0 \<leftarrow> index (ms_entries c) 0;
             k \<leftarrow> sub i (e_index e0);
             e \<leftarrow> index (ms_entries c) k;
             Some (e_term e)
           }
           else None);
     Some \<lparr>s_data = [],
       s_metadata = \<lparr>sm_conf_state = rs_conf_state (raft_state c), sm_index = i, sm_term = t\<rparr>\<rparr>
   }"

definition mem_compact :: "MemStorageCore \<Rightarrow> nat \<Rightarrow> MemStorageCore panics" where
  "mem_compact c compact_index =
     (if compact_index \<le> mem_first_index c then Some c
      else do {
        ensure (compact_index \<le> mem_last_index c + 1);
        case ms_entries c of
          [] \<Rightarrow> Some c
        | entry # _ \<Rightarrow> do {
            off \<leftarrow> sub compact_index (e_index entry);
            ensure (off \<le> length (ms_entries c));
            Some (c\<lparr>ms_entries := drop off (ms_entries c)\<rparr>)
          }
      })"

definition mem_append :: "MemStorageCore \<Rightarrow> Entry list \<Rightarrow> MemStorageCore panics" where
  "mem_append c ents =
     (case ents of
        [] \<Rightarrow> Some c
      | e0 # _ \<Rightarrow> do {
          ensure (\<not> e_index e0 < mem_first_index c);
          ensure (\<not> mem_last_index c + 1 < e_index e0);
          let diff = e_index e0 - mem_first_index c;
          ensure (diff \<le> length (ms_entries c));
          Some (c\<lparr>ms_entries := take diff (ms_entries c) @ ents\<rparr>)
        })"

definition mem_commit_to_and_set_conf_states ::
  "MemStorageCore \<Rightarrow> nat \<Rightarrow> ConfState option \<Rightarrow> MemStorageCore panics" where
  "mem_commit_to_and_set_conf_states c idx cs = do {
     c \<leftarrow> mem_commit_to c idx;
     Some (case cs of None \<Rightarrow> c | Some cs \<Rightarrow> mem_set_conf_state c cs)
   }"

definition mem_trigger_snap_unavailable :: "MemStorageCore \<Rightarrow> MemStorageCore" where
  "mem_trigger_snap_unavailable c = c\<lparr>trigger_snap_unavailable := True\<rparr>"

definition mem_trigger_log_unavailable :: "MemStorageCore \<Rightarrow> bool \<Rightarrow> MemStorageCore" where
  "mem_trigger_log_unavailable c v = c\<lparr>trigger_log_unavailable := v\<rparr>"

definition mem_initialize_with_conf_state :: "MemStorageCore \<Rightarrow> ConfState \<Rightarrow> MemStorageCore panics" where
  "mem_initialize_with_conf_state c cs = do {
     ensure (\<not> rs_initialized (raft_state c));
     Some (mem_set_conf_state c cs)
   }"

subsection \<open>The trait implementation\<close>

definition mem_entries ::
  "(Entry \<Rightarrow> nat) \<Rightarrow> MemStorageCore \<Rightarrow> nat \<Rightarrow> nat \<Rightarrow> nat option \<Rightarrow> GetEntriesFor \<Rightarrow>
    (MemStorageCore \<times> (Error + Entry list)) panics" where
  "mem_entries size_of c low high max_size context =
     (if low < mem_first_index c then Some (c, Inl (Store Compacted))
      else do {
        ensure (high \<le> mem_last_index c + 1);
        if trigger_log_unavailable c \<and> can_async context
        then Some (c\<lparr>get_entries_context := Some context\<rparr>, Inl (Store LogTemporarilyUnavailable))
        else do {
          e0 \<leftarrow> index (ms_entries c) 0;
          lo \<leftarrow> sub low (e_index e0);
          hi \<leftarrow> sub high (e_index e0);
          ents \<leftarrow> slice (ms_entries c) lo hi;
          Some (c, Inr (limit_size size_of ents max_size))
        }
      })"

definition mem_term :: "MemStorageCore \<Rightarrow> nat \<Rightarrow> (Error + nat) panics" where
  "mem_term c idx =
     (if idx = sm_index (snapshot_metadata c) then Some (Inr (sm_term (snapshot_metadata c)))
      else if idx < mem_first_index c then Some (Inl (Store Compacted))
      else if mem_last_index c < idx then Some (Inl (Store Unavailable))
      else do { e \<leftarrow> index (ms_entries c) (idx - mem_first_index c); Some (Inr (e_term e)) })"

definition mem_snapshot ::
  "MemStorageCore \<Rightarrow> nat \<Rightarrow> nat \<Rightarrow> (MemStorageCore \<times> (Error + Snapshot)) panics" where
  "mem_snapshot c request_index to =
     (if trigger_snap_unavailable c
      then Some (c\<lparr>trigger_snap_unavailable := False\<rparr>, Inl (Store SnapshotTemporarilyUnavailable))
      else do {
        snap \<leftarrow> mem_core_snapshot c;
        Some (c, Inr (if snap_index snap < request_index
                      then snap\<lparr>s_metadata := (s_metadata snap)\<lparr>sm_index := request_index\<rparr>\<rparr>
                      else snap))
      })"

definition MemStorage :: "(Entry \<Rightarrow> nat) \<Rightarrow> MemStorageCore Storage" where
  "MemStorage size_of = \<lparr>
     st_initial_state = (\<lambda>c. Inr (raft_state c)),
     st_entries = (\<lambda>c low high mx ctx. map_option snd (mem_entries size_of c low high mx ctx)),
     st_term = mem_term,
     st_first_index = (\<lambda>c. Inr (mem_first_index c)),
     st_last_index = (\<lambda>c. Inr (mem_last_index c)),
     st_snapshot = (\<lambda>c request_index to. map_option snd (mem_snapshot c request_index to)),
     compute_size = size_of\<rparr>"

subsection \<open>The contract of a storage\<close>

text \<open>
  What the log relies on: the storage holds a contiguous run of entries from its first index (at
  least 1) to its last; it returns their terms, and prefixes of the requested ranges, never empty;
  a caller that allows it may be told to fetch asynchronously.
\<close>

locale storage =
  fixes S :: "('s, 'm) Storage_scheme"
    and st_inv :: "'s \<Rightarrow> bool"
    and st_first :: "'s \<Rightarrow> nat"
    and st_ents :: "'s \<Rightarrow> Entry list"
  assumes first_pos: "st_inv s \<Longrightarrow> 0 < st_first s"
    and ents_contiguous: "st_inv s \<Longrightarrow> contiguous e_index (st_first s) (st_ents s)"
    and first_index: "st_inv s \<Longrightarrow> st_first_index S s = Inr (st_first s)"
    and last_index: "st_inv s \<Longrightarrow> st_last_index S s = Inr (st_first s + length (st_ents s) - 1)"
    and term_at: "st_inv s \<Longrightarrow> i < length (st_ents s) \<Longrightarrow>
      st_term S s (st_first s + i) = Some (Inr (e_term (st_ents s ! i)))"
    and term_total: "st_inv s \<Longrightarrow> st_first s \<le> i + 1 \<Longrightarrow> i < st_first s + length (st_ents s) \<Longrightarrow>
      (\<exists>t. st_term S s i = Some (Inr t)) \<or> st_term S s i = Some (Inl (Store Compacted))"
    and entries_at: "st_inv s \<Longrightarrow> lo < hi \<Longrightarrow> hi \<le> length (st_ents s) \<Longrightarrow>
      st_entries S s (st_first s + lo) (st_first s + hi) mx ctx =
        Some (Inr (limit_size (compute_size S) (take (hi - lo) (drop lo (st_ents s))) mx)) \<or>
      (can_async ctx \<and> st_entries S s (st_first s + lo) (st_first s + hi) mx ctx =
        Some (Inl (Store LogTemporarilyUnavailable)))"

text \<open>
  A well-formed \<^verbatim>\<open>MemStorage\<close>: its entries are contiguous, above the snapshot.
\<close>

definition mem_inv :: "MemStorageCore \<Rightarrow> bool" where
  "mem_inv c \<longleftrightarrow> contiguous e_index (mem_first_index c) (ms_entries c) \<and>
     sm_index (snapshot_metadata c) < mem_first_index c"

lemma mem_last_index_eq: "mem_inv c \<Longrightarrow> mem_last_index c = mem_first_index c + length (ms_entries c) - 1"
  by (auto simp: mem_inv_def mem_last_index_def contiguous_last) (simp add: mem_first_index_def)

lemma mem_first_index_hd: "ms_entries c \<noteq> [] \<Longrightarrow> index (ms_entries c) 0 = Some (hd (ms_entries c)) \<and>
    e_index (hd (ms_entries c)) = mem_first_index c"
  by (auto simp: mem_first_index_def index_def hd_conv_nth split: list.splits)

interpretation mem: storage "MemStorage size_of" mem_inv mem_first_index ms_entries for size_of
proof
  fix s i
  assume inv: "mem_inv s" and i: "i < length (ms_entries s)"
  then have "mem_first_index s + i \<noteq> sm_index (snapshot_metadata s)"
      "\<not> mem_last_index s < mem_first_index s + i"
    by (auto simp: mem_inv_def mem_last_index_eq)
  then show "st_term (MemStorage size_of) s (mem_first_index s + i) = Some (Inr (e_term (ms_entries s ! i)))"
    using i by (simp add: MemStorage_def mem_term_def)
next
  fix s i
  assume inv: "mem_inv s" and i: "mem_first_index s \<le> i + 1" "i < mem_first_index s + length (ms_entries s)"
  then show "(\<exists>t. st_term (MemStorage size_of) s i = Some (Inr t)) \<or>
      st_term (MemStorage size_of) s i = Some (Inl (Store Compacted))"
    by (auto simp: MemStorage_def mem_term_def mem_last_index_eq)
next
  fix s lo hi mx ctx
  assume inv: "mem_inv s" and r: "lo < hi" "hi \<le> length (ms_entries s)"
  then have "ms_entries s \<noteq> []" by auto
  then show "st_entries (MemStorage size_of) s (mem_first_index s + lo) (mem_first_index s + hi) mx ctx =
        Some (Inr (limit_size (compute_size (MemStorage size_of)) (take (hi - lo) (drop lo (ms_entries s))) mx)) \<or>
      (can_async ctx \<and> st_entries (MemStorage size_of) s (mem_first_index s + lo) (mem_first_index s + hi) mx ctx =
        Some (Inl (Store LogTemporarilyUnavailable)))"
    using r mem_first_index_hd [of s] mem_last_index_eq [OF inv]
    by (auto simp: MemStorage_def mem_entries_def)
qed (auto simp: MemStorage_def mem_inv_def mem_last_index_eq)

lemma mem_inv_new [simp]: "mem_inv MemStorage_new"
  by (simp add: mem_inv_def MemStorage_new_def mem_first_index_def SnapshotMetadata_default_def)

lemma mem_append_ok:
  assumes "mem_inv c" "contiguous e_index f ents" "ents \<noteq> []"
    and "mem_first_index c \<le> f" "f \<le> mem_last_index c + 1"
  shows "mem_append c ents =
    Some (c\<lparr>ms_entries := take (f - mem_first_index c) (ms_entries c) @ ents\<rparr>)"
proof -
  have "f - mem_first_index c \<le> length (ms_entries c)"
    using assms mem_last_index_eq [OF assms(1)] by (auto simp: mem_inv_def)
  then show ?thesis
    using assms contiguous_hd [OF assms(2,3)] by (cases ents) (auto simp: mem_append_def Let_def)
qed

lemma mem_append_inv:
  assumes "mem_inv c" "contiguous e_index f ents" "ents \<noteq> []"
    and "mem_first_index c \<le> f" "f \<le> mem_last_index c + 1" "mem_append c ents = Some c'"
  shows "mem_inv c' \<and> mem_first_index c' = mem_first_index c \<and> mem_last_index c' = f + length ents - 1"
proof -
  let ?es = "take (f - mem_first_index c) (ms_entries c) @ ents"
  have c': "c' = c\<lparr>ms_entries := ?es\<rparr>" using mem_append_ok [OF assms(1-5)] assms(6) by simp
  have len: "length (take (f - mem_first_index c) (ms_entries c)) = f - mem_first_index c"
    using assms mem_last_index_eq [OF assms(1)] by (auto simp: mem_inv_def)
  have cont: "contiguous e_index (mem_first_index c) ?es"
    using assms len by (simp add: contiguous_append contiguous_take mem_inv_def)
  have fst: "mem_first_index c' = mem_first_index c"
    using contiguous_hd [OF cont] assms(3) c' by (cases ?es) (auto simp: mem_first_index_def)
  then have "mem_inv c'" using cont assms(1) c' by (simp add: mem_inv_def)
  then show ?thesis using mem_last_index_eq fst c' len assms by simp
qed

subsection \<open>Properties\<close>

text \<open>Appending to the in-memory storage.  For a contiguous run that neither overlaps the
  compacted prefix nor leaves a gap, \<open>append\<close> does not panic, replaces everything from the first
  new index on and keeps what is below it, and keeps the storage well-formed; on a run that
  overwrites compacted entries or leaves a gap it panics.\<close>

theorem mem_append_spec:
  assumes "mem_inv c" "contiguous e_index f ents" "ents \<noteq> []"
  shows "if mem_first_index c \<le> f \<and> f \<le> mem_last_index c + 1
    then \<exists>c'. mem_append c ents = Some c' \<and> mem_inv c' \<and>
      ms_entries c' = take (f - mem_first_index c) (ms_entries c) @ ents \<and>
      mem_first_index c' = mem_first_index c \<and> mem_last_index c' = f + length ents - 1
    else mem_append c ents = None"
proof (cases "mem_first_index c \<le> f \<and> f \<le> mem_last_index c + 1")
  case True
  then show ?thesis
    using mem_append_ok [OF assms] mem_append_inv [OF assms, of "c\<lparr>ms_entries := take (f - mem_first_index c) (ms_entries c) @ ents\<rparr>"]
    by simp
next
  case False
  then show ?thesis
    using contiguous_hd [OF assms(2,3)] assms(3) by (cases ents) (auto simp: mem_append_def Let_def)
qed

text \<open>C28: after compaction to an index inside the log, the first index is that index, but the term of
  the entry before it, which the trait promises to retain for matching, is reported as compacted
  (unless it is the snapshot's); and compacting the whole log, which is allowed, makes the last
  index fall back to the snapshot's index, below entries the storage held.\<close>

theorem mem_compact_forgets_boundary:
  assumes "mem_inv c" "mem_first_index c < i" "i \<le> mem_last_index c + 1"
  shows "\<exists>c'. mem_compact c i = Some c' \<and>
    (i \<le> mem_last_index c \<longrightarrow> mem_first_index c' = i \<and> mem_last_index c' = mem_last_index c \<and>
       mem_term c' (i - 1) = Some (Inl (Store Compacted))) \<and>
    (i = mem_last_index c + 1 \<longrightarrow>
       mem_last_index c' = sm_index (snapshot_metadata c) \<and> mem_last_index c' < mem_last_index c)"
proof -
  have pos: "0 < mem_first_index c" using assms(1) by (simp add: mem_inv_def)
  have ne: "ms_entries c \<noteq> []" using assms pos mem_last_index_eq [OF assms(1)] by auto
  let ?off = "i - mem_first_index c"
  let ?c' = "c\<lparr>ms_entries := drop ?off (ms_entries c)\<rparr>"
  have off: "?off \<le> length (ms_entries c)" using assms pos mem_last_index_eq [OF assms(1)] by simp
  have res: "mem_compact c i = Some ?c'"
    using assms off ne mem_first_index_hd [OF ne]
    by (auto simp: mem_compact_def split: list.splits)
  have whole: "i = mem_last_index c + 1 \<longrightarrow> mem_last_index ?c' = sm_index (snapshot_metadata c) \<and>
      mem_last_index ?c' < mem_last_index c"
    using assms mem_last_index_eq [OF assms(1)] ne
    by (cases "ms_entries c") (auto simp: mem_last_index_def mem_inv_def)
  have cont: "contiguous e_index i (drop ?off (ms_entries c))"
    using contiguous_drop [of e_index "mem_first_index c" "ms_entries c" ?off] assms off
    by (simp add: mem_inv_def)
  have part: "mem_first_index ?c' = i \<and> mem_last_index ?c' = mem_last_index c \<and>
      mem_term ?c' (i - 1) = Some (Inl (Store Compacted))" if "i \<le> mem_last_index c"
  proof -
    have ne': "drop ?off (ms_entries c) \<noteq> []"
      using that mem_last_index_eq [OF assms(1)] assms(2) by simp
    have first: "mem_first_index ?c' = i"
      using contiguous_hd [OF cont ne'] mem_first_index_hd [of ?c'] ne' by simp
    moreover have "mem_last_index ?c' = mem_last_index c" using ne' ne by (simp add: mem_last_index_def)
    moreover have "i - 1 \<noteq> sm_index (snapshot_metadata c)" using assms by (auto simp: mem_inv_def)
    ultimately show ?thesis using assms(2) by (simp add: mem_term_def)
  qed
  show ?thesis using res whole part by blast
qed

theorem mem_compact_forgets_boundary_witness:
  "\<exists>c'. mem_compact (MemStorage_new\<lparr>ms_entries := [Entry_default\<lparr>e_index := 1\<rparr>, Entry_default\<lparr>e_index := 2\<rparr>]\<rparr>) 3
      = Some c' \<and> mem_last_index c' = 0"
proof -
  let ?c = "MemStorage_new\<lparr>ms_entries := [Entry_default\<lparr>e_index := 1\<rparr>, Entry_default\<lparr>e_index := 2\<rparr>]\<rparr>"
  have "mem_inv ?c" "mem_first_index ?c = 1" "mem_last_index ?c = 2" "sm_index (snapshot_metadata ?c) = 0"
    by (simp_all add: mem_inv_def mem_first_index_def mem_last_index_def contiguous_Cons MemStorage_new_def
        SnapshotMetadata_default_def)
  then show ?thesis using mem_compact_forgets_boundary [of ?c 3] by auto
qed

end
