(* ===== verification/Read_Only.thy ===== *)
theory Read_Only
  imports Proto
begin

text \<open>
  \<^verbatim>\<open>src/read_only.rs\<close>: the pending linearizable reads of a leader.  A \<^verbatim>\<open>VecDeque\<close> is a list with
  its front first.
\<close>

datatype ReadOnlyOption = Safe | LeaseBased

record ReadState =
  rd_index :: nat
  rd_request_ctx :: bytes

record ReadIndexStatus =
  ris_req :: Message
  ris_index :: nat
  ris_acks :: "nat list"

record ReadOnly =
  ro_option :: ReadOnlyOption
  pending_read_index :: "(bytes, ReadIndexStatus) hmap"
  read_index_queue :: "bytes list"

definition ReadOnly_new :: "ReadOnlyOption \<Rightarrow> ReadOnly" where
  "ReadOnly_new opt = \<lparr>ro_option = opt, pending_read_index = [], read_index_queue = []\<rparr>"

definition add_request :: "ReadOnly \<Rightarrow> nat \<Rightarrow> Message \<Rightarrow> nat \<Rightarrow> ReadOnly panics" where
  "add_request ro idx req self_id = do {
     e0 \<leftarrow> index (m_entries req) 0;
     let ctx = e_data e0;
     if hm_contains (pending_read_index ro) ctx then Some ro
     else Some (ro\<lparr>
       pending_read_index :=
         hm_insert ctx \<lparr>ris_req = req, ris_index = idx, ris_acks = [self_id]\<rparr> (pending_read_index ro),
       read_index_queue := read_index_queue ro @ [ctx]\<rparr>)
   }"

definition recv_ack :: "ReadOnly \<Rightarrow> nat \<Rightarrow> bytes \<Rightarrow> ReadOnly \<times> nat list option" where
  "recv_ack ro nid ctx =
     (case map_of (pending_read_index ro) ctx of
        None \<Rightarrow> (ro, None)
      | Some rs \<Rightarrow>
          (let acks = hs_insert nid (ris_acks rs)
           in (ro\<lparr>pending_read_index := hm_insert ctx (rs\<lparr>ris_acks := acks\<rparr>) (pending_read_index ro)\<rparr>,
               Some acks)))"

text \<open>\<open>position\<close> with the closure of \<open>advance\<close>: every key passed over must be in the map.\<close>

fun ro_position :: "(bytes, ReadIndexStatus) hmap \<Rightarrow> bytes \<Rightarrow> bytes list \<Rightarrow> nat option panics" where
  "ro_position pend ctx [] = Some None"
| "ro_position pend ctx (x # xs) = do {
     ensure (hm_contains pend x);
     if x = ctx then Some (Some 0)
     else do { r \<leftarrow> ro_position pend ctx xs; Some (map_option Suc r) }
   }"

fun ro_pop :: "nat \<Rightarrow> ReadOnly \<Rightarrow> (ReadOnly \<times> ReadIndexStatus list) panics" where
  "ro_pop 0 ro = Some (ro, [])"
| "ro_pop (Suc n) ro = (case read_index_queue ro of
     [] \<Rightarrow> None
   | x # xs \<Rightarrow> do {
       status \<leftarrow> map_of (pending_read_index ro) x;
       (ro, rss) \<leftarrow> ro_pop n (ro\<lparr>read_index_queue := xs,
                              pending_read_index := hm_remove x (pending_read_index ro)\<rparr>);
       Some (ro, status # rss)
     })"

definition advance :: "ReadOnly \<Rightarrow> bytes \<Rightarrow> (ReadOnly \<times> ReadIndexStatus list) panics" where
  "advance ro ctx = do {
     pos \<leftarrow> ro_position (pending_read_index ro) ctx (read_index_queue ro);
     case pos of
       None \<Rightarrow> Some (ro, [])
     | Some i \<Rightarrow> ro_pop (Suc i) ro
   }"

definition last_pending_request_ctx :: "ReadOnly \<Rightarrow> bytes option" where
  "last_pending_request_ctx ro =
     (if read_index_queue ro = [] then None else Some (last (read_index_queue ro)))"

definition pending_read_count :: "ReadOnly \<Rightarrow> nat" where
  "pending_read_count ro = length (read_index_queue ro)"

subsection \<open>The queue and the map agree\<close>

definition ro_inv :: "ReadOnly \<Rightarrow> bool" where
  "ro_inv ro \<longleftrightarrow> distinct (read_index_queue ro) \<and> distinct (keys (pending_read_index ro)) \<and>
     set (keys (pending_read_index ro)) = set (read_index_queue ro)"

text \<open>The requests in arrival order.\<close>

definition ro_pending :: "ReadOnly \<Rightarrow> ReadIndexStatus list" where
  "ro_pending ro = map (\<lambda>c. the (map_of (pending_read_index ro) c)) (read_index_queue ro)"

lemma ro_inv_new [simp]: "ro_inv (ReadOnly_new opt)"
  by (simp add: ro_inv_def ReadOnly_new_def)

lemma ro_inv_contains: "ro_inv ro \<Longrightarrow> hm_contains (pending_read_index ro) c \<longleftrightarrow> c \<in> set (read_index_queue ro)"
  by (simp add: ro_inv_def hm_contains_iff)

lemma ro_inv_lookup: "ro_inv ro \<Longrightarrow> c \<in> set (read_index_queue ro) \<Longrightarrow>
    \<exists>rs. map_of (pending_read_index ro) c = Some rs"
  using ro_inv_contains [of ro c] by (simp add: hm_contains_def)

lemma add_request_inv [invs]:
  assumes "ro_inv ro" "add_request ro idx req self_id = Some ro'"
  shows "ro_inv ro'"
  using assms ro_inv_contains [OF assms(1)]
  by (auto simp: add_request_def ro_inv_def bind_eq_Some_conv Let_def hm_contains_iff
      simp del: set_map split: if_splits)

lemma recv_ack_inv [invs]:
  assumes "ro_inv ro"
  shows "ro_inv (fst (recv_ack ro i ctx))"
proof (cases "map_of (pending_read_index ro) ctx")
  case (Some rs)
  then have "ctx \<in> set (keys (pending_read_index ro))" by (metis hm_contains_def hm_contains_iff option.simps(3))
  with Some assms show ?thesis by (auto simp: recv_ack_def ro_inv_def Let_def simp del: set_map)
qed (use assms in \<open>simp add: recv_ack_def\<close>)

lemma ro_position_first:
  assumes "\<And>x. x \<in> set xs \<Longrightarrow> hm_contains pend x"
  shows "ro_position pend ctx xs =
    Some (if ctx \<in> set xs then Some (length (takeWhile (\<lambda>x. x \<noteq> ctx) xs)) else None)"
  using assms by (induction xs) auto

lemma ro_pop_ok:
  assumes "ro_inv ro" "n \<le> length (read_index_queue ro)"
  shows "\<exists>ro'. ro_pop n ro = Some (ro', take n (ro_pending ro)) \<and> ro_inv ro' \<and>
    read_index_queue ro' = drop n (read_index_queue ro) \<and> ro_pending ro' = drop n (ro_pending ro)"
  using assms
proof (induction n arbitrary: ro)
  case 0
  then show ?case by (simp add: ro_pending_def)
next
  case (Suc n)
  then obtain x xs where q: "read_index_queue ro = x # xs" by (cases "read_index_queue ro") auto
  then obtain st where st: "map_of (pending_read_index ro) x = Some st"
    using ro_inv_lookup [OF Suc.prems(1)] by auto
  let ?ro = "ro\<lparr>read_index_queue := xs, pending_read_index := hm_remove x (pending_read_index ro)\<rparr>"
  have inv: "ro_inv ?ro" using Suc.prems(1) q by (auto simp: ro_inv_def simp del: set_map)
  have pend: "ro_pending ro = st # ro_pending ?ro"
    using q st Suc.prems(1) by (auto simp: ro_pending_def ro_inv_def)
  from Suc.IH [OF inv] Suc.prems(2) q
  obtain ro' where r: "ro_pop n ?ro = Some (ro', take n (ro_pending ?ro))" "ro_inv ro'"
      "read_index_queue ro' = drop n xs" "ro_pending ro' = drop n (ro_pending ?ro)" by auto
  have "ro_pop (Suc n) ro = Some (ro', take (Suc n) (ro_pending ro))"
    using q st r(1) pend by simp
  then show ?case using r(2-4) q pend by simp
qed

subsection \<open>Properties\<close>

text \<open>Read requests complete in order.  In a well-formed queue \<open>advance\<close> never panics; for a
  pending context it returns exactly the requests up to and including it, oldest first, and leaves
  the later ones, in order and well-formed; for an unknown context it returns nothing and changes
  nothing.\<close>

theorem read_only_advance_fifo:
  assumes "ro_inv ro"
  shows "if ctx \<in> set (read_index_queue ro)
    then \<exists>ro' before after. advance ro ctx = Some (ro', take (Suc (length before)) (ro_pending ro)) \<and>
      read_index_queue ro = before @ ctx # after \<and> ctx \<notin> set before \<and>
      read_index_queue ro' = after \<and> ro_pending ro' = drop (Suc (length before)) (ro_pending ro) \<and>
      ro_inv ro'
    else advance ro ctx = Some (ro, [])"
proof -
  let ?q = "read_index_queue ro"
  let ?b = "takeWhile (\<lambda>x. x \<noteq> ctx) ?q"
  have pos: "ro_position (pending_read_index ro) ctx ?q =
      Some (if ctx \<in> set ?q then Some (length ?b) else None)"
    by (rule ro_position_first) (use ro_inv_contains [OF assms] in blast)
  show ?thesis
  proof (cases "ctx \<in> set ?q")
    case True
    then obtain bf af where sp: "?q = bf @ ctx # af" "ctx \<notin> set bf" by (meson split_list_first)
    then have b: "?b = bf" by (auto simp: takeWhile_append)
    have "Suc (length bf) \<le> length ?q" using sp by simp
    from ro_pop_ok [OF assms this] obtain ro' where
      "ro_pop (Suc (length bf)) ro = Some (ro', take (Suc (length bf)) (ro_pending ro))"
      "ro_inv ro'" "read_index_queue ro' = af" "ro_pending ro' = drop (Suc (length bf)) (ro_pending ro)"
      using sp by auto
    then show ?thesis using True sp pos b
      by (auto simp: advance_def simp del: ro_pop.simps intro!: exI [of _ bf])
  next
    case False
    then show ?thesis using pos by (simp add: advance_def)
  qed
qed

end
