(* ===== verification/Config.thy ===== *)
theory Config
  imports Read_Only
begin

text \<open>
  \<^verbatim>\<open>src/config.rs\<close>: the parameters of a node and their validation.  The fields carry the
  prefix \<open>cfg_\<close>.
\<close>

record Config =
  cfg_id :: nat
  cfg_election_tick :: nat
  cfg_heartbeat_tick :: nat
  cfg_applied :: nat
  cfg_max_size_per_msg :: nat
  cfg_max_inflight_msgs :: nat
  cfg_check_quorum :: bool
  cfg_pre_vote :: bool
  cfg_min_election_tick :: nat
  cfg_max_election_tick :: nat
  cfg_read_only_option :: ReadOnlyOption
  cfg_skip_bcast_commit :: bool
  cfg_batch_append :: bool
  cfg_priority :: int
  cfg_max_uncommitted_size :: nat
  cfg_max_committed_size_per_ready :: nat
  cfg_max_apply_unpersisted_log_limit :: nat
  cfg_disable_proposal_forwarding :: bool

definition HEARTBEAT_TICK :: nat where
  "HEARTBEAT_TICK = 2"

definition Config_default :: Config where
  "Config_default = \<lparr>cfg_id = 0, cfg_election_tick = HEARTBEAT_TICK * 10,
     cfg_heartbeat_tick = HEARTBEAT_TICK, cfg_applied = 0, cfg_max_size_per_msg = 0,
     cfg_max_inflight_msgs = 256, cfg_check_quorum = False, cfg_pre_vote = False,
     cfg_min_election_tick = 0, cfg_max_election_tick = 0, cfg_read_only_option = Safe,
     cfg_skip_bcast_commit = False, cfg_batch_append = False, cfg_priority = 0,
     cfg_max_uncommitted_size = NO_LIMIT, cfg_max_committed_size_per_ready = NO_LIMIT,
     cfg_max_apply_unpersisted_log_limit = 0, cfg_disable_proposal_forwarding = False\<rparr>"

definition Config_new :: "nat \<Rightarrow> Config" where
  "Config_new i = Config_default\<lparr>cfg_id := i\<rparr>"

definition min_election_tick :: "Config \<Rightarrow> nat" where
  "min_election_tick c =
     (if cfg_min_election_tick c = 0 then cfg_election_tick c else cfg_min_election_tick c)"

definition max_election_tick :: "Config \<Rightarrow> nat" where
  "max_election_tick c =
     (if cfg_max_election_tick c = 0 then 2 * cfg_election_tick c else cfg_max_election_tick c)"

definition validate :: "Config \<Rightarrow> Error + unit" where
  "validate c =
     (if cfg_id c = INVALID_ID then Inl (ConfigInvalid ''invalid node id'')
      else if cfg_heartbeat_tick c = 0
      then Inl (ConfigInvalid ''heartbeat tick must greater than 0'')
      else if cfg_election_tick c \<le> cfg_heartbeat_tick c
      then Inl (ConfigInvalid ''election tick must be greater than heartbeat tick'')
      else let min_timeout = min_election_tick c; max_timeout = max_election_tick c
      in if min_timeout < cfg_election_tick c
         then Inl (ConfigInvalid (''min election tick '' @ show_nat min_timeout @
                '' must not be less than election_tick '' @ show_nat (cfg_election_tick c)))
         else if max_timeout \<le> min_timeout
         then Inl (ConfigInvalid (''min election tick '' @ show_nat min_timeout @
                '' should be less than max election tick '' @ show_nat max_timeout))
         else if cfg_max_inflight_msgs c = 0
         then Inl (ConfigInvalid ''max inflight messages must be greater than 0'')
         else if cfg_read_only_option c = LeaseBased \<and> \<not> cfg_check_quorum c
         then Inl (ConfigInvalid ''read_only_option == LeaseBased requires check_quorum == true'')
         else if cfg_max_uncommitted_size c < cfg_max_size_per_msg c
         then Inl (ConfigInvalid ''max uncommitted size should greater than max_size_per_msg'')
         else Inr ())"

text \<open>What the rest of the code relies on after validation: a proper election timeout range.\<close>

lemma validate_ok:
  assumes "validate c = Inr ()"
  shows "cfg_id c \<noteq> 0 \<and> 0 < cfg_heartbeat_tick c \<and> cfg_heartbeat_tick c < min_election_tick c \<and>
    min_election_tick c < max_election_tick c \<and> 0 < cfg_max_inflight_msgs c \<and>
    (cfg_read_only_option c = LeaseBased \<longrightarrow> cfg_check_quorum c)"
  using assms by (auto simp: validate_def Let_def INVALID_ID_def split: if_splits)

lemma validate_default: "i \<noteq> 0 \<Longrightarrow> validate (Config_new i) = Inr ()"
  by (simp add: validate_def Config_new_def Config_default_def INVALID_ID_def HEARTBEAT_TICK_def
      min_election_tick_def max_election_tick_def NO_LIMIT_def u64_MAX_def)

end
