(* ===== verification/Raft_Log.thy ===== *)
theory Raft_Log
  imports Log_Unstable Storage_Mem Config
begin

text \<open>
  \<^verbatim>\<open>src/raft_log.rs\<close>: the log of a node, the stable storage followed by the unstable part.  Every
  operation takes the storage trait \<open>S\<close>; an operation that may panic returns an \<open>option\<close>.
  The lemmas hold for every storage that keeps the contract \<open>storage\<close>; \<^verbatim>\<open>MemStorage\<close> is one.
\<close>

record 's RaftLog =
  store :: 's
  unstable :: Unstable
  committed :: nat
  persisted :: nat
  applied :: nat
  max_apply_unpersisted_log_limit :: nat

definition RaftLog_new :: "('s, 'm) Storage_scheme \<Rightarrow> 's \<Rightarrow> Config \<Rightarrow> 's RaftLog panics" where
  "RaftLog_new S st cfg = do {
     first_index \<leftarrow> unwrap (st_first_index S st);
     last_index \<leftarrow> unwrap (st_last_index S st);
     c \<leftarrow> sub first_index 1;
     Some \<lparr>store = st, unstable = Unstable_new (last_index + 1), committed = c,
       persisted = last_index, applied = c,
       max_apply_unpersisted_log_limit = cfg_max_apply_unpersisted_log_limit cfg\<rparr>
   }"

definition log_first_index :: "('s, 'm) Storage_scheme \<Rightarrow> 's RaftLog \<Rightarrow> nat panics" where
  "log_first_index S l = (case u_maybe_first_index (unstable l) of
     Some i \<Rightarrow> Some i
   | None \<Rightarrow> unwrap (st_first_index S (store l)))"

definition log_last_index :: "('s, 'm) Storage_scheme \<Rightarrow> 's RaftLog \<Rightarrow> nat panics" where
  "log_last_index S l = (case u_maybe_last_index (unstable l) of
     Some i \<Rightarrow> Some i
   | None \<Rightarrow> unwrap (st_last_index S (store l)))"

definition log_term :: "('s, 'm) Storage_scheme \<Rightarrow> 's RaftLog \<Rightarrow> nat \<Rightarrow> (Error + nat) panics" where
  "log_term S l idx = do {
     first_index \<leftarrow> log_first_index S l;
     dummy_idx \<leftarrow> sub first_index 1;
     if idx < dummy_idx then Some (Inr 0)
     else do {
       last_index \<leftarrow> log_last_index S l;
       if last_index < idx then Some (Inr 0)
       else do {
         t \<leftarrow> u_maybe_term (unstable l) idx;
         case t of
           Some t \<Rightarrow> Some (Inr t)
         | None \<Rightarrow> do {
             r \<leftarrow> st_term S (store l) idx;
             case r of
               Inr t \<Rightarrow> Some (Inr t)
             | Inl e \<Rightarrow> if e = Store Compacted \<or> e = Store Unavailable then Some (Inl e) else None
           }
       }
     }
   }"

definition log_last_term :: "('s, 'm) Storage_scheme \<Rightarrow> 's RaftLog \<Rightarrow> nat panics" where
  "log_last_term S l = do {
     last_index \<leftarrow> log_last_index S l;
     r \<leftarrow> log_term S l last_index;
     case r of Inr t \<Rightarrow> Some t | Inl _ \<Rightarrow> None
   }"

definition log_match_term :: "('s, 'm) Storage_scheme \<Rightarrow> 's RaftLog \<Rightarrow> nat \<Rightarrow> nat \<Rightarrow> bool panics" where
  "log_match_term S l idx trm = do {
     r \<leftarrow> log_term S l idx;
     Some (case r of Inr t \<Rightarrow> t = trm | Inl _ \<Rightarrow> False)
   }"

fun find_conflict :: "('s, 'm) Storage_scheme \<Rightarrow> 's RaftLog \<Rightarrow> Entry list \<Rightarrow> nat panics" where
  "find_conflict S l [] = Some 0"
| "find_conflict S l (e # es) = do {
     m \<leftarrow> log_match_term S l (e_index e) (e_term e);
     if \<not> m then Some (e_index e) else find_conflict S l es
   }"

text \<open>The loop of \<open>find_conflict_by_term\<close>: it counts \<open>conflict_index\<close> down.\<close>

fun conflict_loop :: "('s, 'm) Storage_scheme \<Rightarrow> 's RaftLog \<Rightarrow> nat \<Rightarrow> nat \<Rightarrow> (nat \<times> nat option) panics" where
  "conflict_loop S l trm 0 = do {
     r \<leftarrow> log_term S l 0;
     case r of
       Inr t \<Rightarrow> if trm < t then None else Some (0, Some t)
     | Inl _ \<Rightarrow> Some (0, None)
   }"
| "conflict_loop S l trm (Suc i) = do {
     r \<leftarrow> log_term S l (Suc i);
     case r of
       Inr t \<Rightarrow> if trm < t then conflict_loop S l trm i else Some (Suc i, Some t)
     | Inl _ \<Rightarrow> Some (Suc i, None)
   }"

definition find_conflict_by_term ::
  "('s, 'm) Storage_scheme \<Rightarrow> 's RaftLog \<Rightarrow> nat \<Rightarrow> nat \<Rightarrow> (nat \<times> nat option) panics" where
  "find_conflict_by_term S l idx trm = do {
     last_index \<leftarrow> log_last_index S l;
     if last_index < idx then Some (idx, None) else conflict_loop S l trm idx
   }"

definition log_commit_to :: "('s, 'm) Storage_scheme \<Rightarrow> 's RaftLog \<Rightarrow> nat \<Rightarrow> 's RaftLog panics" where
  "log_commit_to S l to_commit =
     (if to_commit \<le> committed l then Some l
      else do {
        last_index \<leftarrow> log_last_index S l;
        ensure (\<not> last_index < to_commit);
        Some (l\<lparr>committed := to_commit\<rparr>)
      })"

definition log_applied_to_unchecked :: "'s RaftLog \<Rightarrow> nat \<Rightarrow> 's RaftLog" where
  "log_applied_to_unchecked l idx = l\<lparr>applied := idx\<rparr>"

definition log_applied_to :: "'s RaftLog \<Rightarrow> nat \<Rightarrow> 's RaftLog panics" where
  "log_applied_to l idx =
     (if idx = 0 then Some l
      else do {
        ensure (\<not> (committed l < idx \<or> idx < applied l));
        Some (log_applied_to_unchecked l idx)
      })"

definition log_stable_entries :: "'s RaftLog \<Rightarrow> nat \<Rightarrow> nat \<Rightarrow> 's RaftLog panics" where
  "log_stable_entries l idx trm = do {
     u \<leftarrow> u_stable_entries (unstable l) idx trm;
     Some (l\<lparr>unstable := u\<rparr>)
   }"

definition log_stable_snap :: "'s RaftLog \<Rightarrow> nat \<Rightarrow> 's RaftLog panics" where
  "log_stable_snap l idx = do {
     u \<leftarrow> u_stable_snap (unstable l) idx;
     Some (l\<lparr>unstable := u\<rparr>)
   }"

definition log_append ::
  "('s, 'm) Storage_scheme \<Rightarrow> 's RaftLog \<Rightarrow> Entry list \<Rightarrow> ('s RaftLog \<times> nat) panics" where
  "log_append S l ents =
     (if ents = [] then do { last_index \<leftarrow> log_last_index S l; Some (l, last_index) }
      else do {
        e0 \<leftarrow> index ents 0;
        after \<leftarrow> sub (e_index e0) 1;
        ensure (\<not> after < committed l);
        u \<leftarrow> u_truncate_and_append (unstable l) ents;
        let l = l\<lparr>unstable := u\<rparr>;
        last_index \<leftarrow> log_last_index S l;
        Some (l, last_index)
      })"

definition log_maybe_append ::
  "('s, 'm) Storage_scheme \<Rightarrow> 's RaftLog \<Rightarrow> nat \<Rightarrow> nat \<Rightarrow> nat \<Rightarrow> Entry list \<Rightarrow>
    ('s RaftLog \<times> (nat \<times> nat) option) panics" where
  "log_maybe_append S l idx trm commit ents = do {
     m \<leftarrow> log_match_term S l idx trm;
     if m then do {
       conflict_idx \<leftarrow> find_conflict S l ents;
       l \<leftarrow> (if conflict_idx = 0 then Some l
             else if conflict_idx \<le> committed l then None
             else do {
               start \<leftarrow> sub conflict_idx (idx + 1);
               ensure (start \<le> length ents);
               (l, _) \<leftarrow> log_append S l (drop start ents);
               Some (if conflict_idx - 1 < persisted l then l\<lparr>persisted := conflict_idx - 1\<rparr> else l)
             });
       let last_new_index = idx + length ents;
       l \<leftarrow> log_commit_to S l (min commit last_new_index);
       Some (l, Some (conflict_idx, last_new_index))
     } else Some (l, None)
   }"

definition log_must_check_outofbounds ::
  "('s, 'm) Storage_scheme \<Rightarrow> 's RaftLog \<Rightarrow> nat \<Rightarrow> nat \<Rightarrow> Error option panics" where
  "log_must_check_outofbounds S l low high = do {
     ensure (low \<le> high);
     first_index \<leftarrow> log_first_index S l;
     if low < first_index then Some (Some (Store Compacted))
     else do {
       last_index \<leftarrow> log_last_index S l;
       len \<leftarrow> sub (last_index + 1) first_index;
       ensure (\<not> (low < first_index \<or> first_index + len < high));
       Some None
     }
   }"

definition log_slice ::
  "('s, 'm) Storage_scheme \<Rightarrow> 's RaftLog \<Rightarrow> nat \<Rightarrow> nat \<Rightarrow> nat option \<Rightarrow> GetEntriesFor \<Rightarrow>
    (Error + Entry list) panics" where
  "log_slice S l low high max_size context = do {
     err \<leftarrow> log_must_check_outofbounds S l low high;
     case err of
       Some e \<Rightarrow> Some (Inl e)
     | None \<Rightarrow>
         if low = high then Some (Inr [])
         else do {
           r \<leftarrow> (if low < u_offset (unstable l)
                then do {
                  let unstable_high = min high (u_offset (unstable l));
                  r \<leftarrow> st_entries S (store l) low unstable_high max_size context;
                  case r of
                    Inl e \<Rightarrow>
                      if e \<in> {Store Compacted, Store LogTemporarilyUnavailable, Store Unavailable}
                      then Some (Inl e) else None
                  | Inr entries \<Rightarrow> Some (Inr (entries, length entries < unstable_high - low))
                }
                else Some (Inr ([], False)));
           case r of
             Inl e \<Rightarrow> Some (Inl e)
           | Inr (ents, short) \<Rightarrow>
               if short then Some (Inr ents)
               else do {
                 ents \<leftarrow> (if u_offset (unstable l) < high
                          then do {
                            us \<leftarrow> u_slice (unstable l) (max low (u_offset (unstable l))) high;
                            Some (ents @ us)
                          }
                          else Some ents);
                 Some (Inr (limit_size (compute_size S) ents max_size))
               }
         }
   }"

definition log_entries ::
  "('s, 'm) Storage_scheme \<Rightarrow> 's RaftLog \<Rightarrow> nat \<Rightarrow> nat option \<Rightarrow> GetEntriesFor \<Rightarrow>
    (Error + Entry list) panics" where
  "log_entries S l idx max_size context = do {
     lst \<leftarrow> log_last_index S l;
     if lst < idx then Some (Inr [])
     else log_slice S l idx (lst + 1) max_size context
   }"

definition is_up_to_date :: "('s, 'm) Storage_scheme \<Rightarrow> 's RaftLog \<Rightarrow> nat \<Rightarrow> nat \<Rightarrow> bool panics" where
  "is_up_to_date S l last_idx trm = do {
     lt \<leftarrow> log_last_term S l;
     li \<leftarrow> log_last_index S l;
     Some (lt < trm \<or> trm = lt \<and> li \<le> last_idx)
   }"

definition applied_index_upper_bound :: "'s RaftLog \<Rightarrow> nat" where
  "applied_index_upper_bound l = min (committed l) (persisted l + max_apply_unpersisted_log_limit l)"

definition next_entries_since ::
  "('s, 'm) Storage_scheme \<Rightarrow> 's RaftLog \<Rightarrow> nat \<Rightarrow> nat option \<Rightarrow> Entry list option panics" where
  "next_entries_since S l since_idx max_size = do {
     first_index \<leftarrow> log_first_index S l;
     let off = max (since_idx + 1) first_index;
     let high = applied_index_upper_bound l + 1;
     if off < high
     then do {
       r \<leftarrow> log_slice S l off high max_size GenReady;
       case r of Inr ents \<Rightarrow> Some (Some ents) | Inl _ \<Rightarrow> None
     }
     else Some None
   }"

definition next_entries ::
  "('s, 'm) Storage_scheme \<Rightarrow> 's RaftLog \<Rightarrow> nat option \<Rightarrow> Entry list option panics" where
  "next_entries S l max_size = next_entries_since S l (applied l) max_size"

definition has_next_entries_since :: "('s, 'm) Storage_scheme \<Rightarrow> 's RaftLog \<Rightarrow> nat \<Rightarrow> bool panics" where
  "has_next_entries_since S l since_idx = do {
     first_index \<leftarrow> log_first_index S l;
     let off = max (since_idx + 1) first_index;
     let high = applied_index_upper_bound l + 1;
     Some (off < high)
   }"

definition has_next_entries :: "('s, 'm) Storage_scheme \<Rightarrow> 's RaftLog \<Rightarrow> bool panics" where
  "has_next_entries S l = has_next_entries_since S l (applied l)"

definition log_snapshot ::
  "('s, 'm) Storage_scheme \<Rightarrow> 's RaftLog \<Rightarrow> nat \<Rightarrow> nat \<Rightarrow> (Error + Snapshot) panics" where
  "log_snapshot S l request_index to =
     (case u_snapshot (unstable l) of
        Some snap \<Rightarrow> if request_index \<le> snap_index snap then Some (Inr snap)
                     else st_snapshot S (store l) request_index to
      | None \<Rightarrow> st_snapshot S (store l) request_index to)"

definition log_maybe_commit ::
  "('s, 'm) Storage_scheme \<Rightarrow> 's RaftLog \<Rightarrow> nat \<Rightarrow> nat \<Rightarrow> ('s RaftLog \<times> bool) panics" where
  "log_maybe_commit S l max_index trm =
     (if committed l < max_index
      then do {
        r \<leftarrow> log_term S l max_index;
        if (case r of Inr t \<Rightarrow> t = trm | Inl _ \<Rightarrow> False)
        then do { l \<leftarrow> log_commit_to S l max_index; Some (l, True) }
        else Some (l, False)
      }
      else Some (l, False))"

definition log_maybe_persist ::
  "('s, 'm) Storage_scheme \<Rightarrow> 's RaftLog \<Rightarrow> nat \<Rightarrow> nat \<Rightarrow> ('s RaftLog \<times> bool) panics" where
  "log_maybe_persist S l idx trm =
     (let first_update_index = (case u_snapshot (unstable l) of
            Some s \<Rightarrow> snap_index s
          | None \<Rightarrow> u_offset (unstable l))
      in if persisted l < idx \<and> idx < first_update_index
         then do {
           r \<leftarrow> st_term S (store l) idx;
           if (case r of Inr t \<Rightarrow> t = trm | Inl _ \<Rightarrow> False)
           then Some (l\<lparr>persisted := idx\<rparr>, True)
           else Some (l, False)
         }
         else Some (l, False))"

definition log_maybe_persist_snap :: "'s RaftLog \<Rightarrow> nat \<Rightarrow> ('s RaftLog \<times> bool) panics" where
  "log_maybe_persist_snap l idx =
     (if persisted l < idx
      then do {
        ensure (idx \<le> committed l);
        ensure (idx < u_offset (unstable l));
        Some (l\<lparr>persisted := idx\<rparr>, True)
      }
      else Some (l, False))"

text \<open>
  The callback of \<open>scan\<close> threads its own state \<open>x\<close>; the loop ends because each page is non-empty.
\<close>

function log_scan ::
  "('s, 'm) Storage_scheme \<Rightarrow> 's RaftLog \<Rightarrow> nat \<Rightarrow> nat \<Rightarrow> nat \<Rightarrow> GetEntriesFor \<Rightarrow>
    (Entry list \<Rightarrow> 'x \<Rightarrow> 'x \<times> bool) \<Rightarrow> 'x \<Rightarrow> ('x \<times> (Error + unit)) panics" where
  "log_scan S l lo hi page_size context v x =
     (if \<not> lo < hi then Some (x, Inr ())
      else case log_slice S l lo hi (Some page_size) context of
        None \<Rightarrow> None
      | Some (Inl e) \<Rightarrow> Some (x, Inl e)
      | Some (Inr ents) \<Rightarrow>
          if ents = []
          then Some (x, Inl (Store (Other
                 (''got 0 entries in ['' @ show_nat lo @ '', '' @ show_nat hi @ '')''))))
          else case v ents x of (x, continue) \<Rightarrow>
            if \<not> continue then Some (x, Inr ())
            else log_scan S l (lo + length ents) hi page_size context v x)"
  by pat_completeness auto
termination
  by (relation "measure (\<lambda>(S, l, lo, hi, _). hi - lo)") (auto, metis diff_less_mono2 length_greater_0_conv less_add_same_cancel1)

declare log_scan.simps [simp del]

definition log_restore :: "'s RaftLog \<Rightarrow> Snapshot \<Rightarrow> 's RaftLog panics" where
  "log_restore l snap = do {
     let idx = snap_index snap;
     ensure (committed l \<le> idx);
     let l = (if committed l < persisted l then l\<lparr>persisted := committed l\<rparr> else l);
     Some (l\<lparr>committed := idx, unstable := u_restore (unstable l) snap\<rparr>)
   }"

definition commit_info :: "('s, 'm) Storage_scheme \<Rightarrow> 's RaftLog \<Rightarrow> (nat \<times> nat) panics" where
  "commit_info S l = do {
     r \<leftarrow> log_term S l (committed l);
     case r of
       Inr t \<Rightarrow>
         if t \<noteq> 0 then Some (committed l, t)
         else do {
           first_index \<leftarrow> log_first_index S l;
           r \<leftarrow> log_term S l (first_index - 1);
           Some (committed l, case r of Inr t \<Rightarrow> t | Inl _ \<Rightarrow> 0)
         }
     | Inl _ \<Rightarrow> None
   }"

subsection \<open>The log as one sequence of entries\<close>

text \<open>
  The position of the first entry and the entries a reader of the log sees: the stable entries below
  the unstable offset followed by the unstable ones, or the unstable ones alone while a snapshot is
  pending.
\<close>

definition log_first :: "('s \<Rightarrow> nat) \<Rightarrow> 's RaftLog \<Rightarrow> nat" where
  "log_first st_first l = (case u_snapshot (unstable l) of
     Some s \<Rightarrow> snap_index s + 1 | None \<Rightarrow> st_first (store l))"

definition log_view :: "('s \<Rightarrow> nat) \<Rightarrow> ('s \<Rightarrow> Entry list) \<Rightarrow> 's RaftLog \<Rightarrow> Entry list" where
  "log_view st_first st_ents l =
     (case u_snapshot (unstable l) of
        Some s \<Rightarrow> []
      | None \<Rightarrow> take (u_offset (unstable l) - st_first (store l)) (st_ents (store l))) @
     u_entries (unstable l)"

text \<open>
  Well-formedness: the stable and the unstable part meet, and the committed position lies in the log
  or at its start.
\<close>

definition log_wf :: "('s \<Rightarrow> bool) \<Rightarrow> ('s \<Rightarrow> nat) \<Rightarrow> ('s \<Rightarrow> Entry list) \<Rightarrow> 's RaftLog \<Rightarrow> bool" where
  "log_wf st_inv st_first st_ents l \<longleftrightarrow>
     st_inv (store l) \<and> u_inv (unstable l) \<and>
     (u_snapshot (unstable l) = None \<longrightarrow>
        st_first (store l) \<le> u_offset (unstable l) \<and>
        u_offset (unstable l) \<le> st_first (store l) + length (st_ents (store l)) \<and>
        (u_entries (unstable l) = [] \<longrightarrow>
           u_offset (unstable l) = st_first (store l) + length (st_ents (store l)))) \<and>
     log_first st_first l \<le> committed l + 1 \<and>
     committed l < log_first st_first l + length (log_view st_first st_ents l)"

text \<open>The documented invariant of \<open>persisted\<close>.\<close>

text \<open>\<open>c\<close> is the position of the first of the entries \<open>ents\<close>, which follow \<open>idx\<close>, that the log does not hold; 0 when it holds
  them all.\<close>

definition first_conflict :: "('s, 'm) Storage_scheme \<Rightarrow> 's RaftLog \<Rightarrow> nat \<Rightarrow> Entry list \<Rightarrow> nat \<Rightarrow> bool" where
  "first_conflict S l idx ents c \<longleftrightarrow>
     (if c = 0 then \<forall>e \<in> set ents. log_match_term S l (e_index e) (e_term e) = Some True
      else idx < c \<and> c \<le> idx + length ents \<and>
        (\<forall>e \<in> set (take (c - Suc idx) ents). log_match_term S l (e_index e) (e_term e) = Some True) \<and>
        log_match_term S l c (e_term (ents ! (c - Suc idx))) = Some False)"

definition log_inv :: "('s \<Rightarrow> bool) \<Rightarrow> ('s \<Rightarrow> nat) \<Rightarrow> ('s \<Rightarrow> Entry list) \<Rightarrow> 's RaftLog \<Rightarrow> bool" where
  "log_inv st_inv st_first st_ents l \<longleftrightarrow>
     log_wf st_inv st_first st_ents l \<and> persisted l < u_offset (unstable l)"

lemma log_first_frame [simp]:
  "log_first f (l\<lparr>committed := c\<rparr>) = log_first f l" "log_first f (l\<lparr>persisted := c\<rparr>) = log_first f l"
  "log_first f (l\<lparr>applied := c\<rparr>) = log_first f l"
  by (simp_all add: log_first_def cong: option.case_cong)

lemma log_view_frame [simp]:
  "log_view f g (l\<lparr>committed := c\<rparr>) = log_view f g l" "log_view f g (l\<lparr>persisted := c\<rparr>) = log_view f g l"
  "log_view f g (l\<lparr>applied := c\<rparr>) = log_view f g l"
  by (simp_all add: log_view_def cong: option.case_cong)

lemma log_wf_frame [simp]:
  "log_wf i f g (l\<lparr>persisted := c\<rparr>) = log_wf i f g l" "log_wf i f g (l\<lparr>applied := c\<rparr>) = log_wf i f g l"
  by (simp_all add: log_wf_def)

text \<open>Lookups depend on the store and the unstable part only.\<close>

lemma log_index_frame [simp]:
  "log_first_index S (l\<lparr>committed := c\<rparr>) = log_first_index S l"
  "log_last_index S (l\<lparr>committed := c\<rparr>) = log_last_index S l"
  "log_first_index S (l\<lparr>persisted := c\<rparr>) = log_first_index S l"
  "log_last_index S (l\<lparr>persisted := c\<rparr>) = log_last_index S l"
  by (simp_all add: log_first_index_def log_last_index_def cong: option.case_cong)

lemma log_term_frame [simp]:
  "log_term S (l\<lparr>committed := c\<rparr>) i = log_term S l i" "log_term S (l\<lparr>persisted := c\<rparr>) i = log_term S l i"
  by (simp_all add: log_term_def cong: option.case_cong if_cong)

lemma log_match_term_frame [simp]:
  "log_match_term S (l\<lparr>committed := c\<rparr>) i t = log_match_term S l i t"
  "log_match_term S (l\<lparr>persisted := c\<rparr>) i t = log_match_term S l i t"
  by (simp_all add: log_match_term_def)

text \<open>\<open>slice\<close> limits the stable part, appends the unstable part and limits again.\<close>

lemma slice_stitch:
  assumes "log_must_check_outofbounds S l lo hi = Some None" "lo < hi" "lo < u_offset (unstable l)"
    and "uh = min hi (u_offset (unstable l))"
    and "st_entries S (store l) lo uh mx ctx = Some (Inr (limit_size (compute_size S) P mx))"
    and "length P = uh - lo" "R = P @ E"
    and "if u_offset (unstable l) < hi then u_slice (unstable l) (u_offset (unstable l)) hi = Some E else E = []"
  shows "log_slice S l lo hi mx ctx = Some (Inr (limit_size (compute_size S) R mx))"
proof (cases "length (limit_size (compute_size S) P mx) < length P")
  case True
  have "log_slice S l lo hi mx ctx = Some (Inr (limit_size (compute_size S) P mx))"
    using assms(1-3,5) True assms(6) by (simp add: log_slice_def Let_def flip: assms(4))
  then show ?thesis using limit_size_append [OF True] assms(7) by simp
next
  case False
  then show ?thesis
    using assms(1-3,5-8) limit_size_full [OF False]
    by (simp add: log_slice_def Let_def max_def flip: assms(4))
qed

lemma scan_step:
  assumes "lo < hi" "log_slice S l lo hi (Some page) ctx = Some (Inr ents)" "ents \<noteq> []" "v ents x = (y, True)"
  shows "log_scan S l lo hi page ctx v x = log_scan S l (lo + length ents) hi page ctx v y"
  using assms by (subst log_scan.simps) simp

context storage
begin

abbreviation first :: "'s RaftLog \<Rightarrow> nat" where "first l \<equiv> log_first st_first l"
abbreviation view :: "'s RaftLog \<Rightarrow> Entry list" where "view l \<equiv> log_view st_first st_ents l"
abbreviation wf :: "'s RaftLog \<Rightarrow> bool" where "wf l \<equiv> log_wf st_inv st_first st_ents l"

lemma wf_first_pos: "wf l \<Longrightarrow> 0 < first l"
  using first_pos by (auto simp: log_wf_def log_first_def split: option.splits)

lemma view_split:
  assumes "wf l"
  shows "first l \<le> u_offset (unstable l)"
    and "first l + length (view l) = u_offset (unstable l) + length (u_entries (unstable l))"
    and "view l = take (u_offset (unstable l) - first l) (view l) @ u_entries (unstable l)"
  using assms by (auto simp: log_wf_def log_first_def log_view_def u_inv_def split: option.splits)

lemma view_contiguous: "wf l \<Longrightarrow> contiguous e_index (first l) (view l)"
  using ents_contiguous [of "store l"]
  by (auto simp: log_wf_def log_first_def log_view_def u_inv_def contiguous_append contiguous_take
      split: option.splits)

lemma first_index_ok [simp]: "wf l \<Longrightarrow> log_first_index S l = Some (first l)"
  using first_index [of "store l"]
  by (auto simp: log_first_index_def u_maybe_first_index_def log_first_def log_wf_def split: option.splits)

lemma last_index_ok [simp]: "wf l \<Longrightarrow> log_last_index S l = Some (first l + length (view l) - 1)"
  using last_index [of "store l"] view_split [of l]
  by (auto simp: log_last_index_def u_maybe_last_index_def log_first_def log_view_def log_wf_def u_inv_def
      split: option.splits)

lemma term_ok:
  assumes "wf l" "first l \<le> idx" "idx < first l + length (view l)"
  shows "log_term S l idx = Some (Inr (e_term (view l ! (idx - first l))))"
proof -
  let ?u = "unstable l"
  have u: "u_inv ?u" and st: "st_inv (store l)" using assms(1) by (auto simp: log_wf_def)
  have pos: "0 < first l" using wf_first_pos [OF assms(1)] .
  note sp = view_split [OF assms(1)]
  show ?thesis
  proof (cases "u_offset ?u \<le> idx")
    case True
    then have "idx < u_offset ?u + length (u_entries ?u)" using sp(2) assms(3) by simp
    moreover have "view l ! (idx - first l) = u_entries ?u ! (idx - u_offset ?u)"
      using True sp(1,2) assms(3) by (subst sp(3)) (auto simp: nth_append)
    ultimately show ?thesis
      using True assms pos by (auto simp: log_term_def u_maybe_term_ok [OF u])
  next
    case False
    then have none: "u_snapshot ?u = None"
      using assms(2) u by (auto simp: log_first_def u_inv_def split: option.splits)
    then have f: "first l = st_first (store l)" by (simp add: log_first_def)
    have i: "idx - first l < length (st_ents (store l))"
      using False none assms f by (auto simp: log_wf_def)
    have "view l ! (idx - first l) = st_ents (store l) ! (idx - first l)"
      using False i f assms(2) none by (simp add: log_view_def nth_append)
    then show ?thesis
      using False none assms pos f term_at [OF st i] by (auto simp: log_term_def u_maybe_term_ok [OF u])
  qed
qed

lemma term_outside:
  assumes "wf l" "idx + 1 < first l \<or> first l + length (view l) \<le> idx"
  shows "log_term S l idx = Some (Inr 0)"
  using assms wf_first_pos [OF assms(1)] by (auto simp: log_term_def)

lemma log_term_total:
  assumes "wf l"
  shows "\<exists>r. log_term S l idx = Some r"
proof -
  consider "first l \<le> idx" "idx < first l + length (view l)"
    | "idx + 1 < first l \<or> first l + length (view l) \<le> idx" | "idx + 1 = first l" by linarith
  then show ?thesis
  proof cases
    case 3
    have u: "u_inv (unstable l)" and st: "st_inv (store l)" using assms by (auto simp: log_wf_def)
    have "idx < u_offset (unstable l)" using view_split(1) [OF assms] 3 by simp
    then show ?thesis
      using 3 assms view_split [OF assms] term_total [OF st, of idx]
      by (fastforce simp: log_term_def u_maybe_term_ok [OF u] log_first_def split: option.splits)
  qed (use term_ok term_outside assms in auto)
qed

lemma match_total: "wf l \<Longrightarrow> \<exists>b. log_match_term S l idx trm = Some b"
  using log_term_total [of l idx] by (auto simp: log_match_term_def)

text \<open>With a positive term, a match below or beyond the log is impossible.\<close>

lemma match_positive:
  assumes "wf l" "log_match_term S l idx trm = Some True" "0 < trm"
  shows "first l \<le> idx + 1 \<and> idx < first l + length (view l)"
proof (rule ccontr)
  assume "\<not> ?thesis"
  then have "log_term S l idx = Some (Inr 0)" using term_outside [OF assms(1), of idx] by auto
  with assms(2,3) show False by (simp add: log_match_term_def)
qed

lemma match_iff:
  assumes "wf l" "first l \<le> idx" "idx < first l + length (view l)"
  shows "log_match_term S l idx trm = Some (e_term (view l ! (idx - first l)) = trm)"
  using term_ok [OF assms] by (simp add: log_match_term_def)

lemma find_conflict_ok:
  assumes "wf l" "contiguous e_index (Suc i) ents"
  shows "\<exists>c. find_conflict S l ents = Some c \<and>
    (c = 0 \<and> (\<forall>e \<in> set ents. log_match_term S l (e_index e) (e_term e) = Some True) \<or>
     i < c \<and> c \<le> i + length ents \<and>
       (\<forall>e \<in> set (take (c - Suc i) ents). log_match_term S l (e_index e) (e_term e) = Some True) \<and>
       log_match_term S l c (e_term (ents ! (c - Suc i))) = Some False)"
  using assms(2)
proof (induction ents arbitrary: i)
  case Nil
  then show ?case by simp
next
  case (Cons e es)
  then have e: "e_index e = Suc i" "contiguous e_index (Suc (Suc i)) es" by (auto simp: contiguous_Cons)
  obtain b where b: "log_match_term S l (e_index e) (e_term e) = Some b" using match_total [OF assms(1)] by blast
  show ?case
  proof (cases b)
    case False
    then show ?thesis using b e by auto
  next
    case True
    from Cons.IH [OF e(2)] obtain c where c: "find_conflict S l es = Some c"
      "c = 0 \<and> (\<forall>e \<in> set es. log_match_term S l (e_index e) (e_term e) = Some True) \<or>
       Suc i < c \<and> c \<le> Suc i + length es \<and>
       (\<forall>e \<in> set (take (c - Suc (Suc i)) es). log_match_term S l (e_index e) (e_term e) = Some True) \<and>
       log_match_term S l c (e_term (es ! (c - Suc (Suc i)))) = Some False" by blast
    have cut: "c - Suc i = Suc (c - Suc (Suc i))" if "Suc i < c" using that by simp
    show ?thesis using c b True by (auto simp: cut)
  qed
qed

lemma append_ok:
  assumes "wf l" "ents \<noteq> []" "contiguous e_index (Suc i) ents"
    and "committed l \<le> i" "i < first l + length (view l)"
  shows "\<exists>l'. log_append S l ents = Some (l', i + length ents) \<and> wf l' \<and>
    view l' = take (Suc i - first l) (view l) @ ents \<and> first l' = first l \<and>
    u_offset (unstable l') = min (Suc i) (u_offset (unstable l)) \<and>
    l' = l\<lparr>unstable := unstable l'\<rparr>"
proof -
  let ?u = "unstable l"
  note sp = view_split [OF assms(1)]
  have u: "u_inv ?u" using assms(1) by (auto simp: log_wf_def)
  have fc: "first l \<le> committed l + 1" using assms(1) by (simp add: log_wf_def)
  have "\<And>s. u_snapshot ?u = Some s \<Longrightarrow> snap_index s < Suc i"
    using fc assms(4) by (simp add: log_first_def)
  moreover have "Suc i \<le> u_offset ?u + length (u_entries ?u)" using sp(2) assms(5) by simp
  ultimately obtain u' where u': "u_truncate_and_append ?u ents = Some u'" "u_inv u'"
      "u_snapshot u' = u_snapshot ?u" "u_offset u' = min (Suc i) (u_offset ?u)"
      "u_entries u' = take (Suc i - u_offset ?u) (u_entries ?u) @ ents"
    using u_truncate_and_append_ok [OF u assms(2,3)] by blast
  let ?l = "l\<lparr>unstable := u'\<rparr>"
  have first: "first ?l = first l" using u'(3) by (simp add: log_first_def split: option.split)
  have view: "view ?l = take (Suc i - first l) (view l) @ ents"
  proof (cases "u_snapshot ?u")
    case None
    then show ?thesis using u'(3-5) sp assms(1)
      by (auto simp: log_view_def log_first_def log_wf_def min_def take_append)
  next
    case (Some s)
    then have "first l = u_offset ?u" using u by (simp add: log_first_def u_inv_def)
    then show ?thesis using Some u'(3,5) by (simp add: log_view_def)
  qed
  have len: "length (view ?l) = Suc i - first l + length ents"
    using view assms(5) fc assms(4) by simp
  have "u_snapshot ?u = None \<Longrightarrow> st_first (store l) = first l" by (simp add: log_first_def)
  then have wf: "wf ?l"
    using assms(1,2,4) u' first len fc sp(1)
    by (auto simp: log_wf_def min_def split: option.splits)
  have e0: "index ents 0 = Some (hd ents)" "e_index (hd ents) = Suc i"
    using assms(2) contiguous_hd [OF assms(3,2)] by (simp_all add: hd_conv_nth)
  have "log_append S l ents = Some (?l, i + length ents)"
    using assms(2,4) e0 u'(1) last_index_ok [OF wf] first len fc by (simp add: log_append_def Let_def)
  then show ?thesis using wf view first u'(4) by auto
qed

lemma commit_to_ok:
  assumes "wf l" "c < first l + length (view l)"
  shows "log_commit_to S l c = Some (l\<lparr>committed := max (committed l) c\<rparr>) \<and>
    wf (l\<lparr>committed := max (committed l) c\<rparr>)"
proof -
  have "\<not> first l + length (view l) - 1 < c" using assms(2) wf_first_pos [OF assms(1)] by linarith
  then have "log_commit_to S l c = Some (l\<lparr>committed := max (committed l) c\<rparr>)"
    using assms by (auto simp: log_commit_to_def max_def)
  moreover have "wf (l\<lparr>committed := max (committed l) c\<rparr>)"
    using assms by (auto simp: log_wf_def)
  ultimately show ?thesis ..
qed

lemma append_conflict_ok:
  assumes "log_inv st_inv st_first st_ents l" "contiguous e_index (Suc idx) ents"
    and "committed l < c" "idx < c" "c \<le> idx + length ents" "c \<le> first l + length (view l)"
  shows "\<exists>l'. log_append S l (drop (c - Suc idx) ents) = Some (l', idx + length ents) \<and>
    wf (if c - 1 < persisted l' then l'\<lparr>persisted := c - 1\<rparr> else l') \<and>
    log_inv st_inv st_first st_ents (if c - 1 < persisted l' then l'\<lparr>persisted := c - 1\<rparr> else l') \<and>
    view l' = take (c - first l) (view l) @ drop (c - Suc idx) ents \<and> first l' = first l \<and>
    committed l' = committed l \<and> persisted l' = persisted l"
proof -
  have wf: "wf l" "persisted l < u_offset (unstable l)" using assms(1) by (auto simp: log_inv_def)
  let ?es = "drop (c - Suc idx) ents"
  obtain i where i: "c = Suc i" using assms(4) by (cases c) auto
  have ne: "?es \<noteq> []" using assms(4,5) by simp
  have "contiguous e_index (Suc idx + (c - Suc idx)) ?es"
    by (rule contiguous_drop [OF assms(2)]) (use assms(5) in simp)
  then have cont: "contiguous e_index (Suc i) ?es" using assms(4) i by simp
  have len: "i + length ?es = idx + length ents" using i assms(4,5) by simp
  obtain l' where "log_append S l ?es = Some (l', i + length ?es)" "wf l'"
      "view l' = take (Suc i - first l) (view l) @ ?es" "first l' = first l"
      "u_offset (unstable l') = min (Suc i) (u_offset (unstable l))" "l' = l\<lparr>unstable := unstable l'\<rparr>"
    using append_ok [OF wf(1) ne cont] assms(3,6) i by auto
  moreover from this(6) have "committed l' = committed l" "persisted l' = persisted l"
    by (metis RaftLog.select_convs(3) RaftLog.surjective RaftLog.update_convs(2),
        metis RaftLog.select_convs(4) RaftLog.surjective RaftLog.update_convs(2))
  ultimately show ?thesis using len i wf(2) by (auto simp: log_inv_def min_def)
qed

text \<open>An entry matched by the log is in its view, up to its payload.\<close>

lemma match_view:
  assumes "wf l" "first l \<le> idx" "log_match_term S l idx trm = Some True" "0 < trm"
  shows "idx < first l + length (view l) \<and> e_term (view l ! (idx - first l)) = trm"
  using match_positive [OF assms(1,3,4)] match_iff [OF assms(1,2), of trm] assms(3) by auto

text \<open>After an accepted append every given entry is in the log.\<close>

lemma appended_match:
  assumes "wf l" "wf l'" "contiguous e_index (Suc idx) ents" "\<forall>e \<in> set ents. 0 < e_term e"
    and "idx < c" "c \<le> idx + length ents" "first l \<le> Suc idx" "c \<le> first l + length (view l)"
    and "\<forall>e \<in> set (take (c - Suc idx) ents). log_match_term S l (e_index e) (e_term e) = Some True"
    and "view l' = take (c - first l) (view l) @ drop (c - Suc idx) ents" "first l' = first l"
    and "e \<in> set ents"
  shows "log_match_term S l' (e_index e) (e_term e) = Some True"
proof -
  obtain k where k: "k < length ents" "e = ents ! k" using assms(12) by (auto simp: in_set_conv_nth)
  have i: "e_index e = Suc idx + k" using contiguous_nth [OF assms(3) k(1)] k(2) by simp
  have len: "length (take (c - first l) (view l)) = c - first l" using assms(5,7,8) by simp
  have "e_term (view l' ! (e_index e - first l)) = e_term e"
  proof (cases "k < c - Suc idx")
    case True
    have "e \<in> set (take (c - Suc idx) ents)"
      using True k by (auto simp: in_set_conv_nth intro!: exI [of _ k])
    then have "e_term (view l ! (e_index e - first l)) = e_term e"
      using match_view [OF assms(1)] assms(4,7,9,12) i by auto
    moreover have "e_index e - first l < c - first l" using True i assms(7) by linarith
    ultimately show ?thesis using assms(10) len by (simp add: nth_append)
  next
    case False
    then have "view l' ! (e_index e - first l) = ents ! k"
      using assms(5,7,10) i len k(1) by (simp add: nth_append)
    then show ?thesis using k(2) by simp
  qed
  moreover have "e_index e < first l' + length (view l')"
    using i k(1) assms(5-7,10,11) len by simp
  ultimately show ?thesis using match_iff [OF assms(2)] i assms(7,11) by simp
qed

text \<open>A conflict is at most one position beyond the log.\<close>

lemma conflict_bound:
  assumes "wf l" "contiguous e_index (Suc idx) ents" "\<forall>e \<in> set ents. 0 < e_term e"
    and "idx < c" "c \<le> idx + length ents" "idx < first l + length (view l)"
    and "\<forall>e \<in> set (take (c - Suc idx) ents). log_match_term S l (e_index e) (e_term e) = Some True"
  shows "c \<le> first l + length (view l)"
proof (cases "c = Suc idx")
  case False
  let ?e = "ents ! (c - Suc idx - 1)"
  have k: "c - Suc idx - 1 < length ents" using assms(4,5) False by simp
  have "?e \<in> set (take (c - Suc idx) ents)"
    using False assms(4,5) k by (auto simp: in_set_conv_nth intro!: exI [of _ "c - Suc idx - 1"])
  then have "e_index ?e < first l + length (view l)"
    using match_positive [OF assms(1)] assms(3,7) k by auto
  then show ?thesis using contiguous_nth [OF assms(2) k] False assms(4) by simp
qed (use assms in simp)

lemma maybe_append_ok:
  assumes inv: "log_inv st_inv st_first st_ents l"
    and ents: "contiguous e_index (Suc idx) ents" "\<forall>e \<in> set ents. 0 < e_term e"
    and idx: "committed l \<le> idx" "idx < first l + length (view l)"
    and match: "log_match_term S l idx trm = Some True"
  shows "\<exists>l' c. log_maybe_append S l idx trm commit ents = Some (l', Some (c, idx + length ents)) \<and>
    log_inv st_inv st_first st_ents l' \<and> first l' = first l \<and>
    (\<forall>e \<in> set ents. log_match_term S l' (e_index e) (e_term e) = Some True) \<and>
    view l' = (if c = 0 then view l else take (c - first l) (view l) @ drop (c - Suc idx) ents) \<and>
    first_conflict S l idx ents c \<and> persisted l' = (if c = 0 then persisted l else min (persisted l) (c - 1)) \<and>
    committed l' = max (committed l) (min commit (idx + length ents))"
proof -
  have wf: "wf l" using inv by (simp add: log_inv_def)
  have fc: "first l \<le> Suc idx" using wf idx(1) by (simp add: log_wf_def)
  obtain c where c: "find_conflict S l ents = Some c"
    and cases: "c = 0 \<and> (\<forall>e \<in> set ents. log_match_term S l (e_index e) (e_term e) = Some True) \<or>
     idx < c \<and> c \<le> idx + length ents \<and>
       (\<forall>e \<in> set (take (c - Suc idx) ents). log_match_term S l (e_index e) (e_term e) = Some True) \<and>
       log_match_term S l c (e_term (ents ! (c - Suc idx))) = Some False"
    using find_conflict_ok [OF wf ents(1)] by blast
  then have fst: "first_conflict S l idx ents c" unfolding first_conflict_def by (cases "c = 0") auto
  show ?thesis
  proof (cases "c = 0")
    case True
    then have all: "\<forall>e \<in> set ents. log_match_term S l (e_index e) (e_term e) = Some True" using cases by auto
    have "idx + length ents < first l + length (view l)"
    proof (cases "ents = []")
      case False
      then have "log_match_term S l (e_index (last ents)) (e_term (last ents)) = Some True" "0 < e_term (last ents)"
        using all ents(2) by auto
      then show ?thesis using match_positive [OF wf] contiguous_last [OF ents(1) False] False by fastforce
    qed (use idx in simp)
    then have "log_commit_to S l (min commit (idx + length ents)) =
        Some (l\<lparr>committed := max (committed l) (min commit (idx + length ents))\<rparr>) \<and>
        wf (l\<lparr>committed := max (committed l) (min commit (idx + length ents))\<rparr>)"
      by (intro commit_to_ok [OF wf]) simp
    then show ?thesis
      using True c match all inv fst
      by (auto simp: log_maybe_append_def log_inv_def Let_def)
  next
    case False
    then have c': "idx < c" "c \<le> idx + length ents"
      and before: "\<forall>e \<in> set (take (c - Suc idx) ents). log_match_term S l (e_index e) (e_term e) = Some True"
      using cases by auto
    have cb: "c \<le> first l + length (view l)" by (rule conflict_bound [OF wf ents c' idx(2) before])
    obtain l1 where l1: "log_append S l (drop (c - Suc idx) ents) = Some (l1, idx + length ents)"
        "view l1 = take (c - first l) (view l) @ drop (c - Suc idx) ents" "first l1 = first l"
        "committed l1 = committed l" "persisted l1 = persisted l"
      and inv1: "log_inv st_inv st_first st_ents (if c - 1 < persisted l1 then l1\<lparr>persisted := c - 1\<rparr> else l1)"
      using append_conflict_ok [OF inv ents(1) _ c' cb] idx(1) c'(1) by auto
    let ?l = "if c - 1 < persisted l1 then l1\<lparr>persisted := c - 1\<rparr> else l1"
    let ?C = "min commit (idx + length ents)"
    have v: "view ?l = view l1" "first ?l = first l" "committed ?l = committed l" "wf ?l"
      using l1 inv1 by (auto simp: log_inv_def)
    have "?C < first ?l + length (view ?l)" using v l1(2) cb c' fc by simp
    note ct = commit_to_ok [OF v(4) this]
    have "c - Suc idx \<le> length ents" using c' by linarith
    then have "log_maybe_append S l idx trm commit ents =
        Some (?l\<lparr>committed := max (committed ?l) ?C\<rparr>, Some (c, idx + length ents))"
      using False c match l1(1) ct c' idx(1) by (simp add: log_maybe_append_def Let_def)
    moreover have "log_inv st_inv st_first st_ents (?l\<lparr>committed := max (committed ?l) ?C\<rparr>)"
      using inv1 ct by (simp add: log_inv_def)
    moreover have "log_match_term S ?l (e_index e) (e_term e) = Some True" if "e \<in> set ents" for e
      using appended_match [OF wf v(4) ents c' fc cb before] l1(2) v that by simp
    moreover have "persisted (?l\<lparr>committed := max (committed ?l) ?C\<rparr>) = min (persisted l) (c - 1)" using l1(5) by (simp add: min_def)
    ultimately show ?thesis using v l1(2) c'(1) False fst by auto
  qed
qed

lemma bounds_ok:
  assumes "wf l" "first l \<le> lo" "lo \<le> hi" "hi \<le> first l + length (view l)"
  shows "log_must_check_outofbounds S l lo hi = Some None"
proof -
  have "first l + length (view l) - 1 + 1 - first l = length (view l)" using wf_first_pos [OF assms(1)] by simp
  then show ?thesis using assms wf_first_pos [OF assms(1)] by (simp add: log_must_check_outofbounds_def)
qed

text \<open>The stable part of a range that starts below the unstable offset.\<close>

lemma stable_range:
  assumes "wf l" "first l \<le> lo" "lo < hi" "lo < u_offset (unstable l)"
  defines "uh \<equiv> min hi (u_offset (unstable l))"
  shows "st_entries S (store l) lo uh mx ctx =
      Some (Inr (limit_size (compute_size S) (take (uh - lo) (drop (lo - first l) (view l))) mx)) \<or>
    can_async ctx \<and> st_entries S (store l) lo uh mx ctx = Some (Inl (Store LogTemporarilyUnavailable))"
proof -
  have "u_snapshot (unstable l) = None"
    using assms(1,2,4) by (auto simp: log_first_def log_wf_def u_inv_def split: option.splits)
  then have f: "first l = st_first (store l)"
      and off: "u_offset (unstable l) \<le> first l + length (st_ents (store l))"
      and v: "view l = take (u_offset (unstable l) - first l) (st_ents (store l)) @ u_entries (unstable l)"
    using assms(1) by (auto simp: log_first_def log_wf_def log_view_def)
  have "take (uh - lo) (drop (lo - first l) (view l)) =
      take ((uh - first l) - (lo - first l)) (drop (lo - first l) (st_ents (store l)))"
    using assms(2-4) off range_take [of "uh - first l" "u_offset (unstable l) - first l" "lo - first l" "st_ents (store l)"]
    by (auto simp: v uh_def)
  moreover have "lo = st_first (store l) + (lo - first l)" "uh = st_first (store l) + (uh - first l)"
      "lo - first l < uh - first l" "uh - first l \<le> length (st_ents (store l))"
    using f assms(2-4) off by (auto simp: uh_def)
  moreover have "st_inv (store l)" using assms(1) by (simp add: log_wf_def)
  ultimately show ?thesis using entries_at [of "store l" "lo - first l" "uh - first l" mx ctx] by simp
qed

lemma slice_ok:
  assumes "wf l" "first l \<le> lo" "lo < hi" "hi \<le> first l + length (view l)"
  shows "log_slice S l lo hi mx ctx =
      Some (Inr (limit_size (compute_size S) (take (hi - lo) (drop (lo - first l) (view l))) mx)) \<or>
    can_async ctx \<and> log_slice S l lo hi mx ctx = Some (Inl (Store LogTemporarilyUnavailable))"
proof -
  let ?off = "u_offset (unstable l)"
  let ?R = "take (hi - lo) (drop (lo - first l) (view l))"
  note b = bounds_ok [OF assms(1,2) less_imp_le [OF assms(3)] assms(4)]
  note sp = view_split [OF assms(1)]
  have us: "u_slice (unstable l) (max lo ?off) hi =
      Some (take (hi - max lo ?off) (drop (max lo ?off - ?off) (u_entries (unstable l))))" if "?off < hi"
    by (rule u_slice_ok) (use that assms(3,4) sp(2) in auto)
  show ?thesis
  proof (cases "lo < ?off")
    case False
    have "?R = take (hi - lo) (drop (lo - ?off) (u_entries (unstable l)))"
      using False sp(1,2) by (subst sp(3)) auto
    then show ?thesis using False b us assms(3) by (simp add: log_slice_def max_def)
  next
    case True
    let ?uh = "min hi ?off"
    let ?P = "take (?uh - lo) (drop (lo - first l) (view l))"
    have R: "?R = ?P @ take (hi - ?off) (u_entries (unstable l))"
    proof -
      let ?A = "take (?off - first l) (view l)"
      have A: "length ?A = ?off - first l" using sp(1,2) by simp
      have "lo - first l \<le> ?off - first l" "(hi - first l) - (lo - first l) = hi - lo"
          "min (hi - first l) (?off - first l) - (lo - first l) = ?uh - lo" "hi - first l - (?off - first l) = hi - ?off"
        using True assms(2) sp(1) by auto
      then show ?thesis
        using range_append [OF A, of "lo - first l" "hi - first l" "u_entries (unstable l)"] by (simp flip: sp(3))
    qed
    have len: "length ?P = ?uh - lo" using assms sp(1,2) True by auto
    from stable_range [OF assms(1-3) True, of mx ctx] show ?thesis
    proof (elim disjE conjE)
      assume st: "st_entries S (store l) lo ?uh mx ctx = Some (Inr (limit_size (compute_size S) ?P mx))"
      have "log_slice S l lo hi mx ctx = Some (Inr (limit_size (compute_size S) ?R mx))"
        by (rule slice_stitch [OF b assms(3) True refl st len R]) (use us True in \<open>simp add: max_def\<close>)
      then show ?thesis ..
    next
      assume "can_async ctx" "st_entries S (store l) lo ?uh mx ctx = Some (Inl (Store LogTemporarilyUnavailable))"
      then show ?thesis using b assms(3) True by (simp add: log_slice_def Let_def)
    qed
  qed
qed

lemma slice_sync_ok:
  assumes "wf l" "first l \<le> lo" "lo < hi" "hi \<le> first l + length (view l)" "\<not> can_async ctx"
  shows "log_slice S l lo hi mx ctx =
      Some (Inr (limit_size (compute_size S) (take (hi - lo) (drop (lo - first l) (view l))) mx))"
  using slice_ok [OF assms(1-4), of mx ctx] assms(5) by blast

lemma next_entries_ok:
  fixes since :: nat
  assumes "wf l"
  defines "lo \<equiv> max (since + 1) (first l)" and "hi \<equiv> applied_index_upper_bound l + 1"
  shows "next_entries_since S l since mx =
      Some (if lo < hi
            then Some (limit_size (compute_size S) (take (hi - lo) (drop (lo - first l) (view l))) mx)
            else None) \<and>
    has_next_entries_since S l since = Some (lo < hi)"
proof -
  have "hi \<le> first l + length (view l)"
    using assms(1) by (auto simp: hi_def applied_index_upper_bound_def log_wf_def)
  then show ?thesis
    using slice_sync_ok [OF assms(1), of lo hi GenReady mx] assms(1)
    by (auto simp: next_entries_since_def has_next_entries_since_def Let_def lo_def hi_def can_async_def)
qed

lemma next_entries_bounds:
  assumes "wf l"
  shows "\<exists>r. next_entries_since S l since mx = Some r \<and>
    has_next_entries_since S l since = Some (r \<noteq> None) \<and>
    (case r of None \<Rightarrow> True
     | Some es \<Rightarrow> es \<noteq> [] \<and> contiguous e_index (max (since + 1) (first l)) es \<and>
        (\<forall>e \<in> set es. e_index e \<le> committed l \<and> e_index e \<le> persisted l + max_apply_unpersisted_log_limit l))"
proof -
  let ?f = "first l" and ?v = "view l"
  let ?lo = "max (since + 1) ?f" and ?hi = "applied_index_upper_bound l + 1"
  let ?es = "limit_size (compute_size S) (take (?hi - ?lo) (drop (?lo - ?f) ?v)) mx"
  note r = next_entries_ok [OF assms, of since mx]
  have hi: "?hi \<le> ?f + length ?v"
    using assms by (auto simp: applied_index_upper_bound_def log_wf_def)
  obtain n where n: "?es = take n (take (?hi - ?lo) (drop (?lo - ?f) ?v))"
    using limit_size_prefix by metis
  have "?es \<noteq> [] \<and> contiguous e_index ?lo ?es \<and> (\<forall>e \<in> set ?es. e_index e < ?hi)" if lt: "?lo < ?hi"
  proof -
    have "?lo - ?f \<le> length ?v" "?f + (?lo - ?f) = ?lo" using hi lt by linarith+
    then have "contiguous e_index ?lo (drop (?lo - ?f) ?v)"
      using contiguous_drop [OF view_contiguous [OF assms]] by metis
    then have c: "contiguous e_index ?lo ?es" unfolding n by (intro contiguous_take)
    have "length ?es \<le> ?hi - ?lo" unfolding n by simp
    then have "e_index e < ?hi" if "e \<in> set ?es" for e
      using contiguous_bounds [OF c that] lt by linarith
    moreover have "\<not> ?hi \<le> ?lo" "\<not> length ?v \<le> ?lo - ?f" using lt hi by linarith+
    then have "?es \<noteq> []" by simp
    ultimately show ?thesis using c by blast
  qed
  moreover have "e_index e \<le> committed l \<and> e_index e \<le> persisted l + max_apply_unpersisted_log_limit l"
    if "e_index e < ?hi" for e
    using that by (auto simp: applied_index_upper_bound_def)
  ultimately show ?thesis using r by (cases "?lo < ?hi") auto
qed

lemma scan_ok:
  assumes "wf l" "first l \<le> lo" "lo \<le> hi" "hi \<le> first l + length (view l)" "\<not> can_async ctx"
  shows "log_scan S l lo hi page ctx (\<lambda>ents acc. (acc @ ents, True)) acc =
    Some (acc @ take (hi - lo) (drop (lo - first l) (view l)), Inr ())"
  using assms(2,3)
proof (induction "hi - lo" arbitrary: lo acc rule: less_induct)
  case less
  show ?case
  proof (cases "lo < hi")
    case False
    then show ?thesis using less.prems by (subst log_scan.simps) simp
  next
    case True
    let ?R = "take (hi - lo) (drop (lo - first l) (view l))"
    have len: "length ?R = hi - lo" using assms(4) less.prems True by simp
    obtain n where n: "limit_size (compute_size S) ?R (Some page) = take n ?R" "?R \<noteq> [] \<longrightarrow> 0 < n"
      using limit_size_prefix [of "compute_size S" ?R "Some page"] by blast
    have ne: "?R \<noteq> []" using len True by (metis diff_is_0_eq list.size(3) not_le)
    let ?k = "min n (hi - lo)"
    have k: "0 < ?k" "?k \<le> hi - lo" "length (take n ?R) = ?k"
      using n(2) ne True len by (auto simp only: length_take)
    have "take n ?R @ take (hi - (lo + ?k)) (drop (lo + ?k - first l) (view l)) = ?R"
    proof -
      have "drop ?k ?R = take (hi - (lo + ?k)) (drop (lo + ?k - first l) (view l))"
        using less.prems(1) by (simp add: drop_take add.commute)
      moreover have "take n ?R = take ?k ?R" by (simp add: min_def)
      ultimately show ?thesis by (metis append_take_drop_id)
    qed
    moreover have "log_scan S l (lo + ?k) hi page ctx (\<lambda>ents acc. (acc @ ents, True)) (acc @ take n ?R) =
        Some ((acc @ take n ?R) @ take (hi - (lo + ?k)) (drop (lo + ?k - first l) (view l)), Inr ())"
      by (rule less.hyps) (use k(1,2) less.prems True in linarith)+
    moreover have "log_scan S l lo hi page ctx (\<lambda>ents acc. (acc @ ents, True)) acc =
        log_scan S l (lo + ?k) hi page ctx (\<lambda>ents acc. (acc @ ents, True)) (acc @ take n ?R)"
      unfolding k(3) [symmetric]
      by (rule scan_step [OF True]) (use slice_sync_ok [OF assms(1) less.prems(1) True assms(4,5)] n(1) k in auto)
    ultimately show ?thesis by simp
  qed
qed

lemma conflict_loop_ok:
  assumes "wf l" "\<And>t. log_term S l 0 = Some (Inr t) \<Longrightarrow> t \<le> trm"
  shows "\<exists>j ot. conflict_loop S l trm i = Some (j, ot) \<and> j \<le> i \<and>
    (\<forall>k. j < k \<and> k \<le> i \<longrightarrow> (\<exists>t. log_term S l k = Some (Inr t) \<and> trm < t)) \<and>
    (case ot of Some t \<Rightarrow> log_term S l j = Some (Inr t) \<and> t \<le> trm | None \<Rightarrow> \<exists>e. log_term S l j = Some (Inl e))"
proof (induction i)
  case 0
  obtain r where "log_term S l 0 = Some r" using log_term_total [OF assms(1)] by blast
  then show ?case using assms(2) by (cases r) (auto simp: not_less)
next
  case (Suc i)
  obtain r where r: "log_term S l (Suc i) = Some r" using log_term_total [OF assms(1)] by blast
  show ?case
  proof (cases "\<exists>t. r = Inr t \<and> trm < t")
    case True
    then have "conflict_loop S l trm (Suc i) = conflict_loop S l trm i" using r by auto
    then show ?thesis using Suc r True by (auto simp: le_Suc_eq)
  next
    case False
    then show ?thesis using r by (cases r) auto
  qed
qed

lemma maybe_commit_ok:
  assumes "wf l" "0 < trm"
  shows "\<exists>l' b. log_maybe_commit S l mi trm = Some (l', b) \<and> wf l' \<and> view l' = view l \<and> first l' = first l \<and>
    (b \<longleftrightarrow> committed l < mi \<and> log_match_term S l mi trm = Some True) \<and>
    l' = (if b then l\<lparr>committed := mi\<rparr> else l)"
proof -
  obtain r where r: "log_term S l mi = Some r" using log_term_total [OF assms(1)] by blast
  show ?thesis
  proof (cases "committed l < mi \<and> log_match_term S l mi trm = Some True")
    case True
    then have "mi < first l + length (view l)" using match_positive [OF assms(1) _ assms(2)] by blast
    note c = commit_to_ok [OF assms(1) this]
    show ?thesis using True r c
      by (auto simp: log_maybe_commit_def log_match_term_def max_def split: sum.splits)
  next
    case False
    then show ?thesis using r assms(1)
      by (auto simp: log_maybe_commit_def log_match_term_def split: sum.splits)
  qed
qed

text \<open>
  Persisting: the application writes the unstable entries to the storage and reports the last one;
  the log it sees does not change.
\<close>

lemma stable_entries_ok:
  assumes "log_inv st_inv st_first st_ents l" "u_snapshot (unstable l) = None" "u_entries (unstable l) \<noteq> []"
    and "st_inv s" "st_first s = st_first (store l)" "st_ents s = view l"
  defines "e \<equiv> last (u_entries (unstable l))"
  shows "\<exists>l'. log_stable_entries (l\<lparr>store := s\<rparr>) (e_index e) (e_term e) = Some l' \<and>
    log_inv st_inv st_first st_ents l' \<and> view l' = view l \<and> first l' = first l \<and>
    u_entries (unstable l') = [] \<and> committed l' = committed l"
proof -
  let ?u = "unstable l"
  have wf: "wf l" "persisted l < u_offset ?u" using assms(1) by (auto simp: log_inv_def)
  have u: "u_inv ?u" using wf(1) by (simp add: log_wf_def)
  have "e_index e = u_offset ?u + length (u_entries ?u) - 1"
    using contiguous_last [of e_index "u_offset ?u" "u_entries ?u"] u assms(3) by (simp add: u_inv_def e_def)
  then have idx: "Suc (e_index e) = first l + length (view l)" "u_offset ?u \<le> Suc (e_index e)"
    using view_split(2) [OF wf(1)] assms(3) by (cases "u_entries ?u"; simp)+
  have f: "first l = st_first (store l)" using assms(2) by (simp add: log_first_def)
  let ?l = "l\<lparr>store := s, unstable := ?u\<lparr>u_offset := e_index e + 1, u_entries := [], u_entries_size := 0\<rparr>\<rparr>"
  have res: "log_stable_entries (l\<lparr>store := s\<rparr>) (e_index e) (e_term e) = Some ?l"
    using assms(2,3) by (simp add: log_stable_entries_def u_stable_entries_def Let_def e_def)
  have v: "view ?l = view l" "first ?l = first l"
    using assms(2,5,6) idx f by (simp_all add: log_view_def log_first_def)
  have "log_inv st_inv st_first st_ents ?l"
    using wf assms(2,4-6) v idx f by (auto simp: log_inv_def log_wf_def u_inv_def sizes_def)
  with res v show ?thesis by auto
qed

lemma restore_ok:
  assumes "log_inv st_inv st_first st_ents l" "committed l \<le> snap_index snap"
  shows "\<exists>l'. log_restore l snap = Some l' \<and> log_inv st_inv st_first st_ents l' \<and> view l' = [] \<and>
    first l' = snap_index snap + 1 \<and> committed l' = snap_index snap \<and> persisted l' \<le> committed l \<and>
    log_term S l' (snap_index snap) = Some (Inr (snap_term snap))"
proof -
  let ?l = "(l\<lparr>persisted := min (persisted l) (committed l)\<rparr>)
    \<lparr>committed := snap_index snap, unstable := u_restore (unstable l) snap\<rparr>"
  have st: "st_inv (store l)" using assms(1) by (simp add: log_inv_def log_wf_def)
  have "log_restore l snap = Some ?l"
    using assms(2) by (cases "committed l < persisted l") (simp_all add: log_restore_def Let_def min_def)
  moreover have v: "view ?l = []" "first ?l = snap_index snap + 1"
    by (simp_all add: log_view_def log_first_def u_restore_def)
  moreover have inv: "log_inv st_inv st_first st_ents ?l"
    using st v assms(2) by (auto simp: log_inv_def log_wf_def) (simp_all add: u_restore_def)
  moreover have "log_term S ?l (snap_index snap) = Some (Inr (snap_term snap))"
  proof -
    have wf: "wf ?l" using inv by (simp add: log_inv_def)
    then have u: "u_inv (unstable ?l)" by (simp add: log_wf_def)
    show ?thesis using first_index_ok [OF wf] last_index_ok [OF wf] u_maybe_term_ok [OF u] v
      by (simp add: log_term_def u_restore_def)
  qed
  ultimately show ?thesis by auto
qed

lemma new_ok:
  assumes "st_inv s"
  shows "\<exists>l. RaftLog_new S s cfg = Some l \<and> log_inv st_inv st_first st_ents l \<and> view l = st_ents s \<and>
    first l = st_first s \<and> applied l = committed l"
proof -
  have p: "0 < st_first s" using first_pos [OF assms] .
  let ?l = "\<lparr>store = s, unstable = Unstable_new (st_first s + length (st_ents s)), committed = st_first s - 1,
     persisted = st_first s + length (st_ents s) - 1, applied = st_first s - 1,
     max_apply_unpersisted_log_limit = cfg_max_apply_unpersisted_log_limit cfg\<rparr>"
  have "RaftLog_new S s cfg = Some ?l"
    using p first_index [OF assms] last_index [OF assms] by (simp add: RaftLog_new_def)
  moreover have v: "view ?l = st_ents s" "first ?l = st_first s"
    by (simp_all add: log_view_def log_first_def Unstable_new_def)
  moreover have "log_inv st_inv st_first st_ents ?l"
    using assms p v by (auto simp: log_inv_def log_wf_def) (simp_all add: Unstable_new_def)
  ultimately show ?thesis by auto
qed

end

subsection \<open>A concrete log\<close>

text \<open>Two entries of term 1 in memory, nothing unstable, the first one committed.\<close>

definition ex_entry :: "nat \<Rightarrow> nat \<Rightarrow> Entry" where
  "ex_entry i t = Entry_default\<lparr>e_index := i, e_term := t\<rparr>"

definition ex_store :: MemStorageCore where
  "ex_store = MemStorage_new\<lparr>ms_entries := [ex_entry 1 1, ex_entry 2 1]\<rparr>"

definition ex_log :: "MemStorageCore RaftLog" where
  "ex_log = \<lparr>store = ex_store, unstable = Unstable_new 3, committed = 1, persisted = 2, applied = 0,
     max_apply_unpersisted_log_limit = 0\<rparr>"

lemma ex_entry_simps [simp]: "e_index (ex_entry i t) = i" "e_term (ex_entry i t) = t"
  by (simp_all add: ex_entry_def)

lemma ex_log_simps [simp]:
  "mem_first_index ex_store = 1" "ms_entries ex_store = [ex_entry 1 1, ex_entry 2 1]"
  "store ex_log = ex_store" "committed ex_log = 1" "persisted ex_log = 2" "applied ex_log = 0"
  "unstable ex_log = Unstable_new 3" "max_apply_unpersisted_log_limit ex_log = 0"
  by (simp_all add: ex_store_def ex_log_def mem_first_index_def)

lemma ex_log_view [simp]:
  "log_view mem_first_index ms_entries ex_log = [ex_entry 1 1, ex_entry 2 1]"
  "log_first mem_first_index ex_log = 1"
  by (simp_all add: log_view_def log_first_def Unstable_new_def)

lemma ex_store_inv [simp]: "mem_inv ex_store"
  by (simp add: mem_inv_def contiguous_Cons) (simp add: ex_store_def MemStorage_new_def SnapshotMetadata_default_def)

lemma ex_log_inv [simp]: "log_inv mem_inv mem_first_index ms_entries ex_log"
  by (simp add: log_inv_def log_wf_def) (simp add: Unstable_new_def)

lemma ex_log_wf [simp]: "log_wf mem_inv mem_first_index ms_entries ex_log"
  using ex_log_inv by (simp only: log_inv_def)

subsection \<open>Properties\<close>

text \<open>C13: a follower's append (the Log Matching rule).  On any storage that keeps its contract, for a
  well-formed log and a contiguous run of entries of positive terms after a position \<open>idx\<close> at or
  above the commit index whose term matches, \<open>maybe_append\<close> does not panic, and the position \<open>c\<close> it reports is that of the first
  entry that the log does not hold already, or 0 when it holds them all.  Afterwards every given
  entry is in the log at its position with its term.  When there is no conflict the entries of the log stay as they are,
  those beyond the message included; otherwise everything below \<open>c\<close> is untouched (so every committed entry is), and from \<open>c\<close> on
  the log consists of the given entries.  The commit index is the
  maximum of the old one and the leader's capped at the last new entry, the log is well-formed, and the persisted position
  stays unless it is at or above a conflict: then it is the one before.  On a mismatch nothing changes.\<close>

theorem maybe_append_log_matching:
  assumes "storage S st_inv st_first st_ents" "log_inv st_inv st_first st_ents l"
    and "contiguous e_index (Suc idx) ents" "\<forall>e \<in> set ents. 0 < e_term e"
    and "committed l \<le> idx" "idx < log_first st_first l + length (log_view st_first st_ents l)"
  shows "\<exists>m. log_match_term S l idx trm = Some m \<and>
    (if \<not> m then log_maybe_append S l idx trm commit ents = Some (l, None)
     else \<exists>l' c. log_maybe_append S l idx trm commit ents = Some (l', Some (c, idx + length ents)) \<and>
       first_conflict S l idx ents c \<and> log_inv st_inv st_first st_ents l' \<and>
       (\<forall>e \<in> set ents. log_match_term S l' (e_index e) (e_term e) = Some True) \<and>
       log_view st_first st_ents l' =
         (if c = 0 then log_view st_first st_ents l
          else take (c - log_first st_first l) (log_view st_first st_ents l) @ drop (c - Suc idx) ents) \<and>
       (c = 0 \<or> committed l < c) \<and>
       persisted l' = (if c = 0 then persisted l else min (persisted l) (c - 1)) \<and>
       committed l' = max (committed l) (min commit (idx + length ents)))"
proof -
  have wf: "log_wf st_inv st_first st_ents l" using assms(2) by (simp add: log_inv_def)
  obtain m where m: "log_match_term S l idx trm = Some m" using storage.match_total [OF assms(1) wf] by blast
  show ?thesis
  proof (cases m)
    case True
    have "log_match_term S l idx trm = Some True" using m True by simp
    from storage.maybe_append_ok [OF assms this, of commit] obtain l' c
      where l': "log_maybe_append S l idx trm commit ents = Some (l', Some (c, idx + length ents))"
      "log_inv st_inv st_first st_ents l'"
      "\<forall>e \<in> set ents. log_match_term S l' (e_index e) (e_term e) = Some True"
      "log_view st_first st_ents l' = (if c = 0 then log_view st_first st_ents l
          else take (c - log_first st_first l) (log_view st_first st_ents l) @ drop (c - Suc idx) ents)"
      "first_conflict S l idx ents c" "persisted l' = (if c = 0 then persisted l else min (persisted l) (c - 1))"
      "committed l' = max (committed l) (min commit (idx + length ents))"
      by blast
    have "c = 0 \<or> committed l < c" using l'(5) assms(5) by (auto simp: first_conflict_def split: if_split_asm)
    with l' show ?thesis using m True by auto
  next
    case False
    then show ?thesis using m by (intro exI [of _ False]) (simp add: log_maybe_append_def)
  qed
qed

theorem maybe_append_log_matching_witness:
  "\<exists>l'. log_maybe_append (MemStorage (\<lambda>e. 1)) ex_log 1 1 5 [ex_entry 2 2] = Some (l', Some (2, 2)) \<and>
     log_view mem_first_index ms_entries l' = [ex_entry 1 1, ex_entry 2 2] \<and> committed l' = 2"
proof -
  let ?S = "MemStorage (\<lambda>e. 1)"
  have S: "storage ?S mem_inv mem_first_index ms_entries" by (rule mem.storage_axioms)
  have m: "log_match_term ?S ex_log 1 1 = Some True" "log_match_term ?S ex_log 2 2 = Some False"
    using mem.match_iff [OF ex_log_wf, of 1 "\<lambda>e. 1" 1] mem.match_iff [OF ex_log_wf, of 2 "\<lambda>e. 1" 2] by simp_all
  obtain l' c where l': "log_maybe_append ?S ex_log 1 1 5 [ex_entry 2 2] = Some (l', Some (c, 2))"
      "log_view mem_first_index ms_entries l' =
         (if c = 0 then [ex_entry 1 1, ex_entry 2 1]
          else take (c - 1) [ex_entry 1 1, ex_entry 2 1] @ drop (c - Suc 1) [ex_entry 2 2])"
      "committed l' = 2" "first_conflict ?S ex_log 1 [ex_entry 2 2] c"
    using maybe_append_log_matching [OF S ex_log_inv, of 1 "[ex_entry 2 2]" 1 5] m
    by (auto simp: contiguous_Cons numeral_2_eq_2)
  moreover from this(4) m have "c = 2" by (auto simp: first_conflict_def split: if_split_asm)
  ultimately show ?thesis by simp
qed

text \<open>C20: for a range that is not empty and within the log, \<open>slice\<close> and the reads built on it return exactly the requested
  range of the log the reader sees, cut by \<open>limit_size\<close> as one list, although it is stitched from storage and unstable entries
  that are limited separately; the only other answer is that a caller that allows it fetches
  asynchronously.\<close>

theorem slice_exact:
  assumes "storage S st_inv st_first st_ents" "log_wf st_inv st_first st_ents l"
    and "log_first st_first l \<le> lo" "lo < hi"
    and "hi \<le> log_first st_first l + length (log_view st_first st_ents l)"
  shows "log_slice S l lo hi mx ctx =
      Some (Inr (limit_size (compute_size S)
        (take (hi - lo) (drop (lo - log_first st_first l) (log_view st_first st_ents l))) mx)) \<or>
    can_async ctx \<and> log_slice S l lo hi mx ctx = Some (Inl (Store LogTemporarilyUnavailable))"
  by (rule storage.slice_ok [OF assms])

theorem slice_exact_witness:
  "log_slice (MemStorage (\<lambda>e. 1)) ex_log 1 3 None GenReady = Some (Inr [ex_entry 1 1, ex_entry 2 1])"
  using slice_exact [OF mem.storage_axioms ex_log_wf, of 1 3 "\<lambda>e. 1" None GenReady]
  by (simp add: can_async_def limit_size_def)

text \<open>C22: for a range within the log, a reader that does not fetch asynchronously and a callback that always asks for more,
  \<open>scan\<close> delivers every entry of the range exactly once and in order, whatever the page size
  (a page is never empty, so it ends).\<close>

theorem scan_visits_range:
  assumes "storage S st_inv st_first st_ents" "log_wf st_inv st_first st_ents l"
    and "log_first st_first l \<le> lo" "lo \<le> hi"
    and "hi \<le> log_first st_first l + length (log_view st_first st_ents l)" "\<not> can_async ctx"
  shows "log_scan S l lo hi page ctx (\<lambda>ents acc. (acc @ ents, True)) acc =
    Some (acc @ take (hi - lo) (drop (lo - log_first st_first l) (log_view st_first st_ents l)), Inr ())"
  by (rule storage.scan_ok [OF assms])

theorem scan_visits_range_witness:
  "log_scan (MemStorage (\<lambda>e. 1)) ex_log 1 3 0 CommitByVote (\<lambda>ents acc. (acc @ ents, True)) [] =
     Some ([ex_entry 1 1, ex_entry 2 1], Inr ())"
  using scan_visits_range [OF mem.storage_axioms ex_log_wf, of 1 3 CommitByVote "\<lambda>e. 1" 0 "[]"]
  by (simp add: can_async_def)

text \<open>C21: the entries handed out for application start right after \<open>since\<close> (or at the first index),
  are consecutive, non-empty when announced, and never go beyond the commit index nor beyond the
  persisted index plus the configured slack; \<open>has_next_entries_since\<close> announces them exactly.\<close>

theorem next_entries_committed:
  assumes "storage S st_inv st_first st_ents" "log_wf st_inv st_first st_ents l"
  shows "\<exists>r. next_entries_since S l since mx = Some r \<and>
    has_next_entries_since S l since = Some (r \<noteq> None) \<and>
    (case r of None \<Rightarrow> True
     | Some es \<Rightarrow> es \<noteq> [] \<and>
        contiguous e_index (max (since + 1) (log_first st_first l)) es \<and>
        (\<forall>e \<in> set es. e_index e \<le> committed l \<and>
           e_index e \<le> persisted l + max_apply_unpersisted_log_limit l))"
  by (rule storage.next_entries_bounds [OF assms])

theorem next_entries_committed_witness:
  "next_entries_since (MemStorage (\<lambda>e. 1)) ex_log 0 None = Some (Some [ex_entry 1 1])"
proof -
  have "\<exists>r. next_entries_since (MemStorage (\<lambda>e. 1)) ex_log 0 None = Some r \<and>
      has_next_entries_since (MemStorage (\<lambda>e. 1)) ex_log 0 = Some (r \<noteq> None)"
    using next_entries_committed [OF mem.storage_axioms ex_log_wf, of "\<lambda>e. 1" 0 None] by blast
  then show ?thesis
    using mem.next_entries_ok [OF ex_log_wf, of "\<lambda>e. 1" 0 None]
    by (simp add: applied_index_upper_bound_def limit_size_def)
qed

text \<open>\<open>find_conflict_by_term\<close> always returns, with the largest position at or below \<open>idx\<close> whose
  term is known to be at most \<open>trm\<close> or is compacted: every position above it carries a larger term.
  The proviso is that position 0 has no term above \<open>trm\<close>, as in a log that starts at 1.\<close>

theorem find_conflict_by_term_largest:
  assumes "storage S st_inv st_first st_ents" "log_wf st_inv st_first st_ents l"
    and "idx < log_first st_first l + length (log_view st_first st_ents l)"
    and "\<And>t. log_term S l 0 = Some (Inr t) \<Longrightarrow> t \<le> trm"
  shows "\<exists>j ot. find_conflict_by_term S l idx trm = Some (j, ot) \<and> j \<le> idx \<and>
    (\<forall>k. j < k \<and> k \<le> idx \<longrightarrow> (\<exists>t. log_term S l k = Some (Inr t) \<and> trm < t)) \<and>
    (case ot of
       Some t \<Rightarrow> log_term S l j = Some (Inr t) \<and> t \<le> trm
     | None \<Rightarrow> \<exists>e. log_term S l j = Some (Inl e))"
proof -
  have "log_last_index S l = Some (log_first st_first l + length (log_view st_first st_ents l) - 1)"
    by (rule storage.last_index_ok [OF assms(1,2)])
  then have "find_conflict_by_term S l idx trm = conflict_loop S l trm idx"
    using assms(3) by (auto simp: find_conflict_by_term_def)
  then show ?thesis using storage.conflict_loop_ok [OF assms(1,2,4)] by simp
qed

text \<open>\<open>maybe_commit\<close> moves the commit index exactly when the given position is above it and holds
  an entry of the given term, then to that position, and never otherwise: the commit index never
  decreases, never leaves the log, and the log itself is unchanged.\<close>

theorem maybe_commit_exact:
  assumes "storage S st_inv st_first st_ents" "log_wf st_inv st_first st_ents l" "0 < trm"
  shows "\<exists>l' b. log_maybe_commit S l mi trm = Some (l', b) \<and> log_wf st_inv st_first st_ents l' \<and>
    log_view st_first st_ents l' = log_view st_first st_ents l \<and> committed l \<le> committed l' \<and>
    (b \<longleftrightarrow> committed l < mi \<and> log_match_term S l mi trm = Some True) \<and>
    committed l' = (if b then mi else committed l)"
  using storage.maybe_commit_ok [OF assms, of mi] by (auto split: if_splits)

text \<open>C24: persisting the unstable entries is invisible to readers.  When the application has written
  them to its storage and reports the last one, \<open>stable_entries\<close> does not panic, empties the
  unstable log and leaves the sequence of entries, its start and the commit index as they were.\<close>

theorem stable_entries_keep_log:
  assumes "storage S st_inv st_first st_ents" "log_inv st_inv st_first st_ents l"
    and "u_snapshot (unstable l) = None" "u_entries (unstable l) \<noteq> []"
    and "st_inv s" "st_first s = st_first (store l)" "st_ents s = log_view st_first st_ents l"
  shows "\<exists>l'. log_stable_entries (l\<lparr>store := s\<rparr>) (e_index (last (u_entries (unstable l))))
      (e_term (last (u_entries (unstable l)))) = Some l' \<and>
    log_inv st_inv st_first st_ents l' \<and> u_entries (unstable l') = [] \<and>
    log_view st_first st_ents l' = log_view st_first st_ents l \<and>
    log_first st_first l' = log_first st_first l \<and> committed l' = committed l"
  using storage.stable_entries_ok [OF assms] by blast

theorem stable_entries_keep_log_witness:
  "\<exists>l l'. u_entries (unstable l) = [ex_entry 3 1] \<and>
     log_stable_entries (l\<lparr>store := ex_store\<lparr>ms_entries := [ex_entry 1 1, ex_entry 2 1, ex_entry 3 1]\<rparr>\<rparr>) 3 1
       = Some l' \<and> u_entries (unstable l') = []"
proof -
  let ?l = "ex_log\<lparr>unstable := \<lparr>u_snapshot = None, u_entries = [ex_entry 3 1],
    u_entries_size = sizes [ex_entry 3 1], u_offset = 3\<rparr>\<rparr>"
  let ?s = "ex_store\<lparr>ms_entries := [ex_entry 1 1, ex_entry 2 1, ex_entry 3 1]\<rparr>"
  have v: "log_view mem_first_index ms_entries ?l = [ex_entry 1 1, ex_entry 2 1, ex_entry 3 1]"
      "log_first mem_first_index ?l = 1"
    by (simp_all add: log_view_def log_first_def)
  have s: "mem_first_index ?s = 1" by (simp add: mem_first_index_def)
  have ms: "mem_inv ?s" using ex_store_inv s unfolding mem_inv_def by (simp add: contiguous_Cons)
  have inv: "log_inv mem_inv mem_first_index ms_entries ?l"
    using v by (simp add: log_inv_def log_wf_def u_inv_def contiguous_Cons)
  have pre: "u_snapshot (unstable ?l) = None" "u_entries (unstable ?l) \<noteq> []"
      "mem_first_index ?s = mem_first_index (store ?l)" "ms_entries ?s = log_view mem_first_index ms_entries ?l"
    unfolding s v(1) by simp_all
  have "e_index (last (u_entries (unstable ?l))) = 3" "e_term (last (u_entries (unstable ?l))) = 1" by simp_all
  then obtain l' where "log_stable_entries (?l\<lparr>store := ?s\<rparr>) 3 1 = Some l'" "u_entries (unstable l') = []"
    using stable_entries_keep_log [OF mem.storage_axioms inv pre(1,2) ms pre(3,4)] by metis
  then show ?thesis by (intro exI [of _ ?l] exI [of _ l']) simp
qed

end
