(* ===== verification/Raft_Core.thy ===== *)
theory Raft_Core
  imports Confchange Raft_Log Read_Only
begin

text \<open>
  \<^verbatim>\<open>src/raft.rs\<close>, first part: the state of a node and everything that sends messages.

  \<^verbatim>\<open>Raft\<close> dereferences to its \<^verbatim>\<open>RaftCore\<close>, so the fields of both are fields of one record, with the
  prefix \<open>r_\<close>.  The methods of \<^verbatim>\<open>RaftCore\<close> read the node and change a progress and the outgoing
  messages, which they take and return.  Logging is left out, and so are the debug assertions, which
  a release build does not check.

  The environment \<open>E\<close> is the storage trait together with what the code takes from other crates: the
  random number drawn for an election timeout, and the decoding of configuration changes.
\<close>

record 's Env = "'s Storage" +
  random_range :: "nat \<Rightarrow> nat \<Rightarrow> nat"
  merge_ConfChange :: "bytes \<Rightarrow> ConfChange option"
  merge_ConfChangeV2 :: "bytes \<Rightarrow> ConfChangeV2 option"

definition CAMPAIGN_PRE_ELECTION :: bytes where
  "CAMPAIGN_PRE_ELECTION = ''CampaignPreElection''"

definition CAMPAIGN_ELECTION :: bytes where
  "CAMPAIGN_ELECTION = ''CampaignElection''"

definition CAMPAIGN_TRANSFER :: bytes where
  "CAMPAIGN_TRANSFER = ''CampaignTransfer''"

datatype StateRole = Follower | Candidate | Leader | PreCandidate

record SoftState =
  ss_leader_id :: nat
  ss_raft_state :: StateRole

subsection \<open>The size of uncommitted entries\<close>

record UncommittedState =
  max_uncommitted_size :: nat
  uncommitted_size :: nat
  last_log_tail_index :: nat

definition is_no_limit :: "UncommittedState \<Rightarrow> bool" where
  "is_no_limit u \<longleftrightarrow> max_uncommitted_size u = NO_LIMIT"

definition data_size :: "Entry list \<Rightarrow> nat" where
  "data_size ents = sum_list (map (\<lambda>e. length (e_data e)) ents)"

definition us_maybe_increase :: "UncommittedState \<Rightarrow> Entry list \<Rightarrow> UncommittedState \<times> bool" where
  "us_maybe_increase u ents =
     (if is_no_limit u then (u, True)
      else let sz = data_size ents
           in if sz = 0 \<or> uncommitted_size u = 0 \<or> sz + uncommitted_size u \<le> max_uncommitted_size u
              then (u\<lparr>uncommitted_size := uncommitted_size u + sz\<rparr>, True)
              else (u, False))"

definition us_maybe_reduce :: "UncommittedState \<Rightarrow> Entry list \<Rightarrow> UncommittedState \<times> bool" where
  "us_maybe_reduce u ents =
     (if is_no_limit u \<or> ents = [] then (u, True)
      else let sz = data_size (dropWhile (\<lambda>e. e_index e \<le> last_log_tail_index u) ents)
           in if uncommitted_size u < sz then (u\<lparr>uncommitted_size := 0\<rparr>, False)
              else (u\<lparr>uncommitted_size := uncommitted_size u - sz\<rparr>, True))"

subsection \<open>The node\<close>

record 's Raft =
  r_prs :: ProgressTracker
  r_msgs :: "Message list"
  r_witness_msgs :: "WitnessMessage list"
  r_term :: nat
  r_vote :: nat
  r_id :: nat
  r_read_states :: "ReadState list"
  r_log :: "'s RaftLog"
  r_max_inflight :: nat
  r_max_msg_size :: nat
  r_pending_request_snapshot :: nat
  r_state :: StateRole
  r_promotable :: bool
  r_leader_id :: nat
  r_lead_transferee :: "nat option"
  r_pending_conf_index :: nat
  r_read_only :: ReadOnly
  r_election_elapsed :: nat
  r_heartbeat_elapsed :: nat
  r_check_quorum :: bool
  r_pre_vote :: bool
  r_skip_bcast_commit :: bool
  r_batch_append :: bool
  r_disable_proposal_forwarding :: bool
  r_heartbeat_timeout :: nat
  r_election_timeout :: nat
  r_randomized_election_timeout :: nat
  r_min_election_timeout :: nat
  r_max_election_timeout :: nat
  r_priority :: int
  r_uncommitted_state :: UncommittedState
  r_max_committed_size_per_ready :: nat

definition new_message :: "nat \<Rightarrow> MessageType \<Rightarrow> nat option \<Rightarrow> Message" where
  "new_message to field_type from =
     Message_default\<lparr>m_to := to, m_from := (case from of Some i \<Rightarrow> i | None \<Rightarrow> m_from Message_default),
       msg_type := field_type\<rparr>"

definition i64_MAX :: int where
  "i64_MAX = 2 ^ 63 - 1"

definition get_priority :: "Message \<Rightarrow> int" where
  "get_priority m =
     (if m_priority m \<noteq> 0 then m_priority m
      else if int (m_deprecated_priority m) \<le> i64_MAX then int (m_deprecated_priority m) else i64_MAX)"

definition vote_resp_msg_type :: "MessageType \<Rightarrow> MessageType panics" where
  "vote_resp_msg_type t = (case t of
     MsgRequestVote \<Rightarrow> Some MsgRequestVoteResponse
   | MsgRequestPreVote \<Rightarrow> Some MsgRequestPreVoteResponse
   | _ \<Rightarrow> None)"

definition soft_state :: "'s Raft \<Rightarrow> SoftState" where
  "soft_state r = \<lparr>ss_leader_id = r_leader_id r, ss_raft_state = r_state r\<rparr>"

definition hard_state :: "'s Raft \<Rightarrow> HardState" where
  "hard_state r = \<lparr>hs_term = r_term r, hs_vote = r_vote r, hs_commit = committed (r_log r)\<rparr>"

definition in_lease :: "'s Raft \<Rightarrow> bool" where
  "in_lease r \<longleftrightarrow> r_state r = Leader \<and> r_check_quorum r"

definition set_randomized_election_timeout :: "'s Raft \<Rightarrow> nat \<Rightarrow> 's Raft panics" where
  "set_randomized_election_timeout r t = do {
     ensure (r_min_election_timeout r \<le> t \<and> t < r_max_election_timeout r);
     Some (r\<lparr>r_randomized_election_timeout := t\<rparr>)
   }"

text \<open>The settings that may change at run time.\<close>

definition set_priority :: "'s Raft \<Rightarrow> int \<Rightarrow> 's Raft" where
  "set_priority r p = r\<lparr>r_priority := p\<rparr>"

definition skip_bcast_commit :: "'s Raft \<Rightarrow> bool \<Rightarrow> 's Raft" where
  "skip_bcast_commit r b = r\<lparr>r_skip_bcast_commit := b\<rparr>"

definition set_batch_append :: "'s Raft \<Rightarrow> bool \<Rightarrow> 's Raft" where
  "set_batch_append r b = r\<lparr>r_batch_append := b\<rparr>"

definition set_max_committed_size_per_ready :: "'s Raft \<Rightarrow> nat \<Rightarrow> 's Raft" where
  "set_max_committed_size_per_ready r n = r\<lparr>r_max_committed_size_per_ready := n\<rparr>"

definition set_check_quorum :: "'s Raft \<Rightarrow> bool \<Rightarrow> 's Raft" where
  "set_check_quorum r b = r\<lparr>r_check_quorum := b\<rparr>"

definition set_max_apply_unpersisted_log_limit :: "'s Raft \<Rightarrow> nat \<Rightarrow> 's Raft" where
  "set_max_apply_unpersisted_log_limit r n = r\<lparr>r_log := (r_log r)\<lparr>max_apply_unpersisted_log_limit := n\<rparr>\<rparr>"

definition raft_has_witness :: "'s Raft \<Rightarrow> bool" where
  "raft_has_witness r \<longleftrightarrow>
     fst (witnesses (conf (r_prs r))) \<noteq> 0 \<or> snd (witnesses (conf (r_prs r))) \<noteq> 0"

definition has_pending_conf :: "'s Raft \<Rightarrow> bool" where
  "has_pending_conf r \<longleftrightarrow> applied (r_log r) < r_pending_conf_index r"

definition should_bcast_commit :: "'s Raft \<Rightarrow> bool" where
  "should_bcast_commit r \<longleftrightarrow> \<not> r_skip_bcast_commit r \<or> has_pending_conf r"

definition term_is :: "(Error + nat) \<Rightarrow> nat \<Rightarrow> bool" where
  "term_is res t = (case res of Inr t' \<Rightarrow> t' = t | Inl _ \<Rightarrow> False)"

definition commit_to_current_term :: "('s, 'm) Storage_scheme \<Rightarrow> 's Raft \<Rightarrow> bool panics" where
  "commit_to_current_term E r = do {
     res \<leftarrow> log_term E (r_log r) (committed (r_log r));
     Some (term_is res (r_term r))
   }"

definition apply_to_current_term :: "('s, 'm) Storage_scheme \<Rightarrow> 's Raft \<Rightarrow> bool panics" where
  "apply_to_current_term E r = do {
     res \<leftarrow> log_term E (r_log r) (applied (r_log r));
     Some (term_is res (r_term r))
   }"

definition set_progress :: "nat \<Rightarrow> Progress \<Rightarrow> 's Raft \<Rightarrow> 's Raft" where
  "set_progress i pr r = r\<lparr>r_prs := (r_prs r)\<lparr>progress := hm_insert i pr (progress (r_prs r))\<rparr>\<rparr>"

definition get_progress :: "'s Raft \<Rightarrow> nat \<Rightarrow> Progress option" where
  "get_progress r i = map_of (progress (r_prs r)) i"

subsection \<open>Sending\<close>

definition is_vote_msg :: "MessageType \<Rightarrow> bool" where
  "is_vote_msg t \<longleftrightarrow> t = MsgRequestVote \<or> t = MsgRequestPreVote \<or> t = MsgRequestVoteResponse \<or>
     t = MsgRequestPreVoteResponse"

definition core_send :: "'s Raft \<Rightarrow> Message \<Rightarrow> Message list \<Rightarrow> Message list panics" where
  "core_send r m msgs = do {
     let m = (if m_from m = INVALID_ID then m\<lparr>m_from := r_id r\<rparr> else m);
     m \<leftarrow> (if is_vote_msg (msg_type m)
          then do { ensure (m_term m \<noteq> 0); Some m }
          else do {
            ensure (m_term m = 0);
            Some (if msg_type m \<noteq> MsgPropose \<and> msg_type m \<noteq> MsgReadIndex
                  then m\<lparr>m_term := r_term r\<rparr> else m)
          });
     let m = (if msg_type m = MsgRequestVote \<or> msg_type m = MsgRequestPreVote
              then (let m = (if 0 < r_priority r then m\<lparr>m_deprecated_priority := nat (r_priority r)\<rparr> else m)
                    in m\<lparr>m_priority := r_priority r\<rparr>)
              else m);
     Some (msgs @ [m])
   }"

definition prepare_send_snapshot ::
  "('s, 'm) Storage_scheme \<Rightarrow> 's Raft \<Rightarrow> Message \<Rightarrow> Progress \<Rightarrow> nat \<Rightarrow> (Message \<times> Progress \<times> bool) panics" where
  "prepare_send_snapshot E r m pr to =
     (if \<not> recent_active pr then Some (m, pr, False)
      else do {
        let m = m\<lparr>msg_type := MsgSnapshot\<rparr>;
        snapshot_r \<leftarrow> log_snapshot E (r_log r) (pending_request_snapshot pr) to;
        case snapshot_r of
          Inl e \<Rightarrow> if e = Store SnapshotTemporarilyUnavailable then Some (m, pr, False) else None
        | Inr snap \<Rightarrow> do {
            ensure (snap_index snap \<noteq> 0);
            let m = m\<lparr>m_snapshot := snap\<rparr>;
            Some (m, become_snapshot pr (snap_index snap), True)
          }
      })"

definition prepare_send_entries ::
  "'s Raft \<Rightarrow> Message \<Rightarrow> Progress \<Rightarrow> nat \<Rightarrow> Entry list \<Rightarrow> (Message \<times> Progress) panics" where
  "prepare_send_entries r m pr trm ents = do {
     prev \<leftarrow> sub (next_idx pr) 1;
     let m = m\<lparr>msg_type := MsgAppend, m_index := prev, m_log_term := trm, m_entries := ents,
               m_commit := committed (r_log r)\<rparr>;
     if m_entries m \<noteq> []
     then do { pr \<leftarrow> update_state pr (e_index (last (m_entries m))); Some (m, pr) }
     else Some (m, pr)
   }"

text \<open>\<open>try_batching\<close> stops at the first append to the same peer; \<open>ents\<close> is consumed only on success.\<close>

fun try_batching ::
  "'s Raft \<Rightarrow> nat \<Rightarrow> Message list \<Rightarrow> Progress \<Rightarrow> Entry list \<Rightarrow> (Message list \<times> Progress \<times> bool) panics" where
  "try_batching r to [] pr ents = Some ([], pr, False)"
| "try_batching r to (msg # msgs) pr ents =
     (if msg_type msg = MsgAppend \<and> m_to msg = to
      then if ents \<noteq> []
           then if \<not> is_continuous_ents msg ents then Some (msg # msgs, pr, False)
                else do {
                  let msg = msg\<lparr>m_entries := m_entries msg @ ents\<rparr>;
                  pr \<leftarrow> update_state pr (e_index (last (m_entries msg)));
                  Some (msg\<lparr>m_commit := committed (r_log r)\<rparr> # msgs, pr, True)
                }
           else Some (msg\<lparr>m_commit := committed (r_log r)\<rparr> # msgs, pr, True)
      else do {
        (msgs, pr, b) \<leftarrow> try_batching r to msgs pr ents;
        Some (msg # msgs, pr, b)
      })"

text \<open>The end of \<open>maybe_send_append\<close> on the snapshot path.\<close>

definition send_snapshot ::
  "('s, 'm) Storage_scheme \<Rightarrow> 's Raft \<Rightarrow> nat \<Rightarrow> Progress \<Rightarrow> Message list \<Rightarrow> (Progress \<times> Message list \<times> bool) panics" where
  "send_snapshot E r to pr msgs = do {
     (m, pr, ok) \<leftarrow> prepare_send_snapshot E r (Message_default\<lparr>m_to := to\<rparr>) pr to;
     if \<not> ok then Some (pr, msgs, False)
     else do { msgs \<leftarrow> core_send r m msgs; Some (pr, msgs, True) }
   }"

definition core_maybe_send_append ::
  "('s, 'm) Storage_scheme \<Rightarrow> 's Raft \<Rightarrow> nat \<Rightarrow> Progress \<Rightarrow> bool \<Rightarrow> Message list \<Rightarrow>
    (Progress \<times> Message list \<times> bool) panics" where
  "core_maybe_send_append E r to pr allow_empty msgs =
     (if is_paused pr \<or> is_witness pr then Some (pr, msgs, False)
      else if pending_request_snapshot pr \<noteq> INVALID_INDEX then send_snapshot E r to pr msgs
      else do {
        ents \<leftarrow> log_entries E (r_log r) (next_idx pr) (Some (r_max_msg_size r))
                 (SendAppend to (r_term r) (\<not> allow_empty));
        if \<not> allow_empty \<and> (case ents of Inl _ \<Rightarrow> True | Inr es \<Rightarrow> es = [])
        then Some (pr, msgs, False)
        else do {
          prev \<leftarrow> sub (next_idx pr) 1;
          trm \<leftarrow> log_term E (r_log r) prev;
          case (trm, ents) of
            (Inr trm, Inr ents) \<Rightarrow> do {
              (msgs, pr, batched) \<leftarrow>
                (if r_batch_append r then try_batching r to msgs pr ents else Some (msgs, pr, False));
              if batched then Some (pr, msgs, True)
              else do {
                (m, pr) \<leftarrow> prepare_send_entries r (Message_default\<lparr>m_to := to\<rparr>) pr trm ents;
                msgs \<leftarrow> core_send r m msgs;
                Some (pr, msgs, True)
              }
            }
          | (_, Inl (Store LogTemporarilyUnavailable)) \<Rightarrow> Some (pr, msgs, False)
          | _ \<Rightarrow> send_snapshot E r to pr msgs
        }
      })"

definition core_send_append ::
  "('s, 'm) Storage_scheme \<Rightarrow> 's Raft \<Rightarrow> nat \<Rightarrow> Progress \<Rightarrow> Message list \<Rightarrow> (Progress \<times> Message list) panics" where
  "core_send_append E r to pr msgs = do {
     (pr, msgs, _) \<leftarrow> core_maybe_send_append E r to pr True msgs;
     Some (pr, msgs)
   }"

text \<open>\<open>while self.maybe_send_append(to, pr, false, msgs) {}\<close>; \<open>None\<close> also when it does not end.\<close>

partial_function (option) core_send_append_aggressively ::
  "('s, 'm) Storage_scheme \<Rightarrow> 's Raft \<Rightarrow> nat \<Rightarrow> Progress \<Rightarrow> Message list \<Rightarrow> (Progress \<times> Message list) panics" where
  "core_send_append_aggressively E r to pr msgs =
     Option.bind (core_maybe_send_append E r to pr False msgs)
       (\<lambda>(pr, msgs, b). if b then core_send_append_aggressively E r to pr msgs else Some (pr, msgs))"

declare core_send_append_aggressively.simps [code]

definition core_send_heartbeat ::
  "'s Raft \<Rightarrow> nat \<Rightarrow> Progress \<Rightarrow> bytes option \<Rightarrow> Message list \<Rightarrow> Message list panics" where
  "core_send_heartbeat r to pr ctx msgs =
     core_send r (Message_default\<lparr>m_to := to, msg_type := MsgHeartbeat,
       m_commit := min (matched pr) (committed (r_log r)),
       m_context := (case ctx of Some c \<Rightarrow> c | None \<Rightarrow> m_context Message_default)\<rparr>) msgs"

definition raft_send :: "'s Raft \<Rightarrow> Message \<Rightarrow> 's Raft panics" where
  "raft_send r m = do {
     msgs \<leftarrow> core_send r m (r_msgs r);
     Some (r\<lparr>r_msgs := msgs\<rparr>)
   }"

definition raft_send_append :: "('s, 'm) Storage_scheme \<Rightarrow> 's Raft \<Rightarrow> nat \<Rightarrow> 's Raft panics" where
  "raft_send_append E r to = do {
     pr \<leftarrow> get_progress r to;
     (pr, msgs) \<leftarrow> core_send_append E r to pr (r_msgs r);
     Some (set_progress to pr (r\<lparr>r_msgs := msgs\<rparr>))
   }"

definition raft_maybe_send_append :: "('s, 'm) Storage_scheme \<Rightarrow> bool \<Rightarrow> 's Raft \<Rightarrow> nat \<Rightarrow> 's Raft panics" where
  "raft_maybe_send_append E allow_empty r to = do {
     pr \<leftarrow> get_progress r to;
     (pr, msgs, _) \<leftarrow> core_maybe_send_append E r to pr allow_empty (r_msgs r);
     Some (set_progress to pr (r\<lparr>r_msgs := msgs\<rparr>))
   }"

definition raft_send_append_aggressively :: "('s, 'm) Storage_scheme \<Rightarrow> 's Raft \<Rightarrow> nat \<Rightarrow> 's Raft panics" where
  "raft_send_append_aggressively E r to = do {
     pr \<leftarrow> get_progress r to;
     (pr, msgs) \<leftarrow> core_send_append_aggressively E r to pr (r_msgs r);
     Some (set_progress to pr (r\<lparr>r_msgs := msgs\<rparr>))
   }"

text \<open>The peers in the iteration order of the progress map.\<close>

definition peers :: "'s Raft \<Rightarrow> nat list" where
  "peers r = filter (\<lambda>i. i \<noteq> r_id r) (keys (progress (r_prs r)))"

definition bcast_append :: "('s, 'm) Storage_scheme \<Rightarrow> 's Raft \<Rightarrow> 's Raft panics" where
  "bcast_append E r = foldM (\<lambda>i r. raft_send_append E r i) (peers r) r"

definition send_timeout_now :: "'s Raft \<Rightarrow> nat \<Rightarrow> 's Raft panics" where
  "send_timeout_now r to = raft_send r (new_message to MsgTimeoutNow None)"

definition send_request_snapshot :: "('s, 'm) Storage_scheme \<Rightarrow> 's Raft \<Rightarrow> 's Raft panics" where
  "send_request_snapshot E r = do {
     last_index \<leftarrow> log_last_index E (r_log r);
     res \<leftarrow> log_term E (r_log r) last_index;
     t \<leftarrow> unwrap res;
     raft_send r (Message_default\<lparr>msg_type := MsgAppendResponse, m_index := committed (r_log r),
       m_reject := True, m_reject_hint := last_index, m_to := r_leader_id r,
       m_request_snapshot := r_pending_request_snapshot r, m_log_term := t\<rparr>)
   }"

subsection \<open>Reads\<close>

definition handle_ready_read_index :: "'s Raft \<Rightarrow> Message \<Rightarrow> nat \<Rightarrow> ('s Raft \<times> Message option) panics" where
  "handle_ready_read_index r req idx =
     (if m_from req = INVALID_ID \<or> m_from req = r_id r
      then do {
        e0 \<leftarrow> index (m_entries req) 0;
        Some (r\<lparr>r_read_states := r_read_states r @ [\<lparr>rd_index = idx, rd_request_ctx = e_data e0\<rparr>]\<rparr>, None)
      }
      else Some (r, Some (Message_default\<lparr>msg_type := MsgReadIndexResp, m_to := m_from req, m_index := idx,
        m_entries := m_entries req\<rparr>)))"

definition ready_read :: "'s Raft \<Rightarrow> Message \<Rightarrow> nat \<Rightarrow> 's Raft panics" where
  "ready_read r req idx = do {
     (r, om) \<leftarrow> handle_ready_read_index r req idx;
     case om of Some m \<Rightarrow> raft_send r m | None \<Rightarrow> Some r
   }"

definition advance_reads :: "'s Raft \<Rightarrow> bytes \<Rightarrow> 's Raft panics" where
  "advance_reads r ctx = do {
     (ro, rss) \<leftarrow> advance (r_read_only r) ctx;
     foldM (\<lambda>rs r. ready_read r (ris_req rs) (ris_index rs)) rss (r\<lparr>r_read_only := ro\<rparr>)
   }"

text \<open>The loop over the witnesses, which count as having acknowledged a read.\<close>

fun witness_read_acks :: "'s Raft \<Rightarrow> bytes \<Rightarrow> nat list \<Rightarrow> 's Raft panics" where
  "witness_read_acks r ctx [] = Some r"
| "witness_read_acks r ctx (w # ws) =
     (case recv_ack (r_read_only r) w ctx of (ro, acks) \<Rightarrow>
        let r = r\<lparr>r_read_only := ro\<rparr>;
            reached = (case acks of Some a \<Rightarrow> has_quorum (r_prs r) a | None \<Rightarrow> False)
        in if reached then advance_reads r ctx else witness_read_acks r ctx ws)"

definition bcast_heartbeat_with_ctx :: "'s Raft \<Rightarrow> bytes option \<Rightarrow> 's Raft panics" where
  "bcast_heartbeat_with_ctx r ctx = do {
     r \<leftarrow> foldM (\<lambda>i r. do {
              pr \<leftarrow> get_progress r i;
              if is_witness pr then Some r
              else do { msgs \<leftarrow> core_send_heartbeat r i pr ctx (r_msgs r); Some (r\<lparr>r_msgs := msgs\<rparr>) }
            }) (peers r) r;
     case ctx of
       None \<Rightarrow> Some r
     | Some c \<Rightarrow> witness_read_acks r c
         (filter (\<lambda>w. w \<noteq> 0) [fst (witnesses (conf (r_prs r))), snd (witnesses (conf (r_prs r)))])
   }"

definition bcast_heartbeat :: "'s Raft \<Rightarrow> 's Raft panics" where
  "bcast_heartbeat r = bcast_heartbeat_with_ctx r (last_pending_request_ctx (r_read_only r))"

definition ping :: "'s Raft \<Rightarrow> 's Raft panics" where
  "ping r = (if r_state r = Leader then bcast_heartbeat r else Some r)"

end
