(* ===== verification/Raft_Election.thy ===== *)
theory Raft_Election
  imports Raft_Core
begin

text \<open>
  \<^verbatim>\<open>src/raft.rs\<close>, second part: committing, persisting, subterms and witnesses, the role changes and
  the election.
\<close>

fun put :: "'a \<times> 'a \<Rightarrow> nat \<Rightarrow> 'a \<Rightarrow> 'a \<times> 'a" where
  "put (a, b) i v = (if i = 0 then (v, b) else (a, v))"

subsection \<open>Witnesses\<close>

definition witness_config_half :: "'s Raft \<Rightarrow> nat \<Rightarrow> nat option" where
  "witness_config_half r witness_id =
     find (\<lambda>i. repl_witness (pick (replication_sets (epoch (r_prs r))) i) = witness_id) [0, 1]"

definition send_append_to_witness ::
  "('s, 'm) Storage_scheme \<Rightarrow> 's Raft \<Rightarrow> nat \<Rightarrow> ('s Raft \<times> bool) panics" where
  "send_append_to_witness E r witness_id = do {
     log_first \<leftarrow> log_first_index E (r_log r);
     let nxt = max (case get_progress r witness_id of Some pr \<Rightarrow> matched pr + 1 | None \<Rightarrow> 1) log_first;
     entries \<leftarrow> log_entries E (r_log r) nxt (Some NO_LIMIT) (SendAppend witness_id (r_term r) False);
     case entries of
       Inl e \<Rightarrow> Some (r, False)
     | Inr [] \<Rightarrow> Some (r, False)
     | Inr (fst_e # rest) \<Rightarrow> do {
         (_, commit_term) \<leftarrow> commit_info E (r_log r);
         let ep = epoch (r_prs r);
         let msg = WitnessMessage_default\<lparr>wm_from := r_id r, wm_to := witness_id, wm_msg_type := MsgAppend,
           wm_term := r_term r, wm_last_log_term := e_term fst_e, wm_last_log_subterm := e_subterm fst_e,
           wm_last_log_index := e_index fst_e,
           wm_replication_set_incoming := non_witness_voters (fst (replication_sets ep)),
           wm_replication_set_outgoing := non_witness_voters (snd (replication_sets ep)),
           wm_entries := fst_e # rest, wm_commit := committed (r_log r), wm_commit_term := commit_term,
           wm_commit_subterm := subterm ep\<rparr>;
         Some (r\<lparr>r_witness_msgs := r_witness_msgs r @ [msg]\<rparr>, True)
       }
   }"

definition send_request_vote_to_witness ::
  "('s, 'm) Storage_scheme \<Rightarrow> 's Raft \<Rightarrow> nat \<Rightarrow> MessageType \<Rightarrow> nat \<Rightarrow> 's Raft panics" where
  "send_request_vote_to_witness E r witness_id vote_msg_type trm = do {
     last_index \<leftarrow> log_last_index E (r_log r);
     last_term \<leftarrow> log_last_term E (r_log r);
     ents \<leftarrow> log_entries E (r_log r) last_index (Some 1) (Empty False);
     let last_subterm = (case ents of Inr (e # _) \<Rightarrow> e_subterm e | _ \<Rightarrow> 0);
     (_, commit_term) \<leftarrow> commit_info E (r_log r);
     let msg = WitnessMessage_default\<lparr>wm_from := r_id r, wm_to := witness_id, wm_msg_type := vote_msg_type,
       wm_term := trm, wm_last_log_term := last_term, wm_last_log_subterm := last_subterm,
       wm_commit := committed (r_log r), wm_commit_term := commit_term, wm_commit_subterm := 0,
       wm_vote_ids := map fst (votes (r_prs r)), wm_vote_vals := map snd (votes (r_prs r))\<rparr>;
     Some (r\<lparr>r_witness_msgs := r_witness_msgs r @ [msg]\<rparr>)
   }"

definition get_witness_vote_request_readiness :: "'s Raft \<Rightarrow> nat \<times> nat \<Rightarrow> (nat, bool) hmap" where
  "get_witness_vote_request_readiness r votes_to_win =
     (let v1 = fst votes_to_win; v2 = snd votes_to_win;
          w1 = fst (witnesses (conf (r_prs r))); w2 = snd (witnesses (conf (r_prs r)))
      in if 1 < v1 \<and> 1 < v2 then []
         else if w1 = 0 \<and> w2 = 0 then []
         else if w1 = w2 then [(w1, (v1 = 1 \<and> v2 \<le> 1) \<or> (v1 \<le> 1 \<and> v2 = 1))]
         else (let result = (if 0 < w1 then hm_insert w1 (v1 = 1) [] else [])
               in if 0 < w2 then hm_insert w2 (v2 = 1) result else result))"

subsection \<open>Committing\<close>

text \<open>One witness of the loop of \<open>maybe_commit\<close>.\<close>

definition contact_witness ::
  "('s, 'm) Storage_scheme \<Rightarrow> nat \<Rightarrow> nat \<times> nat \<Rightarrow> 's Raft \<Rightarrow> 's Raft panics" where
  "contact_witness E current_subterm wi r = (case wi of (witness_id, idx) \<Rightarrow>
     if \<not> 0 < idx then Some r
     else case witness_config_half r witness_id of
       None \<Rightarrow> Some r
     | Some half \<Rightarrow>
         if pick (witness_subterm (epoch (r_prs r))) half = current_subterm
         then (case get_progress r witness_id of
                 Some pr \<Rightarrow> Some (if matched pr < idx
                                  then set_progress witness_id (pr\<lparr>matched := idx, pr_state := Replicate\<rparr>) r
                                  else r)
               | None \<Rightarrow> Some r)
         else if pick (witness_pending_subterm (epoch (r_prs r))) half = 0
         then do {
           (r, sent) \<leftarrow> send_append_to_witness E r witness_id;
           Some (if sent
                 then r\<lparr>r_prs := (r_prs r)\<lparr>epoch := (epoch (r_prs r))\<lparr>witness_pending_subterm :=
                        put (witness_pending_subterm (epoch (r_prs r))) half current_subterm\<rparr>\<rparr>\<rparr>
                 else r)
         }
         else Some r)"

definition maybe_commit :: "('s, 'm) Storage_scheme \<Rightarrow> 's Raft \<Rightarrow> ('s Raft \<times> bool) panics" where
  "maybe_commit E r = do {
     let witness_indices = one_less_than_quorum_in_replication_set (r_prs r);
     r \<leftarrow> foldM (contact_witness E (subterm (epoch (r_prs r)))) witness_indices r;
     let mci = fst (maximal_committed_index (r_prs r));
     (l, b) \<leftarrow> log_maybe_commit E (r_log r) mci (r_term r);
     let r = r\<lparr>r_log := l\<rparr>;
     if b
     then do {
       pr \<leftarrow> get_progress r (r_id r);
       Some (set_progress (r_id r) (update_committed pr (committed (r_log r))) r, True)
     }
     else Some (r, False)
   }"

definition maybe_commit_and_bcast :: "('s, 'm) Storage_scheme \<Rightarrow> 's Raft \<Rightarrow> 's Raft panics" where
  "maybe_commit_and_bcast E r = do {
     (r, b) \<leftarrow> maybe_commit E r;
     if b \<and> should_bcast_commit r then bcast_append E r else Some r
   }"

definition confirm_witness_append :: "('s, 'm) Storage_scheme \<Rightarrow> 's Raft \<Rightarrow> nat \<Rightarrow> 's Raft panics" where
  "confirm_witness_append E r witness_id =
     (case witness_config_half r witness_id of
        None \<Rightarrow> Some r
      | Some half \<Rightarrow>
          (let ep = epoch (r_prs r); current_subterm = subterm ep
           in if pick (witness_pending_subterm ep) half \<noteq> current_subterm then Some r
              else let ep = ep\<lparr>witness_subterm := put (witness_subterm ep) half current_subterm,
                               witness_pending_subterm := put (witness_pending_subterm ep) half 0\<rparr>;
                       r = r\<lparr>r_prs := (r_prs r)\<lparr>epoch := ep\<rparr>\<rparr>
                   in if r_state r = Leader then maybe_commit_and_bcast E r else Some r))"

definition reject_witness_append :: "'s Raft \<Rightarrow> nat \<Rightarrow> 's Raft" where
  "reject_witness_append r witness_id =
     (case witness_config_half r witness_id of
        None \<Rightarrow> r
      | Some half \<Rightarrow>
          (let ep = epoch (r_prs r); current_subterm = subterm ep
           in if pick (witness_pending_subterm ep) half \<noteq> current_subterm then r
              else r\<lparr>r_prs := (r_prs r)\<lparr>epoch :=
                     ep\<lparr>witness_pending_subterm := put (witness_pending_subterm ep) half 0\<rparr>\<rparr>\<rparr>))"

definition enable_group_commit :: "('s, 'm) Storage_scheme \<Rightarrow> 's Raft \<Rightarrow> bool \<Rightarrow> 's Raft panics" where
  "enable_group_commit E r enable = do {
     let r = r\<lparr>r_prs := tracker_enable_group_commit (r_prs r) enable\<rparr>;
     if r_state r = Leader \<and> \<not> enable
     then do { (r, b) \<leftarrow> maybe_commit E r; if b then bcast_append E r else Some r }
     else Some r
   }"

definition assign_commit_groups :: "('s, 'm) Storage_scheme \<Rightarrow> 's Raft \<Rightarrow> (nat \<times> nat) list \<Rightarrow> 's Raft panics" where
  "assign_commit_groups E r ids = do {
     r \<leftarrow> foldM (\<lambda>(peer_id, group_id) r. do {
              ensure (0 < group_id);
              Some (case get_progress r peer_id of
                      Some pr \<Rightarrow> set_progress peer_id (pr\<lparr>commit_group_id := group_id\<rparr>) r
                    | None \<Rightarrow> r)
            }) ids r;
     if r_state r = Leader \<and> group_commit (r_prs r)
     then do { (r, b) \<leftarrow> maybe_commit E r; if b then bcast_append E r else Some r }
     else Some r
   }"

definition clear_commit_group :: "'s Raft \<Rightarrow> 's Raft" where
  "clear_commit_group r = r\<lparr>r_prs := (r_prs r)\<lparr>progress :=
     map (\<lambda>(i, pr). (i, pr\<lparr>commit_group_id := 0\<rparr>)) (progress (r_prs r))\<rparr>\<rparr>"

definition check_group_commit_consistent :: "('s, 'm) Storage_scheme \<Rightarrow> 's Raft \<Rightarrow> bool option panics" where
  "check_group_commit_consistent E r =
     (if r_state r \<noteq> Leader then Some None
      else do {
        ok \<leftarrow> apply_to_current_term E r;
        if \<not> ok then Some None
        else (case maximal_committed_index (r_prs r) of (idx, use_group_commit) \<Rightarrow>
                Some (Some (use_group_commit \<and> idx = committed (r_log r))))
      })"

subsection \<open>Appending, persisting and applying\<close>

definition append_entry :: "('s, 'm) Storage_scheme \<Rightarrow> 's Raft \<Rightarrow> Entry list \<Rightarrow> ('s Raft \<times> bool) panics" where
  "append_entry E r es =
     (case us_maybe_increase (r_uncommitted_state r) es of (u, ok) \<Rightarrow>
        let r = r\<lparr>r_uncommitted_state := u\<rparr>
        in if \<not> ok then Some (r, False)
           else do {
             li \<leftarrow> log_last_index E (r_log r);
             let es = map (\<lambda>(i, e). e\<lparr>e_term := r_term r, e_index := li + 1 + i,
                        e_subterm := subterm (epoch (r_prs r))\<rparr>) (enumerate 0 es);
             (l, _) \<leftarrow> log_append E (r_log r) es;
             Some (r\<lparr>r_log := l\<rparr>, True)
           })"

definition maybe_start_new_subterm ::
  "('s, 'm) Storage_scheme \<Rightarrow> 's Raft \<Rightarrow> bool \<Rightarrow> bool \<Rightarrow> ('s Raft \<times> bool) panics" where
  "maybe_start_new_subterm E r new_term conf_change =
     (case (if new_term \<or> conf_change then (reset_replication_set (r_prs r) new_term, True)
            else change_replication_set (r_prs r) (r_id r)) of (prs, changed) \<Rightarrow>
        let r = r\<lparr>r_prs := prs\<rparr>
        in if \<not> changed then Some (r, False)
           else do {
             (r, ok) \<leftarrow> append_entry E r [Entry_default];
             ensure ok;
             Some (r, True)
           })"

definition commit_apply_internal :: "('s, 'm) Storage_scheme \<Rightarrow> 's Raft \<Rightarrow> nat \<Rightarrow> bool \<Rightarrow> 's Raft panics" where
  "commit_apply_internal E r app skip_check = do {
     let old_applied = applied (r_log r);
     l \<leftarrow> (if \<not> skip_check then log_applied_to (r_log r) app
           else do { ensure (0 < app); Some (log_applied_to_unchecked (r_log r) app) });
     let r = r\<lparr>r_log := l\<rparr>;
     if auto_leave (conf (r_prs r)) \<and> old_applied \<le> r_pending_conf_index r \<and>
        r_pending_conf_index r \<le> app \<and> r_state r = Leader
     then do {
       (r, ok) \<leftarrow> append_entry E r [Entry_default\<lparr>entry_type := EntryConfChangeV2\<rparr>];
       ensure ok;
       last_index \<leftarrow> log_last_index E (r_log r);
       Some (r\<lparr>r_pending_conf_index := last_index\<rparr>)
     }
     else Some r
   }"

definition commit_apply :: "('s, 'm) Storage_scheme \<Rightarrow> 's Raft \<Rightarrow> nat \<Rightarrow> 's Raft panics" where
  "commit_apply E r app = commit_apply_internal E r app False"

definition on_persist_entries :: "('s, 'm) Storage_scheme \<Rightarrow> 's Raft \<Rightarrow> nat \<Rightarrow> nat \<Rightarrow> 's Raft panics" where
  "on_persist_entries E r idx trm = do {
     (l, update) \<leftarrow> log_maybe_persist E (r_log r) idx trm;
     let r = r\<lparr>r_log := l\<rparr>;
     if update \<and> r_state r = Leader
     then do {
       pr \<leftarrow> get_progress r (r_id r);
       let (pr, b) = maybe_update pr idx;
       let r = set_progress (r_id r) pr r;
       if b then maybe_commit_and_bcast E r else Some r
     }
     else Some r
   }"

definition on_persist_snap :: "'s Raft \<Rightarrow> nat \<Rightarrow> 's Raft panics" where
  "on_persist_snap r idx = do {
     (l, _) \<leftarrow> log_maybe_persist_snap (r_log r) idx;
     Some (r\<lparr>r_log := l\<rparr>)
   }"

definition reduce_uncommitted_size :: "'s Raft \<Rightarrow> Entry list \<Rightarrow> 's Raft" where
  "reduce_uncommitted_size r ents =
     (if r_state r \<noteq> Leader then r
      else r\<lparr>r_uncommitted_state := fst (us_maybe_reduce (r_uncommitted_state r) ents)\<rparr>)"

definition maybe_free_inflight_buffers :: "'s Raft \<Rightarrow> 's Raft" where
  "maybe_free_inflight_buffers r = r\<lparr>r_prs := (r_prs r)\<lparr>progress :=
     map (\<lambda>(i, pr). (i, pr\<lparr>ins := ins_maybe_free_buffer (ins pr)\<rparr>)) (progress (r_prs r))\<rparr>\<rparr>"

definition adjust_max_inflight_msgs :: "'s Raft \<Rightarrow> nat \<Rightarrow> nat \<Rightarrow> 's Raft panics" where
  "adjust_max_inflight_msgs r target cap =
     (case get_progress r target of
        Some pr \<Rightarrow> do { w \<leftarrow> ins_set_cap (ins pr) cap; Some (set_progress target (pr\<lparr>ins := w\<rparr>) r) }
      | None \<Rightarrow> Some r)"

subsection \<open>Role changes\<close>

definition pass_election_timeout :: "'s Raft \<Rightarrow> bool" where
  "pass_election_timeout r \<longleftrightarrow> r_randomized_election_timeout r \<le> r_election_elapsed r"

definition reset_randomized_election_timeout :: "('s, 'm) Env_scheme \<Rightarrow> 's Raft \<Rightarrow> 's Raft" where
  "reset_randomized_election_timeout E r = r\<lparr>r_randomized_election_timeout :=
     random_range E (r_min_election_timeout r) (r_max_election_timeout r)\<rparr>"

definition abort_leader_transfer :: "'s Raft \<Rightarrow> 's Raft" where
  "abort_leader_transfer r = r\<lparr>r_lead_transferee := None\<rparr>"

definition raft_reset :: "('s, 'm) Env_scheme \<Rightarrow> 's Raft \<Rightarrow> nat \<Rightarrow> 's Raft panics" where
  "raft_reset E r trm = do {
     let r = (if r_term r \<noteq> trm then r\<lparr>r_term := trm, r_vote := INVALID_ID\<rparr> else r);
     let r = r\<lparr>r_leader_id := INVALID_ID\<rparr>;
     let r = reset_randomized_election_timeout E r;
     let r = r\<lparr>r_election_elapsed := 0, r_heartbeat_elapsed := 0\<rparr>;
     let r = abort_leader_transfer r;
     let r = r\<lparr>r_prs := reset_votes (r_prs r)\<rparr>;
     let r = r\<lparr>r_pending_conf_index := 0, r_read_only := ReadOnly_new (ro_option (r_read_only r)),
               r_pending_request_snapshot := INVALID_INDEX\<rparr>;
     last_index \<leftarrow> log_last_index E (r_log r);
     Some (r\<lparr>r_prs := (r_prs r)\<lparr>progress := map (\<lambda>(i, pr).
       (let pr = pr_reset pr (last_index + 1)
        in (i, if i = r_id r
               then pr\<lparr>matched := persisted (r_log r), committed_index := committed (r_log r)\<rparr>
               else pr))) (progress (r_prs r))\<rparr>\<rparr>)
   }"

definition become_follower :: "('s, 'm) Env_scheme \<Rightarrow> 's Raft \<Rightarrow> nat \<Rightarrow> nat \<Rightarrow> 's Raft panics" where
  "become_follower E r trm leader_id = do {
     let pending = r_pending_request_snapshot r;
     r \<leftarrow> raft_reset E r trm;
     Some (r\<lparr>r_leader_id := leader_id, r_state := Follower, r_pending_request_snapshot := pending,
       r_log := (r_log r)\<lparr>max_apply_unpersisted_log_limit := 0\<rparr>\<rparr>)
   }"

definition become_candidate :: "('s, 'm) Env_scheme \<Rightarrow> 's Raft \<Rightarrow> 's Raft panics" where
  "become_candidate E r = do {
     ensure (r_state r \<noteq> Leader);
     r \<leftarrow> raft_reset E r (r_term r + 1);
     Some (r\<lparr>r_vote := r_id r, r_state := Candidate\<rparr>)
   }"

definition become_pre_candidate :: "'s Raft \<Rightarrow> 's Raft panics" where
  "become_pre_candidate r = do {
     ensure (r_state r \<noteq> Leader);
     Some (r\<lparr>r_state := PreCandidate, r_prs := reset_votes (r_prs r), r_leader_id := INVALID_ID\<rparr>)
   }"

definition become_leader :: "('s, 'm) Env_scheme \<Rightarrow> 's Raft \<Rightarrow> 's Raft panics" where
  "become_leader E r = do {
     ensure (r_state r \<noteq> Follower);
     r \<leftarrow> raft_reset E r (r_term r);
     let r = r\<lparr>r_leader_id := r_id r, r_state := Leader\<rparr>;
     last_index \<leftarrow> log_last_index E (r_log r);
     ensure (last_index = persisted (r_log r));
     let r = r\<lparr>r_uncommitted_state := (r_uncommitted_state r)\<lparr>uncommitted_size := 0,
               last_log_tail_index := last_index\<rparr>\<rparr>;
     pr \<leftarrow> get_progress r (r_id r);
     let r = set_progress (r_id r) (become_replicate pr) r;
     let r = r\<lparr>r_pending_conf_index := last_index\<rparr>;
     if raft_has_witness r
     then do { (r, _) \<leftarrow> maybe_start_new_subterm E r True False; Some r }
     else do { (r, _) \<leftarrow> append_entry E r [Entry_default]; Some r }
   }"

subsection \<open>Elections\<close>

text \<open>
  \<open>poll\<close> and \<open>campaign\<close> call each other.  A won pre-election starts the election proper, whose poll
  finds the node a candidate and does not start another: the recursion is two calls deep.  Each body
  takes the other as an argument; the equations of the source hold for the closed definitions
  (lemma \<open>poll_campaign_unfold\<close> below).
\<close>

definition poll_body ::
  "('s, 'm) Env_scheme \<Rightarrow> ('s Raft \<Rightarrow> 's Raft panics) \<Rightarrow> 's Raft \<Rightarrow> nat \<Rightarrow> MessageType \<Rightarrow> bool \<Rightarrow>
    ('s Raft \<times> VoteResult) panics" where
  "poll_body E campaign_election r from t vote = do {
     let r = r\<lparr>r_prs := record_vote (r_prs r) from vote\<rparr>;
     let (gr, rj, res, votes_to_win) = tally_votes_with_diff (r_prs r);
     r \<leftarrow> (case res of
         Won \<Rightarrow>
           if r_state r = PreCandidate then campaign_election r
           else do { r \<leftarrow> become_leader E r; bcast_append E r }
       | Lost \<Rightarrow> become_follower E r (r_term r) INVALID_ID
       | Pending \<Rightarrow>
           foldM (\<lambda>(witness_id, ready) r.
               if ready
               then send_request_vote_to_witness E r witness_id t
                      (if t = MsgRequestPreVote then r_term r + 1 else r_term r)
               else Some r) (get_witness_vote_request_readiness r votes_to_win) r);
     Some (r, res)
   }"

definition campaign_body ::
  "('s, 'm) Env_scheme \<Rightarrow> ('s Raft \<Rightarrow> nat \<Rightarrow> MessageType \<Rightarrow> bool \<Rightarrow> ('s Raft \<times> VoteResult) panics) \<Rightarrow>
    's Raft \<Rightarrow> bytes \<Rightarrow> 's Raft panics" where
  "campaign_body E poll_fn r campaign_type = do {
     (r, vote_msg, trm) \<leftarrow>
       (if campaign_type = CAMPAIGN_PRE_ELECTION
        then do { r \<leftarrow> become_pre_candidate r; Some (r, MsgRequestPreVote, r_term r + 1) }
        else do { r \<leftarrow> become_candidate E r; Some (r, MsgRequestVote, r_term r) });
     (r, res) \<leftarrow> poll_fn r (r_id r) vote_msg True;
     if res = Won then Some r
     else do {
       (commit, commit_term) \<leftarrow> commit_info E (r_log r);
       foldM (\<lambda>i r.
           if i = r_id r then Some r
           else if i = fst (witnesses (conf (r_prs r))) \<or> i = snd (witnesses (conf (r_prs r))) then Some r
           else do {
             last_index \<leftarrow> log_last_index E (r_log r);
             last_term \<leftarrow> log_last_term E (r_log r);
             raft_send r ((new_message i vote_msg None)\<lparr>m_term := trm, m_index := last_index,
               m_log_term := last_term, m_commit := commit, m_commit_term := commit_term,
               m_context := (if campaign_type = CAMPAIGN_TRANSFER then campaign_type
                             else m_context Message_default)\<rparr>)
           }) (joint_ids (voters (conf (r_prs r)))) r
     }
   }"

definition campaign_election :: "('s, 'm) Env_scheme \<Rightarrow> 's Raft \<Rightarrow> 's Raft panics" where
  "campaign_election E r = campaign_body E (poll_body E (\<lambda>_. None)) r CAMPAIGN_ELECTION"

definition poll ::
  "('s, 'm) Env_scheme \<Rightarrow> 's Raft \<Rightarrow> nat \<Rightarrow> MessageType \<Rightarrow> bool \<Rightarrow> ('s Raft \<times> VoteResult) panics" where
  "poll E r from t vote = poll_body E (campaign_election E) r from t vote"

definition campaign :: "('s, 'm) Env_scheme \<Rightarrow> 's Raft \<Rightarrow> bytes \<Rightarrow> 's Raft panics" where
  "campaign E r campaign_type = campaign_body E (poll E) r campaign_type"

definition is_conf_change_entry :: "Entry \<Rightarrow> bool" where
  "is_conf_change_entry e \<longleftrightarrow> entry_type e = EntryConfChange \<or> entry_type e = EntryConfChangeV2"

definition has_unapplied_conf_changes ::
  "('s, 'm) Storage_scheme \<Rightarrow> 's Raft \<Rightarrow> nat \<Rightarrow> nat \<Rightarrow> GetEntriesFor \<Rightarrow> bool panics" where
  "has_unapplied_conf_changes E r lo hi context =
     (if committed (r_log r) \<le> applied (r_log r) then Some False
      else do {
        (found, res) \<leftarrow> log_scan E (r_log r) lo hi (r_max_committed_size_per_ready r) context
          (\<lambda>ents found. if list_ex is_conf_change_entry ents then (True, False) else (found, True)) False;
        case res of Inl _ \<Rightarrow> None | Inr _ \<Rightarrow> Some found
      })"

definition hup :: "('s, 'm) Env_scheme \<Rightarrow> 's Raft \<Rightarrow> bool \<Rightarrow> 's Raft panics" where
  "hup E r transfer_leader =
     (if r_state r = Leader then Some r
      else do {
        let low = (case u_maybe_first_index (unstable (r_log r)) of Some i \<Rightarrow> i | None \<Rightarrow> applied (r_log r) + 1);
        let high = committed (r_log r) + 1;
        p \<leftarrow> has_unapplied_conf_changes E r low high TransferLeader;
        if p then Some r
        else if transfer_leader then campaign E r CAMPAIGN_TRANSFER
        else if r_pre_vote r then campaign E r CAMPAIGN_PRE_ELECTION
        else campaign E r CAMPAIGN_ELECTION
      })"

end
