(* ===== verification/Raft_Step.thy ===== *)
theory Raft_Step
  imports Raft_Election
begin

text \<open>
  \<^verbatim>\<open>src/raft.rs\<close>, third part: the handlers of every message, \<open>step\<close> and the clock, snapshots,
  configuration changes, and the creation of a node.  A step returns the new state with the
  \<^verbatim>\<open>Result\<close> of the source.
\<close>

subsection \<open>Handlers of a leader\<close>

definition handle_append_response :: "('s, 'm) Env_scheme \<Rightarrow> 's Raft \<Rightarrow> Message \<Rightarrow> 's Raft panics" where
  "handle_append_response E r m = do {
     next_probe_index \<leftarrow>
       (if m_reject m \<and> 0 < m_log_term m
        then do { (i, _) \<leftarrow> find_conflict_by_term E (r_log r) (m_reject_hint m) (m_log_term m); Some i }
        else Some (m_reject_hint m));
     case get_progress r (m_from m) of
       None \<Rightarrow> Some r
     | Some pr \<Rightarrow> do {
         let pr = update_committed (pr\<lparr>recent_active := True\<rparr>) (m_commit m);
         if m_reject m
         then do {
           let (pr, decreased) = maybe_decr_to pr (m_index m) next_probe_index (m_request_snapshot m);
           if decreased
           then do {
             let pr = (if pr_state pr = Replicate then become_probe pr else pr);
             raft_send_append E (set_progress (m_from m) pr r) (m_from m)
           }
           else Some (set_progress (m_from m) pr r)
         }
         else do {
           let old_paused = is_paused pr;
           let (pr, updated) = maybe_update pr (m_index m);
           if \<not> updated then Some (set_progress (m_from m) pr r)
           else do {
             pr \<leftarrow> (case pr_state pr of
                 Probe \<Rightarrow> Some (become_replicate pr)
               | Snapshot_state \<Rightarrow> Some (if is_snapshot_caught_up pr then become_probe pr else pr)
               | Replicate \<Rightarrow> do { w \<leftarrow> ins_free_to (ins pr) (m_index m); Some (pr\<lparr>ins := w\<rparr>) });
             let r = set_progress (m_from m) pr r;
             (r, b) \<leftarrow> maybe_commit E r;
             r \<leftarrow> (if b then (if should_bcast_commit r then bcast_append E r else Some r)
                   else if old_paused then raft_send_append E r (m_from m)
                   else Some r);
             r \<leftarrow> raft_send_append_aggressively E r (m_from m);
             if Some (m_from m) = r_lead_transferee r
             then do {
               last_index \<leftarrow> log_last_index E (r_log r);
               pr \<leftarrow> get_progress r (m_from m);
               if matched pr = last_index then send_timeout_now r (m_from m) else Some r
             }
             else Some r
           }
         }
       }
   }"

definition handle_heartbeat_response :: "('s, 'm) Env_scheme \<Rightarrow> 's Raft \<Rightarrow> Message \<Rightarrow> 's Raft panics" where
  "handle_heartbeat_response E r m =
     (case get_progress r (m_from m) of
        None \<Rightarrow> Some r
      | Some pr \<Rightarrow> do {
          let pr = resume ((update_committed pr (m_commit m))\<lparr>recent_active := True\<rparr>);
          pr \<leftarrow> (if pr_state pr = Replicate \<and> ins_full (ins pr)
                then do { w \<leftarrow> ins_free_first_one (ins pr); Some (pr\<lparr>ins := w\<rparr>) }
                else Some pr);
          let r = set_progress (m_from m) pr r;
          last_index \<leftarrow> log_last_index E (r_log r);
          r \<leftarrow> (if matched pr < last_index \<or> pending_request_snapshot pr \<noteq> INVALID_INDEX
                then raft_send_append E r (m_from m) else Some r);
          if ro_option (r_read_only r) \<noteq> Safe \<or> m_context m = [] then Some r
          else (case recv_ack (r_read_only r) (m_from m) (m_context m) of (ro, acks) \<Rightarrow>
                  let r = r\<lparr>r_read_only := ro\<rparr>
                  in case acks of
                       Some a \<Rightarrow> if has_quorum (r_prs r) a then advance_reads r (m_context m) else Some r
                     | None \<Rightarrow> Some r)
        })"

definition handle_transfer_leader :: "('s, 'm) Env_scheme \<Rightarrow> 's Raft \<Rightarrow> Message \<Rightarrow> 's Raft panics" where
  "handle_transfer_leader E r m =
     (case get_progress r (m_from m) of
        None \<Rightarrow> Some r
      | Some pr \<Rightarrow>
          if m_from m \<in> set (learners (conf (r_prs r))) then Some r
          else if r_lead_transferee r = Some (m_from m) then Some r
          else do {
            let r = (if r_lead_transferee r \<noteq> None then abort_leader_transfer r else r);
            if m_from m = r_id r then Some r
            else do {
              let r = r\<lparr>r_election_elapsed := 0, r_lead_transferee := Some (m_from m)\<rparr>;
              last_index \<leftarrow> log_last_index E (r_log r);
              if matched pr = last_index then send_timeout_now r (m_from m)
              else raft_send_append E r (m_from m)
            }
          })"

definition handle_snapshot_status :: "'s Raft \<Rightarrow> Message \<Rightarrow> 's Raft" where
  "handle_snapshot_status r m =
     (case get_progress r (m_from m) of
        None \<Rightarrow> r
      | Some pr \<Rightarrow>
          if pr_state pr \<noteq> Snapshot_state then r
          else let pr = (if m_reject m then become_probe (snapshot_failure pr) else become_probe pr);
                   pr = (pause pr)\<lparr>pending_request_snapshot := INVALID_INDEX\<rparr>
               in set_progress (m_from m) pr r)"

definition handle_unreachable :: "'s Raft \<Rightarrow> Message \<Rightarrow> 's Raft" where
  "handle_unreachable r m =
     (case get_progress r (m_from m) of
        None \<Rightarrow> r
      | Some pr \<Rightarrow> if pr_state pr = Replicate then set_progress (m_from m) (become_probe pr) r else r)"

definition check_quorum_active :: "'s Raft \<Rightarrow> 's Raft \<times> bool" where
  "check_quorum_active r =
     (case quorum_recently_active (r_prs r) (r_id r) of (prs, b) \<Rightarrow> (r\<lparr>r_prs := prs\<rparr>, b))"

text \<open>
  The configuration change of a proposed entry: no change, an undecodable one (the proposal is
  dropped), or a change.
\<close>

datatype proposed = Normal | Undecodable | Change ConfChangeV2

definition proposed_change :: "('s, 'm) Env_scheme \<Rightarrow> Entry \<Rightarrow> proposed" where
  "proposed_change E e = (case entry_type e of
     EntryConfChange \<Rightarrow> (case merge_ConfChange E (e_data e) of
         None \<Rightarrow> Undecodable | Some cc \<Rightarrow> Change (cc_into_v2 cc))
   | EntryConfChangeV2 \<Rightarrow> (case merge_ConfChangeV2 E (e_data e) of
         None \<Rightarrow> Undecodable | Some cc \<Rightarrow> Change cc)
   | EntryNormal \<Rightarrow> Normal)"

text \<open>
  The loop over the proposed entries: \<open>Inl\<close> is the early return.  A change that is refused is
  replaced by an empty entry.
\<close>

fun propose_entries ::
  "('s, 'm) Env_scheme \<Rightarrow> nat \<Rightarrow> Entry list \<Rightarrow> 's Raft \<Rightarrow> ('s Raft \<times> (Error + Entry list)) panics" where
  "propose_entries E i [] r = Some (r, Inr [])"
| "propose_entries E i (e # es) r = do {
     (r, e') \<leftarrow> (case proposed_change E e of
         Normal \<Rightarrow> Some (r, Inr e)
       | Undecodable \<Rightarrow> Some (r, Inl ProposalDropped)
       | Change cc \<Rightarrow>
           (let already_joint = joint (conf (r_prs r)); want_leave = (changes cc = []);
                refused = (has_pending_conf r \<or> (already_joint \<and> \<not> want_leave) \<or>
                           (\<not> already_joint \<and> want_leave))
            in if refused then Some (r, Inr (Entry_default\<lparr>entry_type := EntryNormal\<rparr>))
               else do {
                 last_index \<leftarrow> log_last_index E (r_log r);
                 Some (r\<lparr>r_pending_conf_index := last_index + i + 1\<rparr>, Inr e)
               }));
     case e' of
       Inl err \<Rightarrow> Some (r, Inl err)
     | Inr e \<Rightarrow> do {
         (r, res) \<leftarrow> propose_entries E (Suc i) es r;
         Some (r, case res of Inl err \<Rightarrow> Inl err | Inr es \<Rightarrow> Inr (e # es))
       }
   }"

type_synonym 's step_result = "('s Raft \<times> (Error + unit)) panics"

abbreviation ok :: "'s Raft panics \<Rightarrow> 's step_result" where
  "ok x \<equiv> Option.bind x (\<lambda>r. Some (r, Inr ()))"

definition leader_propose :: "('s, 'm) Env_scheme \<Rightarrow> 's Raft \<Rightarrow> Message \<Rightarrow> 's step_result" where
  "leader_propose E r m = do {
     ensure (m_entries m \<noteq> []);
     if \<not> hm_contains (progress (r_prs r)) (r_id r) then Some (r, Inl ProposalDropped)
     else if r_lead_transferee r \<noteq> None then Some (r, Inl ProposalDropped)
     else do {
       (r, res) \<leftarrow> propose_entries E 0 (m_entries m) r;
       case res of
         Inl err \<Rightarrow> Some (r, Inl err)
       | Inr es \<Rightarrow> do {
           (r, appended) \<leftarrow> append_entry E r es;
           if \<not> appended then Some (r, Inl ProposalDropped)
           else ok (bcast_append E r)
         }
     }
   }"

definition leader_check_quorum :: "('s, 'm) Env_scheme \<Rightarrow> 's Raft \<Rightarrow> 's Raft panics" where
  "leader_check_quorum E r = do {
     (r, adjusted) \<leftarrow> (if raft_has_witness r then maybe_start_new_subterm E r False False
                      else Some (r, False));
     let degraded = (raft_has_witness r \<and>
       (fst (replicate_to_witness (epoch (r_prs r))) \<or> snd (replicate_to_witness (epoch (r_prs r)))));
     if \<not> adjusted \<and> \<not> degraded
     then (case check_quorum_active r of (r, active) \<Rightarrow>
             if \<not> active then become_follower E r (r_term r) INVALID_ID else Some r)
     else Some r
   }"

definition leader_read_index :: "('s, 'm) Env_scheme \<Rightarrow> 's Raft \<Rightarrow> Message \<Rightarrow> 's Raft panics" where
  "leader_read_index E r m = do {
     current \<leftarrow> commit_to_current_term E r;
     if \<not> current then Some r
     else if is_singleton (r_prs r) then ready_read r m (committed (r_log r))
     else case ro_option (r_read_only r) of
       Safe \<Rightarrow> do {
         e0 \<leftarrow> index (m_entries m) 0;
         ro \<leftarrow> add_request (r_read_only r) (committed (r_log r)) m (r_id r);
         bcast_heartbeat_with_ctx (r\<lparr>r_read_only := ro\<rparr>) (Some (e_data e0))
       }
     | LeaseBased \<Rightarrow> ready_read r m (committed (r_log r))
   }"

definition step_leader :: "('s, 'm) Env_scheme \<Rightarrow> 's Raft \<Rightarrow> Message \<Rightarrow> 's step_result" where
  "step_leader E r m = (case msg_type m of
     MsgBeat \<Rightarrow> ok (do {
       r \<leftarrow> bcast_heartbeat r;
       if raft_has_witness r then maybe_commit_and_bcast E r else Some r
     })
   | MsgCheckQuorum \<Rightarrow> ok (leader_check_quorum E r)
   | MsgPropose \<Rightarrow> leader_propose E r m
   | MsgReadIndex \<Rightarrow> ok (leader_read_index E r m)
   | MsgAppendResponse \<Rightarrow> ok (handle_append_response E r m)
   | MsgHeartbeatResponse \<Rightarrow> ok (handle_heartbeat_response E r m)
   | MsgSnapStatus \<Rightarrow> Some (handle_snapshot_status r m, Inr ())
   | MsgUnreachable \<Rightarrow> Some (handle_unreachable r m, Inr ())
   | MsgTransferLeader \<Rightarrow>
       (case get_progress r (m_from m) of
          Some pr \<Rightarrow> if is_witness pr then Some (r, Inr ()) else ok (handle_transfer_leader E r m)
        | None \<Rightarrow> ok (handle_transfer_leader E r m))
   | _ \<Rightarrow> Some (r, Inr ()))"

subsection \<open>Configuration changes and snapshots\<close>

definition post_conf_change :: "('s, 'm) Env_scheme \<Rightarrow> 's Raft \<Rightarrow> ('s Raft \<times> ConfState) panics" where
  "post_conf_change E r = do {
     let cs = to_conf_state (conf (r_prs r));
     let is_voter = joint_contains (voters (conf (r_prs r))) (r_id r);
     let r = r\<lparr>r_promotable := is_voter\<rparr>;
     if \<not> is_voter \<and> r_state r = Leader then Some (r, cs)
     else if r_state r \<noteq> Leader \<or> cs_voters cs = [] then Some (r, cs)
     else do {
       (r, b) \<leftarrow> maybe_commit E r;
       r \<leftarrow> (if b then bcast_append E r
             else foldM (\<lambda>i r. raft_maybe_send_append E False r i) (peers r) r);
       r \<leftarrow> (case last_pending_request_ctx (r_read_only r) of
           None \<Rightarrow> Some r
         | Some ctx \<Rightarrow>
             (case recv_ack (r_read_only r) (r_id r) ctx of (ro, acks) \<Rightarrow>
                let r = r\<lparr>r_read_only := ro\<rparr>
                in if (case acks of Some a \<Rightarrow> has_quorum (r_prs r) a | None \<Rightarrow> False)
                   then advance_reads r ctx else Some r));
       Some (case r_lead_transferee r of
               Some e \<Rightarrow> if \<not> joint_contains (voters (conf (r_prs r))) e then abort_leader_transfer r else r
             | None \<Rightarrow> r, cs)
     }
   }"

definition apply_conf_change ::
  "('s, 'm) Env_scheme \<Rightarrow> 's Raft \<Rightarrow> ConfChangeV2 \<Rightarrow> ('s Raft \<times> (Error + ConfState)) panics" where
  "apply_conf_change E r cc =
     (case (if v2_leave_joint cc then leave_joint (r_prs r)
            else case v2_enter_joint cc of
              Some auto \<Rightarrow> enter_joint (r_prs r) auto (changes cc)
            | None \<Rightarrow> simple (r_prs r) (changes cc)) of
        Inl e \<Rightarrow> Some (r, Inl e)
      | Inr (cfg, chs) \<Rightarrow> do {
          last_index \<leftarrow> log_last_index E (r_log r);
          (r, new_cs) \<leftarrow> post_conf_change E (r\<lparr>r_prs := apply_conf (r_prs r) cfg chs last_index\<rparr>);
          r \<leftarrow> (if r_state r = Leader \<and> raft_has_witness r
                then do { (r, _) \<leftarrow> maybe_start_new_subterm E r False True; Some r }
                else Some r);
          Some (r, Inr new_cs)
        })"

definition raft_restore :: "('s, 'm) Env_scheme \<Rightarrow> 's Raft \<Rightarrow> Snapshot \<Rightarrow> ('s Raft \<times> bool) panics" where
  "raft_restore E r snap =
     (if snap_index snap < committed (r_log r) then Some (r, False)
      else if r_state r \<noteq> Follower
      then do { r \<leftarrow> become_follower E r (r_term r + 1) INVALID_INDEX; Some (r, False) }
      else do {
        let cs = sm_conf_state (s_metadata snap);
        if r_id r \<notin> set (cs_voters cs) \<union> set (cs_learners cs) \<union> set (cs_voters_outgoing cs)
        then Some (r, False)
        else do {
          matches \<leftarrow> (if r_pending_request_snapshot r = INVALID_INDEX
                     then log_match_term E (r_log r) (snap_index snap) (snap_term snap)
                     else Some False);
          if matches
          then do {
            l \<leftarrow> log_commit_to E (r_log r) (snap_index snap);
            Some (r\<lparr>r_log := l\<rparr>, False)
          }
          else do {
            l \<leftarrow> log_restore (r_log r) snap;
            let r = r\<lparr>r_log := l\<rparr>;
            last_index \<leftarrow> log_last_index E (r_log r);
            prs \<leftarrow> unwrap (confchange_restore (tracker_clear (r_prs r)) last_index cs);
            (r, new_cs) \<leftarrow> post_conf_change E (r\<lparr>r_prs := prs\<rparr>);
            ensure (conf_state_eq cs new_cs);
            pr \<leftarrow> get_progress r (r_id r);
            n \<leftarrow> sub (next_idx pr) 1;
            let r = set_progress (r_id r) (fst (maybe_update pr n)) r;
            Some (r\<lparr>r_pending_request_snapshot := INVALID_INDEX\<rparr>, True)
          }
        }
      })"

subsection \<open>Handlers of a follower\<close>

definition handle_append_entries :: "('s, 'm) Env_scheme \<Rightarrow> 's Raft \<Rightarrow> Message \<Rightarrow> 's Raft panics" where
  "handle_append_entries E r m =
     (if r_pending_request_snapshot r \<noteq> INVALID_INDEX then send_request_snapshot E r
      else if m_index m < committed (r_log r)
      then raft_send r (Message_default\<lparr>msg_type := MsgAppendResponse, m_to := m_from m,
             m_index := committed (r_log r), m_commit := committed (r_log r)\<rparr>)
      else do {
        let to_send = Message_default\<lparr>m_to := m_from m, msg_type := MsgAppendResponse\<rparr>;
        (l, res) \<leftarrow> log_maybe_append E (r_log r) (m_index m) (m_log_term m) (m_commit m) (m_entries m);
        let r = r\<lparr>r_log := l\<rparr>;
        to_send \<leftarrow> (case res of
            Some (_, last_idx) \<Rightarrow> Some (to_send\<lparr>m_index := last_idx\<rparr>)
          | None \<Rightarrow> do {
              last_index \<leftarrow> log_last_index E (r_log r);
              (hint_index, hint_term) \<leftarrow>
                find_conflict_by_term E (r_log r) (min (m_index m) last_index) (m_log_term m);
              t \<leftarrow> hint_term;
              Some (to_send\<lparr>m_index := m_index m, m_reject := True, m_reject_hint := hint_index,
                m_log_term := t\<rparr>)
            });
        raft_send r (to_send\<lparr>m_commit := committed (r_log r)\<rparr>)
      })"

definition handle_heartbeat :: "('s, 'm) Env_scheme \<Rightarrow> 's Raft \<Rightarrow> Message \<Rightarrow> 's Raft panics" where
  "handle_heartbeat E r m = do {
     last_index \<leftarrow> log_last_index E (r_log r);
     l \<leftarrow> log_commit_to E (r_log r) (min (m_commit m) last_index);
     let r = r\<lparr>r_log := l\<rparr>;
     if r_pending_request_snapshot r \<noteq> INVALID_INDEX then send_request_snapshot E r
     else raft_send r (Message_default\<lparr>msg_type := MsgHeartbeatResponse, m_to := m_from m,
            m_context := m_context m, m_commit := committed (r_log r)\<rparr>)
   }"

definition handle_snapshot :: "('s, 'm) Env_scheme \<Rightarrow> 's Raft \<Rightarrow> Message \<Rightarrow> 's Raft panics" where
  "handle_snapshot E r m = do {
     (r, restored) \<leftarrow> raft_restore E r (m_snapshot m);
     if restored
     then do {
       last_index \<leftarrow> log_last_index E (r_log r);
       raft_send r (Message_default\<lparr>msg_type := MsgAppendResponse, m_to := m_from m, m_index := last_index\<rparr>)
     }
     else raft_send r (Message_default\<lparr>msg_type := MsgAppendResponse, m_to := m_from m,
            m_index := committed (r_log r)\<rparr>)
   }"

definition request_snapshot :: "('s, 'm) Env_scheme \<Rightarrow> 's Raft \<Rightarrow> 's step_result" where
  "request_snapshot E r =
     (if r_state r = Leader \<or> r_leader_id r = INVALID_ID \<or> u_snapshot (unstable (r_log r)) \<noteq> None \<or>
         r_pending_request_snapshot r \<noteq> INVALID_INDEX
      then Some (r, Inl RequestSnapshotDropped)
      else do {
        request_index \<leftarrow> log_last_index E (r_log r);
        res \<leftarrow> log_term E (r_log r) request_index;
        request_index_term \<leftarrow> unwrap res;
        if r_term r = request_index_term
        then ok (send_request_snapshot E (r\<lparr>r_pending_request_snapshot := request_index\<rparr>))
        else Some (r, Inl RequestSnapshotDropped)
      })"

definition maybe_commit_by_vote :: "('s, 'm) Env_scheme \<Rightarrow> 's Raft \<Rightarrow> Message \<Rightarrow> 's Raft panics" where
  "maybe_commit_by_vote E r m =
     (if m_commit m = 0 \<or> m_commit_term m = 0 then Some r
      else if m_commit m \<le> committed (r_log r) \<or> r_state r = Leader then Some r
      else do {
        let last_commit = committed (r_log r);
        (l, b) \<leftarrow> log_maybe_commit E (r_log r) (m_commit m) (m_commit_term m);
        let r = r\<lparr>r_log := l\<rparr>;
        if \<not> b then Some r
        else if r_state r \<noteq> Candidate \<and> r_state r \<noteq> PreCandidate then Some r
        else do {
          p \<leftarrow> has_unapplied_conf_changes E r (last_commit + 1) (committed (r_log r) + 1) CommitByVote;
          if p then become_follower E r (r_term r) INVALID_ID else Some r
        }
      })"

definition step_candidate :: "('s, 'm) Env_scheme \<Rightarrow> 's Raft \<Rightarrow> Message \<Rightarrow> 's step_result" where
  "step_candidate E r m = (case msg_type m of
     MsgPropose \<Rightarrow> Some (r, Inl ProposalDropped)
   | MsgAppend \<Rightarrow> ok (do { r \<leftarrow> become_follower E r (m_term m) (m_from m); handle_append_entries E r m })
   | MsgHeartbeat \<Rightarrow> ok (do { r \<leftarrow> become_follower E r (m_term m) (m_from m); handle_heartbeat E r m })
   | MsgSnapshot \<Rightarrow> ok (do { r \<leftarrow> become_follower E r (m_term m) (m_from m); handle_snapshot E r m })
   | MsgRequestPreVoteResponse \<Rightarrow>
       if r_state r = Candidate then Some (r, Inr ())
       else ok (do { (r, _) \<leftarrow> poll E r (m_from m) (msg_type m) (\<not> m_reject m); maybe_commit_by_vote E r m })
   | MsgRequestVoteResponse \<Rightarrow>
       if r_state r = PreCandidate then Some (r, Inr ())
       else ok (do { (r, _) \<leftarrow> poll E r (m_from m) (msg_type m) (\<not> m_reject m); maybe_commit_by_vote E r m })
   | _ \<Rightarrow> Some (r, Inr ()))"

definition step_follower :: "('s, 'm) Env_scheme \<Rightarrow> 's Raft \<Rightarrow> Message \<Rightarrow> 's step_result" where
  "step_follower E r m = (case msg_type m of
     MsgPropose \<Rightarrow>
       if r_leader_id r = INVALID_ID then Some (r, Inl ProposalDropped)
       else if r_disable_proposal_forwarding r then Some (r, Inl ProposalDropped)
       else ok (raft_send r (m\<lparr>m_to := r_leader_id r\<rparr>))
   | MsgAppend \<Rightarrow> ok (handle_append_entries E (r\<lparr>r_election_elapsed := 0, r_leader_id := m_from m\<rparr>) m)
   | MsgHeartbeat \<Rightarrow> ok (handle_heartbeat E (r\<lparr>r_election_elapsed := 0, r_leader_id := m_from m\<rparr>) m)
   | MsgSnapshot \<Rightarrow> ok (handle_snapshot E (r\<lparr>r_election_elapsed := 0, r_leader_id := m_from m\<rparr>) m)
   | MsgTransferLeader \<Rightarrow>
       if r_leader_id r = INVALID_ID then Some (r, Inr ())
       else ok (raft_send r (m\<lparr>m_to := r_leader_id r\<rparr>))
   | MsgTimeoutNow \<Rightarrow> if r_promotable r then ok (hup E r True) else Some (r, Inr ())
   | MsgReadIndex \<Rightarrow>
       if r_leader_id r = INVALID_ID then Some (r, Inr ())
       else ok (raft_send r (m\<lparr>m_to := r_leader_id r\<rparr>))
   | MsgReadIndexResp \<Rightarrow>
       if length (m_entries m) \<noteq> 1 then Some (r, Inr ())
       else ok (do {
         e0 \<leftarrow> index (m_entries m) 0;
         let r = r\<lparr>r_read_states := r_read_states r @ [\<lparr>rd_index = m_index m, rd_request_ctx = e_data e0\<rparr>]\<rparr>;
         (l, _) \<leftarrow> log_maybe_commit E (r_log r) (m_index m) (m_term m);
         Some (r\<lparr>r_log := l\<rparr>)
       })
   | _ \<Rightarrow> Some (r, Inr ()))"

subsection \<open>Step and clock\<close>

text \<open>The vote requests, granted or rejected.\<close>

definition step_vote :: "('s, 'm) Env_scheme \<Rightarrow> 's Raft \<Rightarrow> Message \<Rightarrow> 's Raft panics" where
  "step_vote E r m = do {
     let can_vote = (r_vote r = m_from m \<or> (r_vote r = INVALID_ID \<and> r_leader_id r = INVALID_ID) \<or>
                     (msg_type m = MsgRequestPreVote \<and> r_term r < m_term m));
     grant \<leftarrow> (if can_vote
         then do {
           up \<leftarrow> is_up_to_date E (r_log r) (m_index m) (m_log_term m);
           if up
           then do {
             last_index \<leftarrow> log_last_index E (r_log r);
             Some (last_index < m_index m \<or> r_priority r \<le> get_priority m)
           }
           else Some False
         }
         else Some False);
     resp_type \<leftarrow> vote_resp_msg_type (msg_type m);
     if grant
     then do {
       r \<leftarrow> raft_send r ((new_message (m_from m) resp_type None)\<lparr>m_reject := False, m_term := m_term m\<rparr>);
       Some (if msg_type m = MsgRequestVote then r\<lparr>r_election_elapsed := 0, r_vote := m_from m\<rparr> else r)
     }
     else do {
       (commit, commit_term) \<leftarrow> commit_info E (r_log r);
       r \<leftarrow> raft_send r ((new_message (m_from m) resp_type None)\<lparr>m_reject := True, m_term := r_term r,
              m_commit := commit, m_commit_term := commit_term\<rparr>);
       maybe_commit_by_vote E r m
     }
   }"

text \<open>
  The first part of \<open>step\<close>, on the message's term: \<open>Inl\<close> when \<open>step\<close> returns there, \<open>Inr\<close> when it goes
  on to the message itself.
\<close>

definition step_term :: "('s, 'm) Env_scheme \<Rightarrow> 's Raft \<Rightarrow> Message \<Rightarrow> ('s Raft + 's Raft) panics" where
  "step_term E r m =
     (if m_term m = 0 then Some (Inr r)
      else if r_term r < m_term m then
        let vote_req = (msg_type m = MsgRequestVote \<or> msg_type m = MsgRequestPreVote);
            force = (m_context m = CAMPAIGN_TRANSFER);
            lease = (r_check_quorum r \<and> r_leader_id r \<noteq> INVALID_ID \<and>
                     r_election_elapsed r < r_election_timeout r)
        in if vote_req \<and> \<not> force \<and> lease then Some (Inl r)
           else if msg_type m = MsgRequestPreVote \<or>
                   (msg_type m = MsgRequestPreVoteResponse \<and> \<not> m_reject m) then Some (Inr r)
           else do {
             r \<leftarrow> become_follower E r (m_term m)
                   (if msg_type m \<in> {MsgAppend, MsgHeartbeat, MsgSnapshot} then m_from m else INVALID_ID);
             Some (Inr r)
           }
      else if m_term m < r_term r then
        (if (r_check_quorum r \<or> r_pre_vote r) \<and> (msg_type m = MsgHeartbeat \<or> msg_type m = MsgAppend)
         then do { r \<leftarrow> raft_send r (new_message (m_from m) MsgAppendResponse None); Some (Inl r) }
         else if msg_type m = MsgRequestPreVote
         then do {
           r \<leftarrow> raft_send r ((new_message (m_from m) MsgRequestPreVoteResponse None)
                  \<lparr>m_term := r_term r, m_reject := True\<rparr>);
           Some (Inl r)
         }
         else Some (Inl r))
      else Some (Inr r))"

definition step :: "('s, 'm) Env_scheme \<Rightarrow> 's Raft \<Rightarrow> Message \<Rightarrow> 's step_result" where
  "step E r m = do {
     s \<leftarrow> step_term E r m;
     case s of
       Inl r \<Rightarrow> Some (r, Inr ())
     | Inr r \<Rightarrow> (case msg_type m of
         MsgHup \<Rightarrow> ok (hup E r False)
       | MsgRequestVote \<Rightarrow> ok (step_vote E r m)
       | MsgRequestPreVote \<Rightarrow> ok (step_vote E r m)
       | _ \<Rightarrow> (case r_state r of
           PreCandidate \<Rightarrow> step_candidate E r m
         | Candidate \<Rightarrow> step_candidate E r m
         | Follower \<Rightarrow> step_follower E r m
         | Leader \<Rightarrow> step_leader E r m))
   }"

definition tick_election :: "('s, 'm) Env_scheme \<Rightarrow> 's Raft \<Rightarrow> ('s Raft \<times> bool) panics" where
  "tick_election E r = do {
     let r = r\<lparr>r_election_elapsed := r_election_elapsed r + 1\<rparr>;
     if \<not> pass_election_timeout r \<or> \<not> r_promotable r then Some (r, False)
     else do {
       (r, _) \<leftarrow> step E (r\<lparr>r_election_elapsed := 0\<rparr>) (new_message INVALID_ID MsgHup (Some (r_id r)));
       Some (r, True)
     }
   }"

definition tick_heartbeat :: "('s, 'm) Env_scheme \<Rightarrow> 's Raft \<Rightarrow> ('s Raft \<times> bool) panics" where
  "tick_heartbeat E r = do {
     let r = r\<lparr>r_heartbeat_elapsed := r_heartbeat_elapsed r + 1,
               r_election_elapsed := r_election_elapsed r + 1\<rparr>;
     (r, has_ready) \<leftarrow> (if r_election_timeout r \<le> r_election_elapsed r
         then do {
           let r = r\<lparr>r_election_elapsed := 0\<rparr>;
           (r, has_ready) \<leftarrow> (if r_check_quorum r
               then do {
                 (r, _) \<leftarrow> step E r (new_message INVALID_ID MsgCheckQuorum (Some (r_id r)));
                 Some (r, True)
               }
               else Some (r, False));
           Some (if r_state r = Leader \<and> r_lead_transferee r \<noteq> None then abort_leader_transfer r else r,
                 has_ready)
         }
         else Some (r, False));
     if r_state r \<noteq> Leader then Some (r, has_ready)
     else if r_heartbeat_timeout r \<le> r_heartbeat_elapsed r
     then do {
       (r, _) \<leftarrow> step E (r\<lparr>r_heartbeat_elapsed := 0\<rparr>) (new_message INVALID_ID MsgBeat (Some (r_id r)));
       Some (r, True)
     }
     else Some (r, has_ready)
   }"

definition tick :: "('s, 'm) Env_scheme \<Rightarrow> 's Raft \<Rightarrow> ('s Raft \<times> bool) panics" where
  "tick E r = (if r_state r = Leader then tick_heartbeat E r else tick_election E r)"

subsection \<open>Creation\<close>

definition load_state :: "('s, 'm) Env_scheme \<Rightarrow> 's Raft \<Rightarrow> HardState \<Rightarrow> 's Raft panics" where
  "load_state E r hs = do {
     last_index \<leftarrow> log_last_index E (r_log r);
     ensure (\<not> (hs_commit hs < committed (r_log r) \<or> last_index < hs_commit hs));
     Some (r\<lparr>r_log := (r_log r)\<lparr>committed := hs_commit hs\<rparr>, r_term := hs_term hs, r_vote := hs_vote hs\<rparr>)
   }"

definition Raft_new :: "('s, 'm) Env_scheme \<Rightarrow> Config \<Rightarrow> 's \<Rightarrow> (Error + 's Raft) panics" where
  "Raft_new E c st =
     (case validate c of
        Inl e \<Rightarrow> Some (Inl e)
      | Inr _ \<Rightarrow> (case st_initial_state E st of
          Inl e \<Rightarrow> Some (Inl e)
        | Inr rs \<Rightarrow> do {
            l \<leftarrow> RaftLog_new E st c;
            let r = \<lparr>r_prs = ProgressTracker_new (cfg_max_inflight_msgs c), r_msgs = [], r_witness_msgs = [],
              r_term = 0, r_vote = 0, r_id = cfg_id c, r_read_states = [], r_log = l,
              r_max_inflight = cfg_max_inflight_msgs c, r_max_msg_size = cfg_max_size_per_msg c,
              r_pending_request_snapshot = INVALID_INDEX, r_state = Follower, r_promotable = False,
              r_leader_id = 0, r_lead_transferee = None, r_pending_conf_index = 0,
              r_read_only = ReadOnly_new (cfg_read_only_option c), r_election_elapsed = 0,
              r_heartbeat_elapsed = 0, r_check_quorum = cfg_check_quorum c, r_pre_vote = cfg_pre_vote c,
              r_skip_bcast_commit = cfg_skip_bcast_commit c, r_batch_append = cfg_batch_append c,
              r_disable_proposal_forwarding = cfg_disable_proposal_forwarding c,
              r_heartbeat_timeout = cfg_heartbeat_tick c, r_election_timeout = cfg_election_tick c,
              r_randomized_election_timeout = 0, r_min_election_timeout = min_election_tick c,
              r_max_election_timeout = max_election_tick c, r_priority = cfg_priority c,
              r_uncommitted_state = \<lparr>max_uncommitted_size = cfg_max_uncommitted_size c,
                uncommitted_size = 0, last_log_tail_index = 0\<rparr>,
              r_max_committed_size_per_ready = cfg_max_committed_size_per_ready c\<rparr>;
            last_index \<leftarrow> log_last_index E (r_log r);
            case confchange_restore (r_prs r) last_index (rs_conf_state rs) of
              Inl e \<Rightarrow> Some (Inl e)
            | Inr prs \<Rightarrow> do {
                (r, new_cs) \<leftarrow> post_conf_change E (r\<lparr>r_prs := prs\<rparr>);
                ensure (conf_state_eq new_cs (rs_conf_state rs));
                r \<leftarrow> (if rs_hard_state rs \<noteq> HardState_default then load_state E r (rs_hard_state rs) else Some r);
                r \<leftarrow> (if 0 < cfg_applied c then commit_apply_internal E r (cfg_applied c) True else Some r);
                r \<leftarrow> become_follower E r (r_term r) INVALID_ID;
                Some (Inr r)
              }
          }))"

end
