(* ===== verification/Witness.thy ===== *)
theory Witness
  imports Proto
begin

text \<open>
  \<^verbatim>\<open>src/witness.rs\<close>: the witness, a voter without a log.  The \<^verbatim>\<open>WitnessStorage\<close> trait is only an
  interface of the host and has no code here.  \<open>process\<close> returns the new state with the response.
\<close>

record Witness =
  w_id :: nat
  w_term :: nat
  w_vote :: nat
  w_last_log_term :: nat
  w_last_log_subterm :: nat
  w_commit :: nat
  w_committed_log_term :: nat
  w_committed_log_subterm :: nat
  w_lead :: nat
  w_replication_set :: "nat list"

datatype WitnessResponse =
    Persist WitnessHardState
  | VoteGrant bool
  | StaleTerm nat

definition Witness_new :: "nat \<Rightarrow> Witness" where
  "Witness_new i = \<lparr>w_id = i, w_term = 0, w_vote = 0, w_last_log_term = 0, w_last_log_subterm = 0,
     w_commit = 0, w_committed_log_term = 0, w_committed_log_subterm = 0, w_lead = 0,
     w_replication_set = []\<rparr>"

definition witness_restore :: "Witness \<Rightarrow> WitnessHardState \<Rightarrow> Witness" where
  "witness_restore w st = w\<lparr>
     w_term := hs_term (wh_state st),
     w_vote := hs_vote (wh_state st),
     w_commit := hs_commit (wh_state st),
     w_last_log_term := wh_last_log_term st,
     w_last_log_subterm := wh_last_log_subterm st,
     w_committed_log_term := wh_committed_log_term st,
     w_committed_log_subterm := wh_committed_log_subterm st,
     w_lead := wh_lead st,
     w_replication_set := hs_extend [] (wh_replication_set st)\<rparr>"

definition to_hard_state :: "Witness \<Rightarrow> WitnessHardState" where
  "to_hard_state w = \<lparr>
     wh_state = \<lparr>hs_term = w_term w, hs_vote = w_vote w, hs_commit = w_commit w\<rparr>,
     wh_last_log_index = 0,
     wh_last_log_term = w_last_log_term w,
     wh_last_log_subterm = w_last_log_subterm w,
     wh_lead = w_lead w,
     wh_replication_set = w_replication_set w,
     wh_replication_set_outgoing = [],
     wh_committed_log_term = w_committed_log_term w,
     wh_committed_log_subterm = w_committed_log_subterm w\<rparr>"

definition witness_handle_append :: "Witness \<Rightarrow> WitnessMessage \<Rightarrow> Witness \<times> WitnessResponse option" where
  "witness_handle_append w msg =
     (if wm_term msg < w_term w then (w, Some (StaleTerm (w_term w)))
      else
        let w = (if w_term w < wm_term msg then w\<lparr>w_term := wm_term msg, w_vote := 0\<rparr> else w);
            w = w\<lparr>w_lead := wm_from msg\<rparr>;
            w = w\<lparr>w_replication_set :=
                   hs_extend (hs_extend [] (wm_replication_set_incoming msg))
                     (wm_replication_set_outgoing msg)\<rparr>;
            ents = wm_entries msg;
            w = (if ents \<noteq> []
                 then w\<lparr>w_last_log_term := e_term (last ents),
                        w_last_log_subterm := e_subterm (last ents)\<rparr>
                 else w);
            w = (if w_commit w < wm_commit msg
                 then let w = w\<lparr>w_commit := wm_commit msg\<rparr>
                      in if wm_commit_term msg \<noteq> 0
                         then w\<lparr>w_committed_log_term := wm_commit_term msg,
                                w_committed_log_subterm := wm_commit_subterm msg\<rparr>
                         else if ents \<noteq> []
                         then let first_idx = e_index (hd ents); last_idx = e_index (last ents)
                              in if first_idx \<le> wm_commit msg \<and> wm_commit msg \<le> last_idx
                                 then case index ents (wm_commit msg - first_idx) of
                                        Some entry \<Rightarrow> w\<lparr>w_committed_log_term := e_term entry,
                                          w_committed_log_subterm := e_subterm entry\<rparr>
                                      | None \<Rightarrow> w
                                 else w
                         else w
                 else w)
        in (w, Some (Persist (to_hard_state w))))"

definition witness_handle_vote :: "Witness \<Rightarrow> WitnessMessage \<Rightarrow> bool \<Rightarrow> Witness \<times> WitnessResponse option" where
  "witness_handle_vote w msg is_pre_vote =
     (if wm_term msg < w_term w then (w, None)
      else
        let w = (if w_term w < wm_term msg \<and> \<not> is_pre_vote
                 then w\<lparr>w_term := wm_term msg, w_vote := 0\<rparr> else w);
            replication_set_ok =
              (if w_replication_set w \<noteq> []
               then list_all (\<lambda>(i, _). i \<in> set (w_replication_set w))
                      (filter snd (zip (wm_vote_ids msg) (wm_vote_vals msg)))
               else True);
            log_ok =
              (if w_last_log_term w < wm_last_log_term msg then True
               else if wm_last_log_term msg = w_last_log_term w
               then if w_last_log_subterm w < wm_last_log_subterm msg then True
                    else wm_last_log_subterm msg = w_last_log_subterm w \<and> replication_set_ok
               else False);
            can_vote = (w_term w < wm_term msg \<or> w_vote w = 0 \<or> w_vote w = wm_from msg);
            grant = (log_ok \<and> can_vote);
            w = (if grant \<and> \<not> is_pre_vote then w\<lparr>w_vote := wm_from msg\<rparr> else w)
        in (w, Some (VoteGrant grant)))"

definition witness_process :: "Witness \<Rightarrow> WitnessMessage \<Rightarrow> Witness \<times> WitnessResponse option" where
  "witness_process w msg =
     (case wm_msg_type msg of
        MsgAppend \<Rightarrow> witness_handle_append w msg
      | MsgRequestVote \<Rightarrow> witness_handle_vote w msg False
      | MsgRequestPreVote \<Rightarrow> witness_handle_vote w msg True
      | _ \<Rightarrow> (w, None))"

text \<open>The states of a witness along a sequence of messages.\<close>

fun witness_run :: "Witness \<Rightarrow> WitnessMessage list \<Rightarrow> Witness" where
  "witness_run w [] = w"
| "witness_run w (m # ms) = witness_run (fst (witness_process w m)) ms"

subsection \<open>One step\<close>

lemma witness_handle_append_state:
  "w_term (fst (witness_handle_append w m)) = max (w_term w) (wm_term m)"
  "w_vote (fst (witness_handle_append w m)) = (if w_term w < wm_term m then 0 else w_vote w)"
  "w_commit (fst (witness_handle_append w m)) =
     (if wm_term m < w_term w then w_commit w else max (w_commit w) (wm_commit m))"
  by (simp_all add: witness_handle_append_def Let_def max_def split: option.split)

lemma witness_handle_vote_frame:
  "w_term w \<le> w_term (fst (witness_handle_vote w m p))"
  "w_commit (fst (witness_handle_vote w m p)) = w_commit w"
  "w_term (fst (witness_handle_vote w m p)) = w_term w \<Longrightarrow> w_vote w \<noteq> 0 \<Longrightarrow>
     w_vote (fst (witness_handle_vote w m p)) = w_vote w"
  by (auto simp: witness_handle_vote_def Let_def split: if_splits)

lemma witness_process_mono:
  "w_term w \<le> w_term (fst (witness_process w m))"
  "w_commit w \<le> w_commit (fst (witness_process w m))"
  "w_term (fst (witness_process w m)) = w_term w \<Longrightarrow> w_vote w \<noteq> 0 \<Longrightarrow>
     w_vote (fst (witness_process w m)) = w_vote w"
  using witness_handle_append_state [of w m] witness_handle_vote_frame [of w m True]
    witness_handle_vote_frame [of w m False]
  by (auto simp: witness_process_def split: MessageType.splits)

lemma witness_grant_sets_vote:
  assumes "wm_msg_type m = MsgRequestVote" "witness_process w m = (w', Some (VoteGrant True))"
  shows "w_vote w' = wm_from m \<and> w_term w' = wm_term m"
  using assms by (auto simp: witness_process_def witness_handle_vote_def Let_def split: if_splits)

lemma witness_run_mono:
  "w_term w \<le> w_term (witness_run w ms)" "w_commit w \<le> w_commit (witness_run w ms)"
proof (induction ms arbitrary: w)
  case (Cons m ms)
  { case 1 show ?case using Cons.IH(1) [of "fst (witness_process w m)"] witness_process_mono(1) [of w m] by simp
  next
    case 2 show ?case using Cons.IH(2) [of "fst (witness_process w m)"] witness_process_mono(2) [of w m] by simp }
qed simp_all

lemma witness_run_vote:
  "w_term (witness_run w ms) = w_term w \<Longrightarrow> w_vote w \<noteq> 0 \<Longrightarrow> w_vote (witness_run w ms) = w_vote w"
proof (induction ms arbitrary: w)
  case (Cons m ms)
  let ?w = "fst (witness_process w m)"
  have "w_term ?w = w_term w"
    using Cons.prems(1) witness_run_mono(1) [of ?w ms] witness_process_mono(1) [of w m] by simp
  then show ?case using Cons witness_process_mono(3) [of w m] by simp
qed simp

subsection \<open>Properties\<close>

text \<open>C19: the witness votes once per term.  If it grants a vote to a candidate (whose id is not 0, the id that stands for
  nobody) and later, after any sequence of messages of any kind, grants a vote in the same term, the candidates are the same.
  The term of the witness never decreases along the way, neither in the grants nor in between, and with the first grant it is
  the term of the request; the commit index never decreases either.\<close>

theorem witness_votes_once:
  assumes "wm_msg_type m1 = MsgRequestVote" "wm_msg_type m2 = MsgRequestVote"
    and "witness_process w m1 = (w1, Some (VoteGrant True))"
    and "witness_process (witness_run w1 ms) m2 = (w2, Some (VoteGrant True))"
    and "wm_term m1 = wm_term m2" "wm_from m1 \<noteq> 0"
  shows "wm_from m1 = wm_from m2 \<and>
    w_term w \<le> w_term w1 \<and> w_term w1 = wm_term m1 \<and> w_term w1 \<le> w_term (witness_run w1 ms) \<and>
    w_term (witness_run w1 ms) \<le> w_term w2 \<and>
    w_commit w \<le> w_commit w1 \<and> w_commit w1 \<le> w_commit (witness_run w1 ms) \<and> w_commit (witness_run w1 ms) \<le> w_commit w2"
proof -
  let ?w = "witness_run w1 ms"
  have 1: "w_vote w1 = wm_from m1" "w_term w1 = wm_term m1" using witness_grant_sets_vote [OF assms(1,3)] by auto
  have 2: "w_vote w2 = wm_from m2" "w_term w2 = wm_term m2" using witness_grant_sets_vote [OF assms(2,4)] by auto
  have mono: "w_term w \<le> w_term w1" "w_term w1 \<le> w_term ?w" "w_term ?w \<le> w_term w2"
      "w_commit w \<le> w_commit w1" "w_commit w1 \<le> w_commit ?w" "w_commit ?w \<le> w_commit w2"
    using witness_process_mono [of w m1] witness_run_mono [of w1 ms] witness_process_mono [of ?w m2] assms(3,4) by auto
  then have same: "w_term ?w = w_term w1" "w_term w2 = w_term ?w" using 1 2 assms(5) by auto
  have "w_vote ?w = wm_from m1" using witness_run_vote [OF same(1)] 1 assms(6) by simp
  then have "w_vote w2 = wm_from m1" using witness_process_mono(3) [of ?w m2] same(2) assms(4,6) by simp
  then show ?thesis using 1 2 mono by simp
qed

text \<open>A witness grants its vote to candidate 2 in term 3; after it has refused candidate 4 and seen an append of that term, it
  grants the vote to candidate 2 again.\<close>

definition ex_vote_request :: "nat \<Rightarrow> WitnessMessage" where
  "ex_vote_request i = WitnessMessage_default\<lparr>wm_msg_type := MsgRequestVote, wm_term := 3, wm_from := i\<rparr>"

definition ex_between :: "WitnessMessage list" where
  "ex_between = [ex_vote_request 4, WitnessMessage_default\<lparr>wm_msg_type := MsgAppend, wm_term := 3, wm_from := 2, wm_commit := 1\<rparr>]"

theorem witness_votes_once_witness:
  defines "w1 \<equiv> fst (witness_process (Witness_new 9) (ex_vote_request 2))"
  defines "w2 \<equiv> fst (witness_process (witness_run w1 ex_between) (ex_vote_request 2))"
  shows "witness_process (Witness_new 9) (ex_vote_request 2) = (w1, Some (VoteGrant True)) \<and>
    snd (witness_process w1 (ex_vote_request 4)) = Some (VoteGrant False) \<and>
    witness_process (witness_run w1 ex_between) (ex_vote_request 2) = (w2, Some (VoteGrant True)) \<and>
    w_term (Witness_new 9) \<le> w_term w1 \<and> w_term w1 = 3 \<and> w_term w1 \<le> w_term w2 \<and> w_commit w1 \<le> w_commit w2"
proof -
  have g: "snd (witness_process (Witness_new 9) (ex_vote_request 2)) = Some (VoteGrant True)"
      "snd (witness_process w1 (ex_vote_request 4)) = Some (VoteGrant False)"
      "snd (witness_process (witness_run w1 ex_between) (ex_vote_request 2)) = Some (VoteGrant True)"
    unfolding w1_def by code_simp+
  have p: "witness_process (Witness_new 9) (ex_vote_request 2) = (w1, Some (VoteGrant True))"
      "witness_process (witness_run w1 ex_between) (ex_vote_request 2) = (w2, Some (VoteGrant True))"
    using g unfolding w1_def w2_def by (simp_all add: prod_eq_iff)
  have m: "wm_msg_type (ex_vote_request 2) = MsgRequestVote" "wm_term (ex_vote_request 2) = 3" "wm_from (ex_vote_request 2) = 2"
    by (simp_all add: ex_vote_request_def)
  show ?thesis using witness_votes_once [OF m(1) m(1) p refl] p g(2) m by auto
qed

text \<open>The witness grants a vote exactly when the paper's rule says so: the request is not stale,
  the witness has not voted for another candidate in that term, and the candidate's last (term,
  subterm) is lexicographically larger than the last one received, or equal with every granting
  voter inside a non-empty replication set (an empty set admits any).\<close>

theorem witness_grant_iff:
  "snd (witness_process w (m\<lparr>wm_msg_type := MsgRequestVote\<rparr>)) = Some (VoteGrant True) \<longleftrightarrow>
    w_term w \<le> wm_term m \<and>
    (w_term w = wm_term m \<longrightarrow> w_vote w \<in> {0, wm_from m}) \<and>
    (w_last_log_term w < wm_last_log_term m \<or>
     w_last_log_term w = wm_last_log_term m \<and> w_last_log_subterm w < wm_last_log_subterm m \<or>
     w_last_log_term w = wm_last_log_term m \<and> w_last_log_subterm w = wm_last_log_subterm m \<and>
       (w_replication_set w = [] \<or>
        (\<forall>(i, v) \<in> set (zip (wm_vote_ids m) (wm_vote_vals m)). v \<longrightarrow> i \<in> set (w_replication_set w))))"
  by (auto simp: witness_process_def witness_handle_vote_def Let_def list_all_iff)

text \<open>A pre-vote never changes the witness, and its answer does not depend on the committed log
  position: the comparison uses the last received (term, subterm), not the committed one.\<close>

theorem witness_vote_ignores_committed_log:
  "fst (witness_process w (m\<lparr>wm_msg_type := MsgRequestPreVote\<rparr>)) = w \<and>
   snd (witness_handle_vote (w\<lparr>w_committed_log_term := t, w_committed_log_subterm := s\<rparr>) m p) =
   snd (witness_handle_vote w m p)"
  by (simp add: witness_process_def witness_handle_vote_def Let_def)

text \<open>Persisting and restoring the witness gives the state back, for any order in which the
  replication set is written out.\<close>

theorem witness_persist_roundtrip:
  assumes "distinct (w_replication_set w)" "mset ids = mset (w_replication_set w)"
  shows "let w' = witness_restore (Witness_new (w_id w)) ((to_hard_state w)\<lparr>wh_replication_set := ids\<rparr>)
    in w' = w\<lparr>w_replication_set := w_replication_set w'\<rparr> \<and>
       set (w_replication_set w') = set (w_replication_set w) \<and> distinct (w_replication_set w')"
  using assms mset_eq_setD [OF assms(2)]
  by (simp add: witness_restore_def to_hard_state_def Witness_new_def Let_def)

end
