(* ===== verification/Raft_Safety.thy ===== *)
theory Raft_Safety
  imports Raft_Step Witness
begin

text \<open>
  What a node keeps along every step: the frame of the operations that only send, and the monotone
  part of the persistent state (term, vote, commit index), for every storage.
\<close>

subsection \<open>Operations that only send\<close>

definition core_of :: "'s Raft \<Rightarrow> nat \<times> nat \<times> nat \<times> 's RaftLog \<times> StateRole" where
  "core_of r = (r_id r, r_term r, r_vote r, r_log r, r_state r)"

lemma core_of_upd [simp]:
  "core_of (r\<lparr>r_msgs := a\<rparr>) = core_of r" "core_of (r\<lparr>r_witness_msgs := b\<rparr>) = core_of r"
  "core_of (r\<lparr>r_read_only := c\<rparr>) = core_of r" "core_of (r\<lparr>r_read_states := d\<rparr>) = core_of r"
  "core_of (r\<lparr>r_prs := e\<rparr>) = core_of r" "core_of (r\<lparr>r_uncommitted_state := f\<rparr>) = core_of r"
  "core_of (r\<lparr>r_pending_conf_index := g\<rparr>) = core_of r" "core_of (r\<lparr>r_lead_transferee := h\<rparr>) = core_of r"
  "core_of (r\<lparr>r_election_elapsed := i\<rparr>) = core_of r" "core_of (r\<lparr>r_heartbeat_elapsed := i\<rparr>) = core_of r"
  "core_of (r\<lparr>r_leader_id := i\<rparr>) = core_of r" "core_of (r\<lparr>r_promotable := j\<rparr>) = core_of r"
  "core_of (r\<lparr>r_pending_request_snapshot := i\<rparr>) = core_of r" "core_of (set_progress k pr r) = core_of r"
  by (simp_all add: core_of_def set_progress_def)

lemma raft_send_core [frame]: "raft_send r m = Some r' \<Longrightarrow> core_of r' = core_of r"
  by (auto simp: raft_send_def bind_eq_Some_conv)

lemma raft_send_append_core [frame]: "raft_send_append E r to = Some r' \<Longrightarrow> core_of r' = core_of r"
  by (auto simp: raft_send_append_def bind_eq_Some_conv)

lemma raft_maybe_send_append_core [frame]:
  "raft_maybe_send_append E b r to = Some r' \<Longrightarrow> core_of r' = core_of r"
  by (auto simp: raft_maybe_send_append_def bind_eq_Some_conv)

lemma raft_send_append_aggressively_core [frame]:
  "raft_send_append_aggressively E r to = Some r' \<Longrightarrow> core_of r' = core_of r"
  by (auto simp: raft_send_append_aggressively_def bind_eq_Some_conv)

lemma bcast_append_core [frame]: "bcast_append E r = Some r' \<Longrightarrow> core_of r' = core_of r"
  unfolding bcast_append_def by (erule foldM_const) (rule raft_send_append_core)

lemma send_timeout_now_core [frame]: "send_timeout_now r to = Some r' \<Longrightarrow> core_of r' = core_of r"
  by (auto simp: send_timeout_now_def raft_send_core)

lemma send_request_snapshot_core [frame]: "send_request_snapshot E r = Some r' \<Longrightarrow> core_of r' = core_of r"
  by (auto simp: send_request_snapshot_def bind_eq_Some_conv raft_send_core)

lemma ready_read_core [frame]: "ready_read r req idx = Some r' \<Longrightarrow> core_of r' = core_of r"
  by (auto simp: ready_read_def handle_ready_read_index_def bind_eq_Some_conv
      split: if_splits option.splits dest!: raft_send_core)

lemma advance_loop_core:
  "foldM (\<lambda>rs r. ready_read r (ris_req rs) (ris_index rs)) rss r = Some r' \<Longrightarrow> core_of r' = core_of r"
  by (erule foldM_const) (rule ready_read_core)

lemma advance_reads_core [frame]: "advance_reads r ctx = Some r' \<Longrightarrow> core_of r' = core_of r"
  by (auto simp: advance_reads_def elim!: bind_SomeE split: prod.split_asm dest!: advance_loop_core)

lemma witness_read_acks_core [frame]: "witness_read_acks r ctx ws = Some r' \<Longrightarrow> core_of r' = core_of r"
proof (induction ws arbitrary: r)
  case (Cons w ws)
  then show ?case by (auto simp: Let_def split: prod.splits if_splits dest!: advance_reads_core)
qed simp

lemma bcast_heartbeat_with_ctx_core [frame]: "bcast_heartbeat_with_ctx r ctx = Some r' \<Longrightarrow> core_of r' = core_of r"
proof -
  assume "bcast_heartbeat_with_ctx r ctx = Some r'"
  then obtain r1 where r1: "foldM (\<lambda>i r. do {
              pr \<leftarrow> get_progress r i;
              if is_witness pr then Some r
              else do { msgs \<leftarrow> core_send_heartbeat r i pr ctx (r_msgs r); Some (r\<lparr>r_msgs := msgs\<rparr>) }
            }) (peers r) r = Some r1"
    and r': "(case ctx of None \<Rightarrow> Some r1 | Some c \<Rightarrow> witness_read_acks r1 c
         (filter (\<lambda>w. w \<noteq> 0) [fst (witnesses (conf (r_prs r1))), snd (witnesses (conf (r_prs r1)))])) = Some r'"
    unfolding bcast_heartbeat_with_ctx_def by (elim bind_SomeE) simp
  from r1 have "core_of r1 = core_of r"
    by (rule foldM_const) (auto simp: bind_eq_Some_conv split: if_splits)
  then show ?thesis using r' by (auto split: option.splits dest!: witness_read_acks_core)
qed

lemma bcast_heartbeat_core [frame]: "bcast_heartbeat r = Some r' \<Longrightarrow> core_of r' = core_of r"
  by (auto simp: bcast_heartbeat_def bcast_heartbeat_with_ctx_core)

lemma send_append_to_witness_core [frame]:
  "send_append_to_witness E r w = Some (r', b) \<Longrightarrow> core_of r' = core_of r"
  by (auto simp: send_append_to_witness_def Let_def elim!: bind_SomeE split: sum.split_asm list.split_asm)

lemma send_request_vote_to_witness_core [frame]:
  "send_request_vote_to_witness E r w t trm = Some r' \<Longrightarrow> core_of r' = core_of r"
  by (auto simp: send_request_vote_to_witness_def bind_eq_Some_conv Let_def)

lemma contact_witness_core [frame]: "contact_witness E s wi r = Some r' \<Longrightarrow> core_of r' = core_of r"
  by (auto simp: contact_witness_def bind_eq_Some_conv split: prod.splits if_splits option.splits
      dest!: send_append_to_witness_core)

subsection \<open>What never goes back\<close>

text \<open>
  The relation of a state to a later one: the same node, terms do not decrease, within a term a vote
  once cast is not changed, and the commit index does not decrease.
\<close>

definition raft_mono :: "'s Raft \<Rightarrow> 's Raft \<Rightarrow> bool" where
  "raft_mono r r' \<longleftrightarrow> r_id r' = r_id r \<and> r_term r \<le> r_term r' \<and>
     (r_term r' = r_term r \<longrightarrow> r_vote r \<noteq> 0 \<longrightarrow> r_vote r' = r_vote r) \<and>
     committed (r_log r) \<le> committed (r_log r')"

lemma raft_mono_refl [simp]: "raft_mono r r"
  by (simp add: raft_mono_def)

lemma raft_mono_trans [trans]: "raft_mono r s \<Longrightarrow> raft_mono s t \<Longrightarrow> raft_mono r t"
  by (auto simp: raft_mono_def)

lemma core_mono: "core_of r' = core_of r \<Longrightarrow> raft_mono r r'"
  by (simp add: core_of_def raft_mono_def)

lemma core_mono_left: "core_of r = core_of s \<Longrightarrow> raft_mono r t = raft_mono s t"
  by (simp add: core_of_def raft_mono_def)

lemma core_mono_right: "core_of t = core_of s \<Longrightarrow> raft_mono r t = raft_mono r s"
  by (simp add: core_of_def raft_mono_def)

subsection \<open>The log\<close>

lemma log_commit_to_mono: "log_commit_to S l c = Some l' \<Longrightarrow> committed l \<le> committed l'"
  by (auto simp: log_commit_to_def bind_eq_Some_conv split: if_splits)

lemma log_append_committed: "log_append S l es = Some (l', i) \<Longrightarrow> committed l' = committed l"
  by (auto simp: log_append_def bind_eq_Some_conv Let_def split: if_splits)

lemma log_maybe_append_mono: "log_maybe_append S l i t c es = Some (l', x) \<Longrightarrow> committed l \<le> committed l'"
  by (auto simp: log_maybe_append_def Let_def elim!: bind_SomeE split: if_split_asm
      dest!: log_commit_to_mono log_append_committed)

lemma log_maybe_commit_mono: "log_maybe_commit S l i t = Some (l', b) \<Longrightarrow> committed l \<le> committed l'"
  by (auto simp: log_maybe_commit_def elim!: bind_SomeE split: if_split_asm dest!: log_commit_to_mono)

lemma log_maybe_persist_committed: "log_maybe_persist S l i t = Some (l', b) \<Longrightarrow> committed l' = committed l"
  by (auto simp: log_maybe_persist_def Let_def elim!: bind_SomeE split: if_split_asm)

lemma log_maybe_persist_snap_committed: "log_maybe_persist_snap l i = Some (l', b) \<Longrightarrow> committed l' = committed l"
  by (auto simp: log_maybe_persist_snap_def elim!: bind_SomeE split: if_split_asm)

lemma log_restore_mono: "log_restore l snap = Some l' \<Longrightarrow> committed l \<le> committed l'"
  by (auto simp: log_restore_def Let_def elim!: bind_SomeE split: if_split_asm)

lemma log_applied_to_committed: "log_applied_to l i = Some l' \<Longrightarrow> committed l' = committed l"
  by (auto simp: log_applied_to_def log_applied_to_unchecked_def elim!: bind_SomeE split: if_split_asm)

lemma raft_mono_log [simp]: "raft_mono r (r\<lparr>r_log := l\<rparr>) \<longleftrightarrow> committed (r_log r) \<le> committed l"
  by (auto simp: raft_mono_def)

subsection \<open>Commits, appends and roles\<close>

lemma contact_loop_core: "foldM (contact_witness E s) ws r = Some r' \<Longrightarrow> core_of r' = core_of r"
  by (erule foldM_const) (rule contact_witness_core)

lemma maybe_commit_mono [invs]:
  "maybe_commit E r = Some (r', b) \<Longrightarrow>
    raft_mono r r' \<and> r_term r' = r_term r \<and> r_vote r' = r_vote r \<and> r_state r' = r_state r"
  by (auto simp: maybe_commit_def Let_def raft_mono_def core_of_def set_progress_def elim!: bind_SomeE
      split: if_split_asm prod.split_asm dest!: contact_loop_core log_maybe_commit_mono)

lemma maybe_commit_and_bcast_mono [invs]:
  "maybe_commit_and_bcast E r = Some r' \<Longrightarrow>
    raft_mono r r' \<and> r_term r' = r_term r \<and> r_vote r' = r_vote r \<and> r_state r' = r_state r"
  by (auto simp: maybe_commit_and_bcast_def raft_mono_def core_of_def elim!: bind_SomeE
      split: if_split_asm prod.split_asm dest!: maybe_commit_mono bcast_append_core)

lemma append_entry_mono [invs]:
  "append_entry E r es = Some (r', b) \<Longrightarrow> raft_mono r r' \<and> r_term r' = r_term r \<and> r_vote r' = r_vote r \<and> r_state r' = r_state r"
  by (auto simp: append_entry_def Let_def raft_mono_def elim!: bind_SomeE split: if_split_asm prod.split_asm
      dest!: log_append_committed)

lemma maybe_start_new_subterm_mono [invs]:
  "maybe_start_new_subterm E r nt cc = Some (r', b) \<Longrightarrow>
    raft_mono r r' \<and> r_term r' = r_term r \<and> r_vote r' = r_vote r \<and> r_state r' = r_state r"
proof -
  assume "maybe_start_new_subterm E r nt cc = Some (r', b)"
  then obtain prs where "r' = r\<lparr>r_prs := prs\<rparr> \<or> (\<exists>b. append_entry E (r\<lparr>r_prs := prs\<rparr>) [Entry_default] = Some (r', b))"
    by (auto simp: maybe_start_new_subterm_def Let_def elim!: bind_SomeE split: if_split_asm prod.split_asm)
  then show ?thesis
    using append_entry_mono [of E "r\<lparr>r_prs := prs\<rparr>" "[Entry_default]" r'] core_mono_left [of r "r\<lparr>r_prs := prs\<rparr>"]
    by (auto simp: raft_mono_def)
qed

lemma raft_reset_core:
  "raft_reset E r t = Some r' \<Longrightarrow> r_id r' = r_id r \<and> r_term r' = t \<and> r_log r' = r_log r \<and> r_state r' = r_state r \<and>
    r_vote r' = (if r_term r = t then r_vote r else 0)"
  by (auto simp: raft_reset_def Let_def reset_randomized_election_timeout_def abort_leader_transfer_def
      INVALID_ID_def elim!: bind_SomeE split: if_split_asm)

lemma become_follower_core:
  "become_follower E r t l = Some r' \<Longrightarrow> r_id r' = r_id r \<and> r_term r' = t \<and> r_state r' = Follower \<and>
    committed (r_log r') = committed (r_log r) \<and> r_vote r' = (if r_term r = t then r_vote r else 0)"
  by (auto simp: become_follower_def Let_def elim!: bind_SomeE dest!: raft_reset_core)

lemma become_follower_mono [invs]:
  "become_follower E r t l = Some r' \<Longrightarrow> r_term r \<le> t \<Longrightarrow> raft_mono r r'"
  by (auto simp: raft_mono_def dest!: become_follower_core)

lemma become_candidate_core:
  "become_candidate E r = Some r' \<Longrightarrow> r_id r' = r_id r \<and> r_term r' = r_term r + 1 \<and> r_vote r' = r_id r \<and>
    r_log r' = r_log r \<and> r_state r' = Candidate"
  by (auto simp: become_candidate_def elim!: bind_SomeE dest!: raft_reset_core)

lemma become_pre_candidate_core:
  "become_pre_candidate r = Some r' \<Longrightarrow> r_id r' = r_id r \<and> r_term r' = r_term r \<and> r_vote r' = r_vote r \<and>
    r_log r' = r_log r \<and> r_state r' = PreCandidate"
  by (auto simp: become_pre_candidate_def elim!: bind_SomeE)

lemma become_leader_mono [invs]:
  "become_leader E r = Some r' \<Longrightarrow> raft_mono r r' \<and> r_term r' = r_term r \<and> r_vote r' = r_vote r \<and> r_state r' = Leader"
  by (auto simp: become_leader_def Let_def raft_mono_def set_progress_def elim!: bind_SomeE
      split: if_split_asm prod.split_asm dest!: raft_reset_core append_entry_mono maybe_start_new_subterm_mono)

subsection \<open>Elections\<close>

lemma vote_requests_core:
  "foldM (\<lambda>(w, ready) r. if ready then send_request_vote_to_witness E r w t
       (if t = MsgRequestPreVote then r_term r + 1 else r_term r) else Some r) ws r = Some r' \<Longrightarrow>
    core_of r' = core_of r"
  by (erule foldM_const) (auto split: prod.splits if_splits dest!: send_request_vote_to_witness_core)

lemma poll_body_mono:
  assumes "poll_body E ce r from t v = Some (r', res)"
    and "\<And>s s'. ce s = Some s' \<Longrightarrow> raft_mono s s'"
  shows "raft_mono r r'"
  using assms(1)
  by (auto simp: poll_body_def Let_def elim!: bind_SomeE split: VoteResult.split_asm if_split_asm prod.split_asm
      dest!: vote_requests_core become_leader_mono bcast_append_core become_follower_core assms(2))
     (auto simp: raft_mono_def core_of_def)

lemma campaign_sends_core:
  "foldM (\<lambda>i r. if i = r_id r then Some r
      else if i = fst (witnesses (conf (r_prs r))) \<or> i = snd (witnesses (conf (r_prs r))) then Some r
      else do {
        last_index \<leftarrow> log_last_index E (r_log r);
        last_term \<leftarrow> log_last_term E (r_log r);
        raft_send r (f i last_index last_term)
      }) ids r = Some r' \<Longrightarrow> core_of r' = core_of r"
  by (erule foldM_const) (auto elim!: bind_SomeE split: if_split_asm dest!: raft_send_core)

lemma campaign_body_mono:
  assumes "campaign_body E pf r ct = Some r'"
    and "\<And>s i t v s' res. pf s i t v = Some (s', res) \<Longrightarrow> raft_mono s s'"
  shows "raft_mono r r'"
  using assms(1)
  by (auto simp: campaign_body_def Let_def elim!: bind_SomeE split: if_split_asm prod.split_asm
      dest!: campaign_sends_core become_candidate_core become_pre_candidate_core assms(2))
     (auto simp: raft_mono_def core_of_def)

lemma campaign_election_mono: "campaign_election E r = Some r' \<Longrightarrow> raft_mono r r'"
  unfolding campaign_election_def by (erule campaign_body_mono) (erule poll_body_mono, simp)

lemma poll_mono [invs]: "poll E r from t v = Some (r', res) \<Longrightarrow> raft_mono r r'"
  unfolding poll_def by (erule poll_body_mono) (rule campaign_election_mono)

lemma campaign_mono [invs]: "campaign E r ct = Some r' \<Longrightarrow> raft_mono r r'"
  unfolding campaign_def by (erule campaign_body_mono) (rule poll_mono)

lemma hup_mono [invs]: "hup E r b = Some r' \<Longrightarrow> raft_mono r r'"
  by (auto simp: hup_def Let_def elim!: bind_SomeE split: if_split_asm dest: campaign_mono)

text \<open>The equations of the source for \<open>poll\<close> and \<open>campaign\<close>.\<close>

lemma poll_body_no_pre:
  assumes "r_state r \<noteq> PreCandidate"
  shows "poll_body E f r from t v = poll_body E g r from t v"
  using assms by (simp add: poll_body_def Let_def split: VoteResult.split prod.split)

lemma campaign_election_eq: "campaign_election E r = campaign E r CAMPAIGN_ELECTION"
proof -
  have "CAMPAIGN_ELECTION \<noteq> CAMPAIGN_PRE_ELECTION"
    by (simp add: CAMPAIGN_ELECTION_def CAMPAIGN_PRE_ELECTION_def)
  moreover have "poll_body E (\<lambda>_. None) r' (r_id r') MsgRequestVote True = poll E r' (r_id r') MsgRequestVote True"
    if "become_candidate E r = Some r'" for r'
    unfolding poll_def by (rule poll_body_no_pre) (use become_candidate_core [OF that] in simp)
  ultimately show ?thesis
    by (cases "become_candidate E r") (simp_all add: campaign_election_def campaign_def campaign_body_def)
qed

lemma poll_campaign_unfold:
  "poll E r from t v = poll_body E (\<lambda>r. campaign E r CAMPAIGN_ELECTION) r from t v"
  "campaign E r ct = campaign_body E (poll E) r ct"
  by (simp_all add: poll_def campaign_def campaign_election_eq [abs_def])

subsection \<open>Handlers\<close>

lemma handle_append_response_mono [invs]: "handle_append_response E r m = Some r' \<Longrightarrow> raft_mono r r'"
  by (auto simp: handle_append_response_def Let_def elim!: bind_SomeE
      split: if_split_asm prod.split_asm option.split_asm
      dest!: raft_send_append_core maybe_commit_mono bcast_append_core raft_send_append_aggressively_core
        send_timeout_now_core)
     (auto simp: raft_mono_def core_of_def set_progress_def)

lemma handle_heartbeat_response_core [frame]: "handle_heartbeat_response E r m = Some r' \<Longrightarrow> core_of r' = core_of r"
  by (auto simp: handle_heartbeat_response_def Let_def elim!: bind_SomeE
      split: if_split_asm prod.split_asm option.split_asm dest!: raft_send_append_core advance_reads_core)

lemma handle_transfer_leader_core [frame]: "handle_transfer_leader E r m = Some r' \<Longrightarrow> core_of r' = core_of r"
  by (auto simp: handle_transfer_leader_def abort_leader_transfer_def Let_def elim!: bind_SomeE
      split: if_split_asm option.split_asm dest!: raft_send_append_core send_timeout_now_core)

lemma handle_status_core [frame]:
  "core_of (handle_snapshot_status r m) = core_of r" "core_of (handle_unreachable r m) = core_of r"
  by (auto simp: handle_snapshot_status_def handle_unreachable_def Let_def split: option.split)

lemma check_quorum_active_core [frame]: "check_quorum_active r = (r', b) \<Longrightarrow> core_of r' = core_of r"
  by (auto simp: check_quorum_active_def split: prod.split_asm)

lemma propose_entries_core [frame]: "propose_entries E i es r = Some (r', x) \<Longrightarrow> core_of r' = core_of r"
proof (induction es arbitrary: i r x)
  case (Cons e es)
  then show ?case
    by (auto simp: Let_def elim!: bind_SomeE split: proposed.split_asm if_split_asm sum.split_asm prod.split_asm
        dest!: Cons.IH)
qed simp

lemma leader_propose_mono [invs]: "leader_propose E r m = Some (r', x) \<Longrightarrow> raft_mono r r'"
  by (auto simp: leader_propose_def elim!: bind_SomeE split: if_split_asm sum.split_asm prod.split_asm
      dest!: propose_entries_core append_entry_mono bcast_append_core)
     (auto simp: raft_mono_def core_of_def)

lemma leader_check_quorum_mono [invs]: "leader_check_quorum E r = Some r' \<Longrightarrow> raft_mono r r'"
  by (auto simp: leader_check_quorum_def Let_def elim!: bind_SomeE split: if_split_asm prod.split_asm
      dest!: maybe_start_new_subterm_mono check_quorum_active_core become_follower_core)
     (auto simp: raft_mono_def core_of_def)

lemma leader_read_index_core [frame]: "leader_read_index E r m = Some r' \<Longrightarrow> core_of r' = core_of r"
  by (auto simp: leader_read_index_def elim!: bind_SomeE split: if_split_asm ReadOnlyOption.split_asm
      dest!: ready_read_core bcast_heartbeat_with_ctx_core)

lemma handle_status_mono [invs]:
  "raft_mono r (handle_snapshot_status r m)" "raft_mono r (handle_unreachable r m)"
  by (rule core_mono, rule handle_status_core)+

lemma leader_beat_mono:
  "bcast_heartbeat r = Some r1 \<Longrightarrow>
    (if raft_has_witness r1 then maybe_commit_and_bcast E r1 else Some r1) = Some r' \<Longrightarrow> raft_mono r r'"
  by (auto split: if_split_asm dest!: bcast_heartbeat_core maybe_commit_and_bcast_mono)
     (auto simp: raft_mono_def core_of_def)

lemma step_leader_mono [invs]: "step_leader E r m = Some (r', x) \<Longrightarrow> raft_mono r r'"
  by (cases "msg_type m")
     (auto simp: step_leader_def handle_status_mono elim!: bind_SomeE split: if_split_asm option.split_asm
      dest: handle_append_response_mono leader_propose_mono leader_check_quorum_mono leader_beat_mono
        core_mono [OF leader_read_index_core] core_mono [OF handle_heartbeat_response_core]
        core_mono [OF handle_transfer_leader_core] core_mono [OF bcast_heartbeat_core])

lemma peers_send_core:
  "foldM (\<lambda>i r. raft_maybe_send_append E b r i) ids r = Some r' \<Longrightarrow> core_of r' = core_of r"
  by (erule foldM_const) (rule raft_maybe_send_append_core)

lemma post_conf_change_mono [invs]:
  "post_conf_change E r = Some (r', cs) \<Longrightarrow>
    raft_mono r r' \<and> r_term r' = r_term r \<and> r_vote r' = r_vote r \<and> r_state r' = r_state r"
  by (auto simp: post_conf_change_def abort_leader_transfer_def Let_def elim!: bind_SomeE
      split: if_split_asm prod.split_asm option.split_asm option.split
      dest!: maybe_commit_mono bcast_append_core peers_send_core advance_reads_core)
     (auto simp: raft_mono_def core_of_def)

lemma apply_conf_change_mono [invs]: "apply_conf_change E r cc = Some (r', x) \<Longrightarrow> raft_mono r r'"
  by (auto simp: apply_conf_change_def elim!: bind_SomeE split: if_split_asm prod.split_asm option.split_asm sum.split_asm
      dest!: post_conf_change_mono maybe_start_new_subterm_mono)
     (auto simp: raft_mono_def)

lemma raft_restore_mono [invs]: "raft_restore E r snap = Some (r', b) \<Longrightarrow> raft_mono r r'"
  by (auto simp: raft_restore_def Let_def elim!: bind_SomeE split: if_split_asm prod.split_asm
      dest!: become_follower_core log_commit_to_mono log_restore_mono post_conf_change_mono)
     (auto simp: raft_mono_def set_progress_def)

lemma handle_append_entries_mono [invs]: "handle_append_entries E r m = Some r' \<Longrightarrow> raft_mono r r'"
  by (auto simp: handle_append_entries_def Let_def elim!: bind_SomeE split: if_split_asm prod.split_asm option.split_asm
      dest!: send_request_snapshot_core raft_send_core log_maybe_append_mono)
     (auto simp: raft_mono_def core_of_def)

lemma handle_heartbeat_mono [invs]: "handle_heartbeat E r m = Some r' \<Longrightarrow> raft_mono r r'"
  by (auto simp: handle_heartbeat_def Let_def elim!: bind_SomeE split: if_split_asm
      dest!: send_request_snapshot_core raft_send_core log_commit_to_mono)
     (auto simp: raft_mono_def core_of_def)

lemma handle_snapshot_mono [invs]: "handle_snapshot E r m = Some r' \<Longrightarrow> raft_mono r r'"
  by (auto simp: handle_snapshot_def elim!: bind_SomeE split: if_split_asm prod.split_asm
      dest!: raft_restore_mono raft_send_core)
     (auto simp: raft_mono_def core_of_def)

lemma maybe_commit_by_vote_mono [invs]: "maybe_commit_by_vote E r m = Some r' \<Longrightarrow> raft_mono r r'"
  by (auto simp: maybe_commit_by_vote_def Let_def elim!: bind_SomeE split: if_split_asm prod.split_asm
      dest!: log_maybe_commit_mono become_follower_core)
     (auto simp: raft_mono_def)

lemma reads_commit_mono: "raft_mono r (r\<lparr>r_read_states := a, r_log := l\<rparr>) \<longleftrightarrow> committed (r_log r) \<le> committed l"
  by (auto simp: raft_mono_def)

lemma step_follower_mono [invs]: "step_follower E r m = Some (r', x) \<Longrightarrow> raft_mono r r'"
  by (cases "msg_type m")
     (auto simp: step_follower_def Let_def reads_commit_mono elim!: bind_SomeE split: if_split_asm prod.split_asm
      dest: core_mono [OF raft_send_core] hup_mono
      dest!: handle_append_entries_mono handle_heartbeat_mono handle_snapshot_mono log_maybe_commit_mono
      simp: raft_mono_def)

lemma become_then_mono:
  "become_follower E r t l = Some r1 \<Longrightarrow> r_term r \<le> t \<Longrightarrow> raft_mono r1 r' \<Longrightarrow> raft_mono r r'"
  by (blast intro: raft_mono_trans become_follower_mono)

lemma step_candidate_mono [invs]:
  assumes "step_candidate E r m = Some (r', x)"
    and "msg_type m \<in> {MsgAppend, MsgHeartbeat, MsgSnapshot} \<Longrightarrow> r_term r \<le> m_term m"
  shows "raft_mono r r'"
  using assms
  by (cases "msg_type m")
     (auto simp: step_candidate_def elim!: bind_SomeE split: if_split_asm prod.split_asm
      intro: become_then_mono handle_append_entries_mono handle_heartbeat_mono handle_snapshot_mono
        raft_mono_trans [OF poll_mono maybe_commit_by_vote_mono])

lemma step_vote_mono [invs]: "step_vote E r m = Some r' \<Longrightarrow> raft_mono r r'"
  by (auto simp: step_vote_def Let_def INVALID_ID_def elim!: bind_SomeE split: if_split_asm prod.split_asm
      dest!: raft_send_core maybe_commit_by_vote_mono)
     (auto simp: raft_mono_def core_of_def)

lemma step_term_mono:
  assumes "step_term E r m = Some s"
  shows "case s of Inl r' \<Rightarrow> raft_mono r r' | Inr r' \<Rightarrow> raft_mono r r' \<and> (m_term m \<noteq> 0 \<longrightarrow> r_term r' \<le> m_term m)"
  using assms
  by (auto simp: step_term_def Let_def elim!: bind_SomeE split: if_split_asm
      dest!: become_follower_core raft_send_core)
     (auto simp: raft_mono_def core_of_def)

text \<open>
  A message from another node carries a term; only the local messages have none.  A release build
  does not check this (it is a debug assertion).
\<close>

definition has_term :: "Message \<Rightarrow> bool" where
  "has_term m \<longleftrightarrow> (msg_type m \<in> {MsgAppend, MsgHeartbeat, MsgSnapshot} \<longrightarrow> m_term m \<noteq> 0)"

lemma step_mono [invs]:
  assumes "step E r m = Some (r', x)" "has_term m"
  shows "raft_mono r r'"
proof -
  obtain s where s: "step_term E r m = Some s" using assms(1) by (auto simp: step_def elim!: bind_SomeE)
  show ?thesis
  proof (cases s)
    case (Inl r1)
    then show ?thesis using step_term_mono [OF s] assms(1) s by (simp add: step_def)
  next
    case (Inr r1)
    have r1: "raft_mono r r1" "m_term m \<noteq> 0 \<longrightarrow> r_term r1 \<le> m_term m" using step_term_mono [OF s] Inr by auto
    have "raft_mono r1 r'"
      using assms s Inr r1(2)
      by (cases "msg_type m"; cases "r_state r1")
         (auto simp: step_def has_term_def elim!: bind_SomeE
           dest: hup_mono step_vote_mono step_candidate_mono step_follower_mono step_leader_mono)
    with r1(1) show ?thesis by (rule raft_mono_trans)
  qed
qed

lemma tick_mono [invs]: "tick E r = Some (r', b) \<Longrightarrow> raft_mono r r'"
proof -
  have local_msg: "has_term (new_message i t f)" if "t \<notin> {MsgAppend, MsgHeartbeat, MsgSnapshot}" for i t f
    using that by (simp add: has_term_def new_message_def)
  assume "tick E r = Some (r', b)"
  then show ?thesis
    by (auto simp: tick_def tick_election_def tick_heartbeat_def abort_leader_transfer_def Let_def elim!: bind_SomeE
        split: if_split_asm prod.split_asm dest!: step_mono [OF _ local_msg])
       (auto simp: raft_mono_def)
qed

end
