(* ===== verification/Raft_Runs.thy ===== *)
theory Raft_Runs
  imports Raft_Safety "HOL-Library.Code_Target_Nat"
begin

section \<open>Runs of a node: what a node never takes back\<close>

text \<open>
  Everything the application can do to a node (\<^verbatim>\<open>Raft::step\<close>, \<^verbatim>\<open>tick\<close>, the persistence and apply reports,
  configuration changes, the witness replies) is one rule of the step relation \<open>node_step\<close>; a \<open>node_run\<close> is any
  finite sequence of them. The theorems here say what holds along every run: the term, the vote within a term and
  the commit index never go back, a node grants its vote in a term to one candidate only, and the two decisions of
  a leader (winning an election, committing) rest on a joint quorum.
\<close>

subsection \<open>Runs of a node\<close>

lemma commit_apply_mono [invs]: "commit_apply E r i = Some r' \<Longrightarrow> raft_mono r r'"
  by (auto simp: commit_apply_def commit_apply_internal_def Let_def elim!: bind_SomeE split: if_split_asm prod.split_asm
      dest!: log_applied_to_committed append_entry_mono)
     (auto simp: raft_mono_def)

lemma on_persist_entries_mono [invs]: "on_persist_entries E r i t = Some r' \<Longrightarrow> raft_mono r r'"
  by (auto simp: on_persist_entries_def Let_def elim!: bind_SomeE split: if_split_asm prod.split_asm
      dest!: log_maybe_persist_committed maybe_commit_and_bcast_mono)
     (auto simp: raft_mono_def set_progress_def)

lemma on_persist_snap_mono [invs]: "on_persist_snap r i = Some r' \<Longrightarrow> raft_mono r r'"
  by (auto simp: on_persist_snap_def elim!: bind_SomeE dest!: log_maybe_persist_snap_committed)

lemma confirm_witness_append_mono [invs]: "confirm_witness_append E r w = Some r' \<Longrightarrow> raft_mono r r'"
  by (auto simp: confirm_witness_append_def Let_def split: if_split_asm option.split_asm
      dest!: maybe_commit_and_bcast_mono)
     (auto simp: raft_mono_def)

lemma reject_witness_append_core [frame]: "core_of (reject_witness_append r w) = core_of r"
  by (auto simp: reject_witness_append_def Let_def split: option.split)

lemma request_snapshot_mono [invs]: "request_snapshot E r = Some (r', x) \<Longrightarrow> raft_mono r r'"
  by (auto simp: request_snapshot_def elim!: bind_SomeE split: if_split_asm dest!: send_request_snapshot_core)
     (auto simp: core_of_def raft_mono_def)

lemma ping_core [frame]: "ping r = Some r' \<Longrightarrow> core_of r' = core_of r"
  by (auto simp: ping_def split: if_split_asm dest!: bcast_heartbeat_core)

lemmas setting_defs = set_priority_def skip_bcast_commit_def set_batch_append_def set_max_committed_size_per_ready_def
  set_check_quorum_def set_max_apply_unpersisted_log_limit_def clear_commit_group_def maybe_free_inflight_buffers_def
  reduce_uncommitted_size_def set_randomized_election_timeout_def

lemma adjust_max_inflight_msgs_core [frame]: "adjust_max_inflight_msgs r i n = Some r' \<Longrightarrow> core_of r' = core_of r"
  by (auto simp: adjust_max_inflight_msgs_def elim!: bind_SomeE split: option.split_asm)

lemma enable_group_commit_mono [invs]: "enable_group_commit E r b = Some r' \<Longrightarrow> raft_mono r r'"
  by (auto simp: enable_group_commit_def Let_def elim!: bind_SomeE split: if_split_asm prod.split_asm
      dest!: maybe_commit_mono bcast_append_core)
     (auto simp: raft_mono_def core_of_def)

lemma assign_groups_core:
  "foldM (\<lambda>(peer_id, group_id) r. do {
       ensure (0 < group_id);
       Some (case get_progress r peer_id of
               Some pr \<Rightarrow> set_progress peer_id (pr\<lparr>commit_group_id := group_id\<rparr>) r
             | None \<Rightarrow> r)
     }) ids r = Some r' \<Longrightarrow> core_of r' = core_of r"
  by (erule foldM_const) (auto elim!: bind_SomeE split: prod.splits option.splits)

lemma assign_commit_groups_mono [invs]: "assign_commit_groups E r ids = Some r' \<Longrightarrow> raft_mono r r'"
  by (auto simp: assign_commit_groups_def elim!: bind_SomeE split: if_split_asm prod.split_asm
      dest!: assign_groups_core maybe_commit_mono bcast_append_core)
     (auto simp: raft_mono_def core_of_def)

text \<open>
  Everything the application can do to a node: the operations tick the clock, report persistence and application,
  apply a configuration change and change its storage; a step is an operation or the processing of a message.
\<close>

inductive node_op :: "'s Env \<Rightarrow> 's Raft \<Rightarrow> 's Raft \<Rightarrow> bool" for E where
  do_tick: "tick E r = Some (r', b) \<Longrightarrow> node_op E r r'"
| do_ping: "ping r = Some r' \<Longrightarrow> node_op E r r'"
| do_commit_apply: "commit_apply E r i = Some r' \<Longrightarrow> node_op E r r'"
| do_persist: "on_persist_entries E r i t = Some r' \<Longrightarrow> node_op E r r'"
| do_persist_snap: "on_persist_snap r i = Some r' \<Longrightarrow> node_op E r r'"
| do_conf_change: "apply_conf_change E r cc = Some (r', cs) \<Longrightarrow> node_op E r r'"
| do_confirm_witness: "confirm_witness_append E r w = Some r' \<Longrightarrow> node_op E r r'"
| do_reject_witness: "node_op E r (reject_witness_append r w)"
| do_request_snapshot: "request_snapshot E r = Some (r', x) \<Longrightarrow> node_op E r r'"
| do_stable_entries: "log_stable_entries (r_log r) i t = Some l \<Longrightarrow> node_op E r (r\<lparr>r_log := l\<rparr>)"
| do_stable_snap: "log_stable_snap (r_log r) i = Some l \<Longrightarrow> node_op E r (r\<lparr>r_log := l\<rparr>)"
| do_storage: "node_op E r (r\<lparr>r_log := (r_log r)\<lparr>store := s\<rparr>\<rparr>)"
| do_set: "r' \<in> {set_priority r p, skip_bcast_commit r b, set_batch_append r b, set_max_committed_size_per_ready r n,
    set_check_quorum r b, set_max_apply_unpersisted_log_limit r n, clear_commit_group r, maybe_free_inflight_buffers r,
    reduce_uncommitted_size r es} \<Longrightarrow> node_op E r r'"
| do_set_timeout: "set_randomized_election_timeout r t = Some r' \<Longrightarrow> node_op E r r'"
| do_adjust_inflight: "adjust_max_inflight_msgs r i n = Some r' \<Longrightarrow> node_op E r r'"
| do_group_commit: "enable_group_commit E r b = Some r' \<Longrightarrow> node_op E r r'"
| do_assign_groups: "assign_commit_groups E r ids = Some r' \<Longrightarrow> node_op E r r'"
| do_fetched: "r_state r = Leader \<Longrightarrow> raft_send_append E r i = Some r' \<or> raft_send_append_aggressively E r i = Some r' \<Longrightarrow> node_op E r r'"
| do_take_msgs: "node_op E r (r\<lparr>r_msgs := []\<rparr>)"
| do_take_witness_msgs: "node_op E r (r\<lparr>r_witness_msgs := []\<rparr>)"
| do_take_read_states: "node_op E r (r\<lparr>r_read_states := []\<rparr>)"

inductive node_step :: "'s Env \<Rightarrow> 's Raft \<Rightarrow> 's Raft \<Rightarrow> bool" for E where
  do_step: "has_term m \<Longrightarrow> step E r m = Some (r', x) \<Longrightarrow> node_step E r r'"
| do_op: "node_op E r r' \<Longrightarrow> node_step E r r'"

inductive node_run :: "'s Raft \<Rightarrow> 's Raft \<Rightarrow> bool" where
  run_refl: "node_run r r"
| run_step: "node_run r s \<Longrightarrow> node_step E s t \<Longrightarrow> node_run r t"

lemma node_op_mono: "node_op E r r' \<Longrightarrow> raft_mono r r'"
proof (induction rule: node_op.induct)
  case (do_ping r r')
  then show ?case by (blast intro: core_mono ping_core)
next
  case (do_reject_witness r w)
  then show ?case by (blast intro: core_mono reject_witness_append_core)
next
  case (do_stable_entries r i t l)
  then show ?case by (auto simp: log_stable_entries_def elim!: bind_SomeE)
next
  case (do_stable_snap r i l)
  then show ?case by (auto simp: log_stable_snap_def elim!: bind_SomeE)
next
  case (do_storage r s)
  then show ?case by simp
next
  case (do_take_msgs r)
  then show ?case by (simp add: raft_mono_def)
next
  case (do_take_witness_msgs r)
  then show ?case by (simp add: raft_mono_def)
next
  case (do_take_read_states r)
  then show ?case by (simp add: raft_mono_def)
next
  case (do_set r' r p b n es)
  then show ?case by (auto simp: setting_defs raft_mono_def)
next
  case (do_set_timeout r t r')
  then show ?case by (auto simp: setting_defs raft_mono_def elim!: bind_SomeE)
next
  case (do_adjust_inflight r i n r')
  then show ?case by (blast intro: core_mono adjust_max_inflight_msgs_core)
next
  case (do_fetched r i r')
  then show ?case by (blast intro: core_mono raft_send_append_core raft_send_append_aggressively_core)
qed (auto dest: tick_mono enable_group_commit_mono assign_commit_groups_mono commit_apply_mono on_persist_entries_mono on_persist_snap_mono
    apply_conf_change_mono confirm_witness_append_mono request_snapshot_mono)

lemma node_step_mono: "node_step E r r' \<Longrightarrow> raft_mono r r'"
  by (induction rule: node_step.induct) (auto dest: step_mono node_op_mono)

lemma node_run_mono: "node_run r r' \<Longrightarrow> raft_mono r r'"
  by (induction rule: node_run.induct) (auto intro: raft_mono_trans node_step_mono)

subsection \<open>A concrete node\<close>

text \<open>Node 1 over the in-memory storage with two entries of term 1, the first committed.\<close>

definition ex_env :: "MemStorageCore Env" where
  "ex_env = Storage.extend (MemStorage (\<lambda>e. 1)) \<lparr>random_range = (\<lambda>lo hi. lo),
     merge_ConfChange = (\<lambda>b. None), merge_ConfChangeV2 = (\<lambda>b. None)\<rparr>"

definition ex_raft :: "nat \<Rightarrow> StateRole \<Rightarrow> ProgressTracker \<Rightarrow> MemStorageCore Raft" where
  "ex_raft trm st prs = \<lparr>r_prs = prs, r_msgs = [], r_witness_msgs = [], r_term = trm, r_vote = 0, r_id = 1,
     r_read_states = [], r_log = ex_log, r_max_inflight = 4, r_max_msg_size = 100,
     r_pending_request_snapshot = 0, r_state = st, r_promotable = True, r_leader_id = 0,
     r_lead_transferee = None, r_pending_conf_index = 0, r_read_only = ReadOnly_new Safe,
     r_election_elapsed = 0, r_heartbeat_elapsed = 0, r_check_quorum = False, r_pre_vote = False,
     r_skip_bcast_commit = False, r_batch_append = False, r_disable_proposal_forwarding = False,
     r_heartbeat_timeout = 1, r_election_timeout = 10, r_randomized_election_timeout = 12,
     r_min_election_timeout = 10, r_max_election_timeout = 20, r_priority = 0,
     r_uncommitted_state = \<lparr>max_uncommitted_size = 1000, uncommitted_size = 0, last_log_tail_index = 0\<rparr>,
     r_max_committed_size_per_ready = 100\<rparr>"

definition ex_vote :: "nat \<Rightarrow> nat \<Rightarrow> nat \<Rightarrow> Message" where
  "ex_vote from trm i = Message_default\<lparr>msg_type := MsgRequestVote, m_from := from, m_to := 1, m_term := trm,
     m_index := i, m_log_term := 1\<rparr>"

definition ex_vote_resp :: "nat \<Rightarrow> nat \<Rightarrow> Message" where
  "ex_vote_resp from trm = Message_default\<lparr>msg_type := MsgRequestVoteResponse, m_from := from, m_to := 1,
     m_term := trm\<rparr>"

definition ex_voters :: "nat list \<Rightarrow> nat \<Rightarrow> nat \<Rightarrow> ProgressTracker" where
  "ex_voters vs w m = (ProgressTracker_new 4)\<lparr>conf := (Configuration_new vs [])\<lparr>witnesses := (w, 0)\<rparr>,
     progress := map (\<lambda>i. (i, (Progress_new 3 4)\<lparr>matched := m, is_witness := (i = w)\<rparr>)) vs\<rparr>"

abbreviation state_after :: "('a \<times> 'b) option \<Rightarrow> 'a" where
  "state_after x \<equiv> fst (the x)"

lemma state_after_Some: "x \<noteq> None \<Longrightarrow> x = Some (state_after x, snd (the x))"
  by auto

subsection \<open>Granting votes\<close>

lemma log_last_limit [simp]:
  "log_last_index S (l\<lparr>max_apply_unpersisted_log_limit := k\<rparr>) = log_last_index S l"
  "log_first_index S (l\<lparr>max_apply_unpersisted_log_limit := k\<rparr>) = log_first_index S l"
  by (simp_all add: log_last_index_def log_first_index_def cong: option.case_cong)

lemma is_up_to_date_limit [simp]:
  "is_up_to_date S (l\<lparr>max_apply_unpersisted_log_limit := k\<rparr>) i t = is_up_to_date S l i t"
proof -
  have "log_term S (l\<lparr>max_apply_unpersisted_log_limit := k\<rparr>) i = log_term S l i" for i
    by (simp add: log_term_def cong: option.case_cong if_cong)
  then show ?thesis by (simp add: is_up_to_date_def log_last_term_def)
qed

lemma raft_reset_rest:
  "raft_reset E r t = Some r' \<Longrightarrow> r_msgs r' = r_msgs r \<and> votes (r_prs r') = [] \<and> conf (r_prs r') = conf (r_prs r)"
  by (auto simp: raft_reset_def reset_votes_def reset_randomized_election_timeout_def abort_leader_transfer_def Let_def
      elim!: bind_SomeE)

lemma become_follower_rest:
  "become_follower E r t l = Some r' \<Longrightarrow>
    r_term r' = t \<and> r_msgs r' = r_msgs r \<and> r_log r' = (r_log r)\<lparr>max_apply_unpersisted_log_limit := 0\<rparr>"
  by (auto simp: become_follower_def raft_reset_def reset_randomized_election_timeout_def abort_leader_transfer_def
      Let_def elim!: bind_SomeE)

text \<open>The node answered the vote request \<open>m\<close> by granting it.\<close>

definition granted :: "'s Raft \<Rightarrow> Message \<Rightarrow> 's Raft \<Rightarrow> bool" where
  "granted r m r' = (case drop (length (r_msgs r)) (r_msgs r') of
     [resp] \<Rightarrow> msg_type resp = MsgRequestVoteResponse \<and> m_to resp = m_from m \<and> \<not> m_reject resp
   | _ \<Rightarrow> False)"

lemma step_vote_granted:
  assumes "step_vote E r m = Some r'" "msg_type m = MsgRequestVote" "granted r m r'"
  shows "r_vote r' = m_from m \<and> r_term r' = r_term r \<and> m_term m \<noteq> 0 \<and>
    is_up_to_date E (r_log r) (m_index m) (m_log_term m) = Some True"
proof -
  have sent: "\<exists>m'. r_msgs s = r_msgs r @ [m'] \<and> m_reject m' = m_reject x \<and> r_term s = r_term r \<and> (is_vote_msg (msg_type x) \<longrightarrow> m_term x \<noteq> 0)"
    if "raft_send r x = Some s" for s x
    using that by (auto simp: raft_send_def core_send_def Let_def elim!: bind_SomeE split: if_split_asm)
  have keep: "r_msgs s = r_msgs r" if "maybe_commit_by_vote E r m = Some s" for s r
    using that by (auto simp: maybe_commit_by_vote_def Let_def elim!: bind_SomeE split: if_split_asm prod.split_asm
        dest!: become_follower_rest)
  show ?thesis
    using assms
    by (auto simp: step_vote_def granted_def Let_def vote_resp_msg_type_def is_vote_msg_def new_message_def
        elim!: bind_SomeE split: if_split_asm prod.split_asm dest!: sent keep)
qed

text \<open>The same for the whole step: a granted request is for the node's term after the step.\<close>

lemma step_granted:
  assumes "step E r m = Some (r', x)" "msg_type m = MsgRequestVote" "granted r m r'"
  shows "r_vote r' = m_from m \<and> r_term r' = m_term m \<and>
    is_up_to_date E (r_log r) (m_index m) (m_log_term m) = Some True"
proof -
  obtain s where s: "step_term E r m = Some s" using assms(1) by (auto simp: step_def elim!: bind_SomeE)
  show ?thesis
  proof (cases s)
    case (Inl r1)
    then have "r_msgs r' = r_msgs r"
      using assms(1,2) s by (auto simp: step_def step_term_def Let_def elim!: bind_SomeE split: if_split_asm)
    with assms(3) show ?thesis by (simp add: granted_def)
  next
    case (Inr r1)
    then have r1: "r_msgs r1 = r_msgs r" "is_up_to_date E (r_log r1) = is_up_to_date E (r_log r)"
      "m_term m \<noteq> 0 \<Longrightarrow> r_term r1 = m_term m"
      using assms(2) s
      by (auto simp: step_term_def Let_def fun_eq_iff elim!: bind_SomeE split: if_split_asm
          dest!: become_follower_rest)
    have "step_vote E r1 m = Some r'" using assms(1,2) s Inr by (auto simp: step_def elim!: bind_SomeE)
    moreover have "granted r1 m r'" using assms(3) r1(1) by (simp add: granted_def)
    ultimately show ?thesis using step_vote_granted [OF _ assms(2)] r1 by fastforce
  qed
qed

subsection \<open>Winning and committing\<close>

lemma tally_result:
  "tally_votes_with_diff t = (g, rj, res, d) \<Longrightarrow> res = joint_vote_result (voters (conf t)) (map_of (votes t))"
  by (auto simp: tally_votes_with_diff_def joint_vote_result_with_diff_def joint_vote_result_def
      maj_vote_result_diff [symmetric] split: prod.split_asm)

lemma become_follower_state: "become_follower E r t l = Some r' \<Longrightarrow> r_state r' = Follower"
  by (auto dest: become_follower_core)

lemma poll_leader:
  assumes "poll E r from t v = Some (r', res)" "r_state r = Candidate" "r_state r' = Leader"
    and "incoming (voters (conf (r_prs r))) \<noteq> []"
  shows "joint_quorum (voters (conf (r_prs r))) {i. map_of (votes (record_vote (r_prs r) from v)) i = Some True} \<and>
    r_term r' = r_term r"
proof -
  let ?s = "r\<lparr>r_prs := record_vote (r_prs r) from v\<rparr>"
  obtain g rj res' d where t: "tally_votes_with_diff (r_prs ?s) = (g, rj, res', d)" by (metis prod_cases4)
  have "res' = Won \<and> r_term r' = r_term r"
    using assms(1-3) t
    by (cases res') (auto simp: poll_def poll_body_def Let_def core_of_def elim!: bind_SomeE split: if_split_asm
        dest!: vote_requests_core become_follower_state become_leader_mono bcast_append_core)
  then show ?thesis
    using tally_result [OF t] assms(4)
    by (auto simp: record_vote_frame intro!: joint_won_quorum)
qed

text \<open>A node becomes leader on a vote response only as a candidate, in its own term, and with the recorded
  votes of a quorum of its (possibly joint) configuration.\<close>

theorem leader_needs_quorum:
  assumes "step E r m = Some (r', x)" "msg_type m = MsgRequestVoteResponse"
    and "r_state r \<noteq> Leader" "r_state r' = Leader" "incoming (voters (conf (r_prs r))) \<noteq> []"
  shows "r_state r = Candidate \<and> r_term r' = r_term r \<and> (m_term m = 0 \<or> m_term m = r_term r) \<and>
    joint_quorum (voters (conf (r_prs r)))
      {i. map_of (votes (record_vote (r_prs r) (m_from m) (\<not> m_reject m))) i = Some True}"
proof -
  obtain s where s: "step_term E r m = Some s" using assms(1) by (auto simp: step_def elim!: bind_SomeE)
  have keep: "r_state s' = Leader \<longrightarrow> r_state s = Leader \<and> s' = s\<lparr>r_log := r_log s'\<rparr>"
    if "maybe_commit_by_vote E s m = Some s'" for s s'
    using that by (auto simp: maybe_commit_by_vote_def Let_def elim!: bind_SomeE split: if_split_asm prod.split_asm
        dest!: become_follower_state)
  have "s = Inr r \<and> (m_term m = 0 \<or> m_term m = r_term r) \<and> r_state r = Candidate"
    using s assms
    by (auto simp: step_def step_term_def step_candidate_def step_follower_def Let_def elim!: bind_SomeE
        split: if_split_asm prod.split_asm StateRole.split_asm dest!: become_follower_state)
  moreover from this obtain r1 res where "poll E r (m_from m) MsgRequestVoteResponse (\<not> m_reject m) = Some (r1, res)"
    "maybe_commit_by_vote E r1 m = Some r'"
    using s assms(1,2) by (auto simp: step_def step_candidate_def elim!: bind_SomeE)
  moreover from this keep assms(4) have "r_state r1 = Leader" "r_term r' = r_term r1"
    by (metis, metis Raft.select_convs(4) Raft.surjective Raft.update_convs(8))
  ultimately show ?thesis using poll_leader assms(5) by metis
qed

lemma contact_witness_conf:
  "contact_witness E s wi r = Some r' \<Longrightarrow> (conf (r_prs r'), group_commit (r_prs r')) = (conf (r_prs r), group_commit (r_prs r))"
  by (auto simp: contact_witness_def send_append_to_witness_def set_progress_def Let_def elim!: bind_SomeE
      split: prod.split_asm if_split_asm option.split_asm sum.split_asm list.split_asm)

lemma contact_loop_conf:
  "foldM (contact_witness E s) ws r = Some r' \<Longrightarrow>
    conf (r_prs r') = conf (r_prs r) \<and> group_commit (r_prs r') = group_commit (r_prs r)"
  using foldM_const [where f = "contact_witness E s" and g = "\<lambda>r. (conf (r_prs r), group_commit (r_prs r))"]
    contact_witness_conf by blast

text \<open>An index at or below the commit index of a joint configuration is acknowledged by a quorum.\<close>

lemma joint_committed_quorum:
  assumes "incoming c \<noteq> []" "i \<le> fst (joint_committed_index c False l)"
  shows "joint_quorum c {v. i \<le> ix_index (acked l v)}"
proof -
  have half: "maj_vote_result vs (\<lambda>v. if v \<in> {v. i \<le> ix_index (acked l v)} then Some True else None) = Won"
    if "i \<le> fst (maj_committed_index vs False l)" for vs
    using that maj_committed_index_no_group [of vs i l]
    by (cases "vs = []") (auto simp: maj_won_iff count_yes_def acks_at_least_def maj_vote_result_def maj_vote_result_with_diff_def)
  show ?thesis
    using assms half by (auto simp: joint_quorum_def joint_won_iff fst_joint_committed_index)
qed

text \<open>C7: when the commit index of a leader advances (group commit off), it advances to an entry of the leader's own
  term, and a quorum of the configuration is recorded as holding the log up to it.\<close>

theorem leader_commits_current_term:
  assumes "maybe_commit E r = Some (r', True)"
    and "incoming (voters (conf (r_prs r))) \<noteq> []" "\<not> group_commit (r_prs r)"
  shows "committed (r_log r) < committed (r_log r') \<and>
    log_term E (r_log r) (committed (r_log r')) = Some (Inr (r_term r)) \<and>
    joint_quorum (voters (conf (r_prs r)))
      {v. \<exists>pr. get_progress r' v = Some pr \<and> committed (r_log r') \<le> matched pr}"
proof -
  let ?mci = "\<lambda>s. fst (maximal_committed_index (r_prs s))"
  obtain s l pr where s: "foldM (contact_witness E (subterm (epoch (r_prs r))))
        (one_less_than_quorum_in_replication_set (r_prs r)) r = Some s"
    and l: "log_maybe_commit E (r_log s) (?mci s) (r_term s) = Some (l, True)"
    and pr: "get_progress s (r_id s) = Some pr"
    and r': "r' = set_progress (r_id s) (update_committed pr (committed l)) (s\<lparr>r_log := l\<rparr>)"
    using assms(1) by (auto simp: maybe_commit_def Let_def get_progress_def elim!: bind_SomeE split: if_split_asm prod.split_asm)
  have core: "r_log s = r_log r" "r_term s = r_term r" using contact_loop_core [OF s] by (auto simp: core_of_def)
  have l': "committed (r_log r) < ?mci s" "committed l = ?mci s" "log_term E (r_log r) (?mci s) = Some (Inr (r_term r))"
    using l core by (auto simp: log_maybe_commit_def log_commit_to_def elim!: bind_SomeE split: if_split_asm sum.split_asm)
  have c: "committed (r_log r') = ?mci s" using r' l' by (simp add: set_progress_def)
  have "joint_quorum (voters (conf (r_prs r))) {v. ?mci s \<le> ix_index (acked (acked_index (progress (r_prs s))) v)}"
    using contact_loop_conf [OF s] assms(2,3)
    by (intro joint_committed_quorum) (auto simp: maximal_committed_index_def)
  moreover have "\<exists>pr. get_progress r' v = Some pr \<and> ?mci s \<le> matched pr"
    if "?mci s \<le> ix_index (acked (acked_index (progress (r_prs s))) v)" for v
    using that l'(1) pr
    by (cases "v = r_id s")
       (auto simp: r' get_progress_def set_progress_def acked_def acked_index_def Index_default_def update_committed_def
        split: option.split_asm)
  ultimately show ?thesis using c l' by (auto elim!: jq.quorum_mono)
qed

theorem leader_commits_current_term_witness:
  defines "r \<equiv> ex_raft 1 Leader (ex_voters [1, 2, 3] 0 2)"
  defines "r' \<equiv> state_after (maybe_commit ex_env r)"
  shows "committed (r_log r) < committed (r_log r') \<and> committed (r_log r') = 2 \<and>
    log_term ex_env (r_log r) 2 = Some (Inr 1)"
proof -
  have h: "maybe_commit ex_env r = Some (r', True)" "incoming (voters (conf (r_prs r))) \<noteq> []"
    "\<not> group_commit (r_prs r)" "committed (r_log r') = 2" "r_term r = 1" unfolding r'_def r_def by code_simp+
  show ?thesis using leader_commits_current_term [OF h(1-3)] h(4,5) by simp
qed

text \<open>C8: no step of a node, and so no run, takes back its term, its vote within a term or its commit index.\<close>

theorem raft_persistent_state_monotone:
  assumes "node_run r r'"
  shows "r_id r' = r_id r \<and> r_term r \<le> r_term r' \<and> committed (r_log r) \<le> committed (r_log r') \<and>
    (r_term r' = r_term r \<longrightarrow> r_vote r \<noteq> 0 \<longrightarrow> r_vote r' = r_vote r)"
  using node_run_mono [OF assms] by (simp add: raft_mono_def)

theorem raft_persistent_state_monotone_witness:
  defines "r \<equiv> ex_raft 1 Follower ex_tracker" and "m \<equiv> ex_vote 2 2 2"
  defines "r1 \<equiv> state_after (step ex_env r m)"
  defines "r2 \<equiv> state_after (tick ex_env r1)"
  shows "r_vote r1 = 2 \<and> r_term r1 \<le> r_term r2 \<and> r_vote r2 = 2"
proof -
  have m: "step ex_env r m \<noteq> None" "has_term m" "r_vote r1 = 2" unfolding r1_def r_def m_def by code_simp+
  have t: "tick ex_env r1 \<noteq> None" "r_term r2 = r_term r1" unfolding r2_def r1_def r_def m_def by code_simp+
  have "node_step ex_env r1 r2" by (rule do_op [OF do_tick [OF state_after_Some [OF t(1), folded r2_def]]])
  then have "node_run r1 r2" by (rule run_step [OF run_refl])
  from raft_persistent_state_monotone [OF this] m(3) t(2) show ?thesis by simp
qed

subsection \<open>Requests to a witness\<close>

text \<open>The messages sent to the witnesses in an operation.\<close>

definition to_witness :: "'s Raft \<Rightarrow> 's Raft \<Rightarrow> WitnessMessage list" where
  "to_witness r r' = drop (length (r_witness_msgs r)) (r_witness_msgs r')"

lemma send_request_vote_to_witness_msgs:
  "send_request_vote_to_witness E r w t trm = Some r' \<Longrightarrow>
    \<exists>wm. r_witness_msgs r' = r_witness_msgs r @ [wm] \<and> wm_msg_type wm = t"
  by (auto simp: send_request_vote_to_witness_def Let_def elim!: bind_SomeE)

lemma witness_requests_type:
  assumes "foldM (\<lambda>(w, ready) r. if ready then send_request_vote_to_witness E r w t (f r) else Some r) ws r = Some r'"
  shows "\<exists>ms. r_witness_msgs r' = r_witness_msgs r @ ms \<and> (\<forall>wm \<in> set ms. wm_msg_type wm = t)"
  using assms
proof (rule foldM_rel [where R = "\<lambda>r r'. \<exists>ms. r_witness_msgs r' = r_witness_msgs r @ ms \<and> (\<forall>wm \<in> set ms. wm_msg_type wm = t)"])
  show "\<exists>ms. r_witness_msgs s = r_witness_msgs s @ ms \<and> (\<forall>wm \<in> set ms. wm_msg_type wm = t)" for s by simp
next
  fix x s s'
  assume "(case x of (w, ready) \<Rightarrow> \<lambda>r. if ready then send_request_vote_to_witness E r w t (f r) else Some r) s = Some s'"
  then show "\<exists>ms. r_witness_msgs s' = r_witness_msgs s @ ms \<and> (\<forall>wm \<in> set ms. wm_msg_type wm = t)"
    by (auto split: prod.split_asm if_split_asm dest!: send_request_vote_to_witness_msgs)
qed force

text \<open>C30: a witness vote request that a candidate sends late, when a vote response leaves it one vote short, carries
  the type of that response: every witness ignores it, so the vote never counts.\<close>

theorem late_witness_vote_request_ignored:
  assumes "poll E r from t v = Some (r', Pending)" "t = MsgRequestVoteResponse \<or> t = MsgRequestPreVoteResponse"
    and "wm \<in> set (to_witness r r')"
  shows "witness_process w wm = (w, None)"
proof -
  let ?s = "r\<lparr>r_prs := record_vote (r_prs r) from v\<rparr>"
  obtain g rj res d where t: "tally_votes_with_diff (r_prs ?s) = (g, rj, res, d)" by (metis prod_cases4)
  then have "foldM (\<lambda>(w, ready) r. if ready then send_request_vote_to_witness E r w t
      (if t = MsgRequestPreVote then r_term r + 1 else r_term r) else Some r)
      (get_witness_vote_request_readiness ?s d) ?s = Some r'"
    using assms(1) by (auto simp: poll_def poll_body_def Let_def elim!: bind_SomeE)
  from witness_requests_type [OF this] assms(3) have "wm_msg_type wm = t" by (auto simp: to_witness_def)
  with assms(2) show ?thesis by (auto simp: witness_process_def)
qed

text \<open>Five voters, 5 a witness: the vote of 2 leaves candidate 1 one short, and its request to 5 is lost.\<close>

theorem late_witness_vote_request_ignored_witness:
  defines "r \<equiv> ex_raft 2 Candidate ((ex_voters [1, 2, 3, 4, 5] 5 2)\<lparr>votes := [(1, True)]\<rparr>)"
  defines "r' \<equiv> state_after (poll ex_env r 2 MsgRequestVoteResponse True)"
  shows "to_witness r r' \<noteq> [] \<and> witness_process (Witness_new 5) (hd (to_witness r r')) = (Witness_new 5, None)"
proof -
  have h: "poll ex_env r 2 MsgRequestVoteResponse True \<noteq> None"
    "snd (the (poll ex_env r 2 MsgRequestVoteResponse True)) = Pending" "to_witness r r' \<noteq> []"
    unfolding r'_def r_def by code_simp+
  have "poll ex_env r 2 MsgRequestVoteResponse True = Some (r', Pending)"
    using state_after_Some [OF h(1)] h(2) unfolding r'_def by simp
  from late_witness_vote_request_ignored [OF this _ hd_in_set [OF h(3)]] h(3) show ?thesis by simp
qed

lemma become_leader_epoch:
  "become_leader E r = Some r' \<Longrightarrow> raft_has_witness r \<Longrightarrow> \<exists>t. epoch (r_prs r') = epoch (reset_replication_set t True)"
  by (auto simp: become_leader_def raft_reset_def maybe_start_new_subterm_def append_entry_def raft_has_witness_def
      reset_randomized_election_timeout_def abort_leader_transfer_def reset_votes_def set_progress_def Let_def
      elim!: bind_SomeE split: if_split_asm prod.split_asm) blast+

text \<open>C31: in the epoch of a new leader the witness counts as already contacted: the leader marks the witness as
  holding its log without any message to the witness.\<close>

theorem fresh_leader_skips_witness:
  assumes "become_leader E r0 = Some r" "raft_has_witness r0" "witness_config_half r w = Some half"
    and "get_progress r w = Some pr" "matched pr < idx"
  shows "contact_witness E (subterm (epoch (r_prs r))) (w, idx) r =
    Some (set_progress w (pr\<lparr>matched := idx, pr_state := Replicate\<rparr>) r)"
proof -
  obtain t where "epoch (r_prs r) = epoch (reset_replication_set t True)"
    using become_leader_epoch [OF assms(1,2)] by blast
  then have "pick (witness_subterm (epoch (r_prs r))) half = subterm (epoch (r_prs r))"
    by (simp add: reset_replication_set_def Epoch_default_def)
  with assms(3-5) show ?thesis by (simp add: contact_witness_def)
qed

text \<open>Node 1 and the witness 2: the new leader persists its entry 3 of term 2 and commits it, and nothing was sent
  to the witness.\<close>

theorem fresh_leader_skips_witness_witness:
  defines "r0 \<equiv> ex_raft 2 Candidate (ex_voters [1, 2] 2 0)"
  defines "r \<equiv> the (become_leader ex_env r0)"
  defines "r1 \<equiv> r\<lparr>r_log := the (log_stable_entries ((r_log r)\<lparr>store := ex_store\<lparr>ms_entries := ms_entries ex_store @
    [ex_entry 3 2]\<rparr>\<rparr>) 3 2)\<rparr>"
  defines "r2 \<equiv> the (on_persist_entries ex_env r1 3 2)"
  shows "(\<exists>pr. contact_witness ex_env 0 (2, 3) r = Some (set_progress 2 (pr\<lparr>matched := 3, pr_state := Replicate\<rparr>) r)) \<and>
    committed (r_log r2) = 3 \<and> r_witness_msgs r2 = []"
proof -
  have h: "become_leader ex_env r0 \<noteq> None" "raft_has_witness r0" "witness_config_half r 2 = Some 0"
    "get_progress r 2 \<noteq> None" "matched (the (get_progress r 2)) < 3" "subterm (epoch (r_prs r)) = 0"
    "committed (r_log r2) = 3" "r_witness_msgs r2 = []"
    unfolding r2_def r1_def r_def r0_def by code_simp+
  have l: "become_leader ex_env r0 = Some r" using h(1) unfolding r_def by simp
  have g: "get_progress r 2 = Some (the (get_progress r 2))" using h(4) by simp
  show ?thesis using fresh_leader_skips_witness [OF l h(2,3) g h(5)] h(6-8) by auto
qed

end
