(* ===== verification/Raft_Sending.thy ===== *)
theory Raft_Sending
  imports Raft_Runs
begin

section \<open>Sending as much as possible\<close>

text \<open>
  \<^verbatim>\<open>send_append_aggressively\<close> of \<^verbatim>\<open>src/raft.rs\<close> is a loop without a bound of its own: it calls \<^verbatim>\<open>maybe_send_append\<close> until
  that sends nothing.  This theory shows that it ends, because every message uses up room in the peer's flow window, and
  that it never panics on a readable log.
\<close>

subsection \<open>Room for messages\<close>

definition room :: "Progress \<Rightarrow> nat" where
  "room p = (case pr_state p of
     Probe \<Rightarrow> if paused p then 0 else 1
   | Replicate \<Rightarrow> in_cap (ins p) - in_count (ins p)
   | Snapshot_state \<Rightarrow> 0)"

lemma ins_add_room: "ins_inv w \<Longrightarrow> ins_add w x = Some w' \<Longrightarrow> in_cap w' - in_count w' < in_cap w - in_count w"
  by (auto simp: ins_add_def ins_full_def ins_inv_def Let_def elim!: bind_SomeE split: if_split_asm)

text \<open>What a message to a peer that is not paused does to its progress.\<close>

definition advances :: "Progress \<Rightarrow> Progress \<Rightarrow> bool" where
  "advances p q \<longleftrightarrow> pr_inv q \<and> room q < room p \<and> next_idx p \<le> next_idx q \<and> pr_state q = pr_state p \<and>
     pending_request_snapshot q = pending_request_snapshot p \<and> is_witness q = is_witness p"

lemma update_state_advances:
  assumes "pr_inv p" "\<not> is_paused p" "next_idx p \<le> lst"
  shows "\<exists>q. update_state p lst = Some q \<and> advances p q"
proof -
  obtain q where q: "update_state p lst = Some q" "pr_inv q" using update_state_inv [OF assms] by blast
  then have "advances p q"
    using assms ins_add_room [OF pr_invD(1) [OF assms(1)]]
    by (auto simp: advances_def update_state_def optimistic_update_def pause_def is_paused_def room_def Let_def
        elim!: bind_SomeE split: ProgressState.split_asm)
  with q(1) show ?thesis by blast
qed

lemma try_batching_total:
  assumes "ents \<noteq> []" "update_state pr (e_index (last ents)) = Some q"
  shows "\<exists>ms' pr' b. try_batching r to ms pr ents = Some (ms', pr', b) \<and> length ms' = length ms \<and>
    (b \<longrightarrow> pr' = q) \<and> (\<not> b \<longrightarrow> pr' = pr \<and> ms' = ms)"
  using assms by (induction ms) (auto simp: Let_def split: prod.split)

lemma core_send_append_msg:
  "msg_type m = MsgAppend \<Longrightarrow> m_term m = 0 \<Longrightarrow> \<exists>m'. core_send r m ms = Some (ms @ [m'])"
  by (auto simp: core_send_def Let_def is_vote_msg_def ensure_def)

subsection \<open>The loop\<close>

text \<open>The loop may stop: the peer takes nothing now, has everything, or the entries are being fetched.\<close>

definition sent_enough ::
  "('s, 'm) Storage_scheme \<Rightarrow> ('s \<Rightarrow> nat) \<Rightarrow> ('s \<Rightarrow> Entry list) \<Rightarrow> 's Raft \<Rightarrow> nat \<Rightarrow> Progress \<Rightarrow> bool" where
  "sent_enough S st_first st_ents r to pr \<longleftrightarrow> is_paused pr \<or> is_witness pr \<or>
     log_first st_first (r_log r) + length (log_view st_first st_ents (r_log r)) \<le> next_idx pr \<or>
     log_entries S (r_log r) (next_idx pr) (Some (r_max_msg_size r)) (SendAppend to (r_term r) True) =
       Some (Inl (Store LogTemporarilyUnavailable))"

context storage
begin

lemma entries_ok:
  assumes "wf l" "first l \<le> i"
  shows "log_entries S l i mx ctx = Some (Inr []) \<and> first l + length (view l) \<le> i \<or>
    i < first l + length (view l) \<and> can_async ctx \<and> log_entries S l i mx ctx = Some (Inl (Store LogTemporarilyUnavailable)) \<or>
    i < first l + length (view l) \<and>
      (\<exists>es. log_entries S l i mx ctx = Some (Inr es) \<and> es \<noteq> [] \<and> contiguous e_index i es)"
proof (cases "i < first l + length (view l)")
  case True
  let ?hi = "first l + length (view l)" and ?es = "drop (i - first l) (view l)"
  have last: "\<not> first l + length (view l) - 1 < i" "first l + length (view l) - 1 + 1 = ?hi"
    using True wf_first_pos [OF assms(1)] by auto
  then have e: "log_entries S l i mx ctx = log_slice S l i ?hi mx ctx"
    using last_index_ok [OF assms(1)] by (simp add: log_entries_def)
  have "?es \<noteq> []" using True assms(2) by simp
  moreover have "contiguous e_index i ?es"
    using contiguous_drop [OF view_contiguous [OF assms(1)], of "i - first l"] True assms(2) by simp
  moreover obtain n where "limit_size (compute_size S) ?es mx = take n ?es" "0 < n"
    using limit_size_prefix [of "compute_size S" ?es mx] calculation(1) by auto
  ultimately have "limit_size (compute_size S) ?es mx \<noteq> [] \<and> contiguous e_index i (limit_size (compute_size S) ?es mx)"
    by (metis contiguous_take limit_size_Nil(2))
  moreover have "take (?hi - i) ?es = ?es" using assms(2) by simp
  ultimately show ?thesis using slice_ok [OF assms True order.refl, of mx ctx] True e by auto
next
  case False
  then show ?thesis using last_index_ok [OF assms(1)] wf_first_pos [OF assms(1)] by (auto simp: log_entries_def)
qed

lemma maybe_send_append_step:
  assumes "wf (r_log r)" "pr_inv pr" "pending_request_snapshot pr = INVALID_INDEX" "first (r_log r) < next_idx pr"
  shows "core_maybe_send_append S r to pr False ms = Some (pr, ms, False) \<and> sent_enough S st_first st_ents r to pr \<or>
    (\<exists>pr' ms'. core_maybe_send_append S r to pr False ms = Some (pr', ms', True) \<and> advances pr pr' \<and>
      length ms' \<le> Suc (length ms))"
proof (cases "is_paused pr \<or> is_witness pr")
  case True
  then show ?thesis by (auto simp: core_maybe_send_append_def sent_enough_def)
next
  case False
  let ?l = "r_log r"
  let ?ents = "log_entries S ?l (next_idx pr) (Some (r_max_msg_size r)) (SendAppend to (r_term r) True)"
  consider (none) "?ents = Some (Inr [])" "first ?l + length (view ?l) \<le> next_idx pr"
    | (fetch) "?ents = Some (Inl (Store LogTemporarilyUnavailable))"
    | (some) es where "next_idx pr < first ?l + length (view ?l)" "?ents = Some (Inr es)" "es \<noteq> []"
        "contiguous e_index (next_idx pr) es"
    using entries_ok [OF assms(1), of "next_idx pr" "Some (r_max_msg_size r)" "SendAppend to (r_term r) True"] assms(4)
    by auto
  then show ?thesis
  proof cases
    case none
    then show ?thesis using False assms(3) by (simp add: core_maybe_send_append_def sent_enough_def)
  next
    case fetch
    then show ?thesis using False assms(3) by (simp add: core_maybe_send_append_def sent_enough_def)
  next
    case some
    obtain t where t: "log_term S ?l (next_idx pr - 1) = Some (Inr t)"
      using term_ok [OF assms(1), of "next_idx pr - 1"] assms(4) some(1) by fastforce
    have prev: "sub (next_idx pr) 1 = Some (next_idx pr - 1)" using assms(4) by (simp add: sub_def)
    have "next_idx pr \<le> e_index (last es)"
      using contiguous_bounds [OF some(4) last_in_set [OF some(3)]] by simp
    then obtain q where q: "update_state pr (e_index (last es)) = Some q" "advances pr q"
      using update_state_advances [OF assms(2)] False by blast
    have single: "\<exists>m ms'. prepare_send_entries r (Message_default\<lparr>m_to := to\<rparr>) pr t es = Some (m, q) \<and>
        core_send r m ms = Some ms' \<and> length ms' = Suc (length ms)"
    proof -
      let ?m = "Message_default\<lparr>m_to := to, msg_type := MsgAppend, m_index := next_idx pr - 1, m_log_term := t,
        m_entries := es, m_commit := committed ?l\<rparr>"
      have "prepare_send_entries r (Message_default\<lparr>m_to := to\<rparr>) pr t es = Some (?m, q)"
        using prev q(1) some(3) by (simp add: prepare_send_entries_def)
      moreover obtain m' where "core_send r ?m ms = Some (ms @ [m'])"
        using core_send_append_msg [of ?m r ms] by (auto simp: Message_default_def)
      ultimately show ?thesis by auto
    qed
    obtain ms1 pr1 b where b: "try_batching r to ms pr es = Some (ms1, pr1, b)" "length ms1 = length ms"
        "b \<longrightarrow> pr1 = q" "\<not> b \<longrightarrow> pr1 = pr \<and> ms1 = ms"
      using try_batching_total [OF some(3) q(1), of r to ms] by blast
    show ?thesis
      using False assms(3) some(2,3) t prev single b q(2)
      by (cases "r_batch_append r \<and> b") (auto simp: core_maybe_send_append_def)
  qed
qed

lemma send_append_aggressively_total:
  assumes "wf (r_log r)" "pr_inv pr" "pending_request_snapshot pr = INVALID_INDEX" "first (r_log r) < next_idx pr"
  shows "\<exists>pr' ms'. core_send_append_aggressively S r to pr ms = Some (pr', ms') \<and> pr_inv pr' \<and> sent_enough S st_first st_ents r to pr' \<and>
    next_idx pr \<le> next_idx pr' \<and> length ms' + room pr' \<le> length ms + room pr"
  using assms(2-4)
proof (induction "room pr" arbitrary: pr ms rule: less_induct)
  case less
  from maybe_send_append_step [OF assms(1) less.prems, of to ms] show ?case
  proof
    assume "core_maybe_send_append S r to pr False ms = Some (pr, ms, False) \<and> sent_enough S st_first st_ents r to pr"
    then show ?thesis using less.prems by (subst core_send_append_aggressively.simps) auto
  next
    assume "\<exists>pr' ms'. core_maybe_send_append S r to pr False ms = Some (pr', ms', True) \<and> advances pr pr' \<and>
      length ms' \<le> Suc (length ms)"
    then obtain p1 ms1 where s: "core_maybe_send_append S r to pr False ms = Some (p1, ms1, True)" "advances pr p1"
      "length ms1 \<le> Suc (length ms)" by blast
    obtain p2 ms2 where "core_send_append_aggressively S r to p1 ms1 = Some (p2, ms2)" "pr_inv p2" "sent_enough S st_first st_ents r to p2"
      "next_idx p1 \<le> next_idx p2" "length ms2 + room p2 \<le> length ms1 + room p1"
      using less.hyps [of p1 ms1] s(2) less.prems by (auto simp: advances_def)
    moreover have "core_send_append_aggressively S r to pr ms = core_send_append_aggressively S r to p1 ms1"
      using s(1) by (subst core_send_append_aggressively.simps) simp
    ultimately show ?thesis using s(2,3) by (auto simp: advances_def)
  qed
qed

end

text \<open>C23: the loop \<open>while self.maybe_send_append(to, pr, false, msgs) {}\<close> ends and never panics.  On a readable log and for
  a peer in a consistent state, which has not asked for a snapshot and whose next entry is above the first of the log, it returns after at most as many messages as the peer's flow window has room for, and it
  stops only when the peer takes nothing more, has been sent the whole log, or the storage fetches the next entries.\<close>

theorem send_append_aggressively_returns:
  assumes "storage S st_inv st_first st_ents" "log_wf st_inv st_first st_ents (r_log r)" "pr_inv pr"
    and "pending_request_snapshot pr = INVALID_INDEX" "log_first st_first (r_log r) < next_idx pr"
  shows "\<exists>pr' msgs'. core_send_append_aggressively S r to pr msgs = Some (pr', msgs') \<and> pr_inv pr' \<and>
    sent_enough S st_first st_ents r to pr' \<and> next_idx pr \<le> next_idx pr' \<and>
    length msgs' + room pr' \<le> length msgs + room pr"
  by (rule storage.send_append_aggressively_total [OF assms])

theorem send_append_aggressively_returns_witness:
  "\<exists>pr' msgs'. core_send_append_aggressively (MemStorage (\<lambda>e. 1)) (ex_raft 1 Leader ex_tracker) 2
     ((Progress_new 2 4)\<lparr>pr_state := Replicate, matched := 1\<rparr>) [] = Some (pr', msgs') \<and> length msgs' \<le> 4"
proof -
  let ?r = "ex_raft 1 Leader ex_tracker" and ?p = "(Progress_new 2 4)\<lparr>pr_state := Replicate, matched := 1\<rparr>"
  have p: "pr_inv ?p" "pending_request_snapshot ?p = INVALID_INDEX" "next_idx ?p = 2" "room ?p = 4"
    by (simp_all add: pr_inv_def Progress_new_def Inflights_new_def ins_inv_def ins_window_def INVALID_INDEX_def room_def)
  have l: "log_wf mem_inv mem_first_index ms_entries (r_log ?r)" "log_first mem_first_index (r_log ?r) < next_idx ?p"
    using ex_log_wf p(3) by (simp_all add: ex_raft_def)
  obtain pr' ms' where "core_send_append_aggressively (MemStorage (\<lambda>e. 1)) ?r 2 ?p [] = Some (pr', ms')"
    "length ms' + room pr' \<le> 0 + room ?p"
    using send_append_aggressively_returns [OF mem.storage_axioms l(1) p(1,2) l(2), of "\<lambda>e. 1" 2 "[]"] by auto
  then show ?thesis using p(4) by auto
qed

end
