(* ===== verification/Raft_Elections.thy ===== *)
theory Raft_Elections
  imports Raft_Runs
begin

section \<open>What each operation of a node does to an election\<close>

text \<open>
  The theory follows every operation of \<^verbatim>\<open>src/raft.rs\<close> for what matters to elections: which vote responses it
  sends, which votes it has recorded, and how the node becomes candidate or leader.  The predicates \<open>talk\<close>, \<open>calm\<close> and
  \<open>elects\<close> say, in this order, that an operation only sends messages, that it wins no election, and that whatever it
  does to the node's candidacy is backed by votes that were cast.  The theory \<open>Raft_Cluster\<close> composes the nodes.
\<close>

subsection \<open>Grants\<close>

definition is_grant :: "Message \<Rightarrow> bool" where
  "is_grant m \<longleftrightarrow> msg_type m = MsgRequestVoteResponse \<and> \<not> m_reject m"

text \<open>
  A message has a sender, a message that only a leader sends has a term, and if a message grants a vote, the vote is among the ballots \<open>B\<close>: triples of a voter, a term and
  a candidate.
\<close>

definition fine :: "(nat \<times> nat \<times> nat) set \<Rightarrow> Message \<Rightarrow> bool" where
  "fine B m \<longleftrightarrow> 0 < m_from m \<and> has_term m \<and> (is_grant m \<longrightarrow> 0 < m_term m \<and> (m_from m, m_term m, m_to m) \<in> B)"

definition list_fine :: "(nat \<times> nat \<times> nat) set \<Rightarrow> Message list \<Rightarrow> bool" where
  "list_fine B ms \<longleftrightarrow> list_all (fine B) ms"

lemma list_fine_simps [simp]:
  "list_fine B []" "list_fine B (m # ms) \<longleftrightarrow> fine B m \<and> list_fine B ms"
  "list_fine B (xs @ ys) \<longleftrightarrow> list_fine B xs \<and> list_fine B ys"
  by (simp_all add: list_fine_def)

text \<open>A message that any node may send in any term.\<close>

definition quiet :: "Message \<Rightarrow> bool" where
  "quiet m \<longleftrightarrow> \<not> is_grant m \<and> msg_type m \<notin> {MsgAppend, MsgHeartbeat, MsgSnapshot}"

lemma core_send_fine:
  "core_send r m ms = Some ms' \<Longrightarrow> 0 < r_id r \<Longrightarrow> \<not> is_grant m \<Longrightarrow> quiet m \<or> 0 < r_term r \<Longrightarrow> list_fine B ms \<Longrightarrow>
    list_fine B ms'"
  by (auto simp: core_send_def Let_def fine_def has_term_def quiet_def is_grant_def is_vote_msg_def INVALID_ID_def
      elim!: bind_SomeE split: if_split_asm)

lemma try_batching_fine:
  "try_batching r to ms pr ents = Some (ms', pr', b) \<Longrightarrow> list_fine B ms \<Longrightarrow> list_fine B ms'"
proof (induction ms arbitrary: ms')
  case (Cons m ms)
  then show ?case
    by (auto simp: fine_def has_term_def is_grant_def Let_def elim!: bind_SomeE split: if_split_asm prod.split_asm)
qed simp

lemma not_grant [simp]: "\<not> is_grant (m\<lparr>m_to := i\<rparr>) \<longleftrightarrow> \<not> is_grant m" "\<not> is_grant Message_default"
  by (simp_all add: is_grant_def Message_default_def)

lemma send_snapshot_fine:
  assumes "send_snapshot E r to pr ms = Some (pr', ms', b)" "0 < r_id r \<and> 0 < r_term r" "list_fine B ms"
  shows "list_fine B ms'"
proof -
  obtain m pr1 ok where p: "prepare_send_snapshot E r (Message_default\<lparr>m_to := to\<rparr>) pr to = Some (m, pr1, ok)"
    using assms(1) by (auto simp: send_snapshot_def elim!: bind_SomeE)
  then have "\<not> is_grant m"
    by (auto simp: prepare_send_snapshot_def Let_def is_grant_def Message_default_def elim!: bind_SomeE
        split: if_split_asm sum.split_asm)
  from core_send_fine [OF _ _ this _ assms(3)] p assms show ?thesis
    by (auto simp: send_snapshot_def elim!: bind_SomeE split: if_split_asm)
qed

lemma send_entries_fine:
  assumes "prepare_send_entries r (Message_default\<lparr>m_to := to\<rparr>) pr trm ents = Some (m, pr')"
    and "core_send r m ms = Some ms'" "0 < r_id r \<and> 0 < r_term r" "list_fine B ms"
  shows "list_fine B ms'"
proof -
  have "\<not> is_grant m"
    using assms(1) by (auto simp: prepare_send_entries_def Let_def is_grant_def elim!: bind_SomeE split: if_split_asm)
  from core_send_fine [OF assms(2) _ this _ assms(4)] assms(3) show ?thesis by simp
qed

lemma core_maybe_send_append_fine:
  assumes "core_maybe_send_append E r to pr ae ms = Some (pr', ms', b)" "0 < r_id r \<and> 0 < r_term r" "list_fine B ms"
  shows "list_fine B ms'"
  using assms(1,3)
  by (auto simp: core_maybe_send_append_def elim!: bind_SomeE
      split: if_split_asm prod.split_asm sum.split_asm Error.split_asm StorageError.split_asm
      dest!: send_snapshot_fine [OF _ assms(2,3)] try_batching_fine [OF _ assms(3)])
     (erule (1) send_entries_fine [OF _ _ assms(2)], assumption)+

lemma core_send_append_aggressively_fine:
  assumes "core_send_append_aggressively E r to pr ms = Some (pr', ms')" "0 < r_id r \<and> 0 < r_term r" "list_fine B ms"
  shows "list_fine B ms'"
proof -
  have "0 < r_id r \<and> 0 < r_term r \<longrightarrow> list_fine B ms \<longrightarrow> list_fine B (snd (pr', ms'))"
    using assms(1)
  proof (rule core_send_append_aggressively.raw_induct [rotated])
    fix f :: "('a, 'b) Storage_scheme \<Rightarrow> 'a Raft \<Rightarrow> nat \<Rightarrow> Progress \<Rightarrow> Message list \<Rightarrow> (Progress \<times> Message list) panics"
      and E r to pr ms y
    assume IH: "\<And>E r to pr ms y. f E r to pr ms = Some y \<Longrightarrow>
        0 < r_id r \<and> 0 < r_term r \<longrightarrow> list_fine B ms \<longrightarrow> list_fine B (snd y)"
      and "Option.bind (core_maybe_send_append E r to pr False ms)
        (\<lambda>(pr, msgs, b). if b then f E r to pr msgs else Some (pr, msgs)) = Some y"
    then show "0 < r_id r \<and> 0 < r_term r \<longrightarrow> list_fine B ms \<longrightarrow> list_fine B (snd y)"
      by (fastforce elim!: bind_SomeE split: prod.split_asm if_split_asm dest: core_maybe_send_append_fine)
  qed
  with assms(2,3) show ?thesis by simp
qed

subsection \<open>Operations that only talk\<close>

text \<open>The votes recorded and the persistent core stay, and fine messages stay fine; with \<open>p\<close>, if the node has a term.\<close>

abbreviation may_send :: "bool \<Rightarrow> 's Raft \<Rightarrow> bool" where
  "may_send p r \<equiv> 0 < r_id r \<and> (p \<longrightarrow> 0 < r_term r)"

definition talk :: "bool \<Rightarrow> (nat \<times> nat \<times> nat) set \<Rightarrow> 's Raft \<Rightarrow> 's Raft \<Rightarrow> bool" where
  "talk p B r r' \<longleftrightarrow> core_of r' = core_of r \<and> votes (r_prs r') = votes (r_prs r) \<and>
     (may_send p r \<longrightarrow> list_fine B (r_msgs r) \<longrightarrow> list_fine B (r_msgs r'))"

lemma talk_refl [simp]: "talk p B r r"
  by (simp add: talk_def)

lemma talk_trans: "talk p B r s \<Longrightarrow> talk p B s t \<Longrightarrow> talk p B r t"
  by (auto simp: talk_def core_of_def)

lemma votes_set_progress [simp]: "votes (r_prs (set_progress i pr r)) = votes (r_prs r)"
  "r_msgs (set_progress i pr r) = r_msgs r" "r_id (set_progress i pr r) = r_id r"
  "r_state (set_progress i pr r) = r_state r" "r_term (set_progress i pr r) = r_term r"
  "r_vote (set_progress i pr r) = r_vote r" "r_log (set_progress i pr r) = r_log r"
  by (simp_all add: set_progress_def)

lemma talk_upd [simp]:
  "talk p B r (r\<lparr>r_witness_msgs := b\<rparr>)" "talk p B r (r\<lparr>r_read_only := c\<rparr>)" "talk p B r (r\<lparr>r_read_states := d\<rparr>)"
  "talk p B r (set_progress i pr r)" "talk p B r (r\<lparr>r_pending_conf_index := g\<rparr>)" "talk p B r (r\<lparr>r_lead_transferee := h\<rparr>)"
  "talk p B r (r\<lparr>r_election_elapsed := i\<rparr>)" "talk p B r (r\<lparr>r_uncommitted_state := u\<rparr>)"
  by (simp_all add: talk_def)

lemma foldM_talk:
  assumes "foldM f xs r = Some r'" "\<And>x s s'. f x s = Some s' \<Longrightarrow> talk p B s s'"
  shows "talk p B r r'"
  using assms(1) by (rule foldM_rel [where R = "talk p B"]) (use assms(2) in \<open>auto intro: talk_trans\<close>)

lemma raft_send_talk: "raft_send r m = Some r' \<Longrightarrow> quiet m \<Longrightarrow> talk p B r r'"
  using raft_send_core [of r m r']
  by (auto simp: talk_def raft_send_def quiet_def elim!: bind_SomeE intro: core_send_fine)

lemma raft_send_append_talk: "raft_send_append E r to = Some r' \<Longrightarrow> talk True B r r'"
  by (auto simp: talk_def raft_send_append_def core_send_append_def elim!: bind_SomeE intro: core_maybe_send_append_fine)

lemma raft_maybe_send_append_talk: "raft_maybe_send_append E b r to = Some r' \<Longrightarrow> talk True B r r'"
  by (auto simp: talk_def raft_maybe_send_append_def elim!: bind_SomeE intro: core_maybe_send_append_fine)

lemma raft_send_append_aggressively_talk: "raft_send_append_aggressively E r to = Some r' \<Longrightarrow> talk True B r r'"
  by (auto simp: talk_def raft_send_append_aggressively_def elim!: bind_SomeE intro: core_send_append_aggressively_fine)

lemma bcast_append_talk: "bcast_append E r = Some r' \<Longrightarrow> talk True B r r'"
  unfolding bcast_append_def by (erule foldM_talk) (rule raft_send_append_talk)

lemma send_timeout_now_talk: "send_timeout_now r to = Some r' \<Longrightarrow> talk p B r r'"
  unfolding send_timeout_now_def by (erule raft_send_talk) (simp add: new_message_def quiet_def is_grant_def)

lemma send_request_snapshot_talk: "send_request_snapshot E r = Some r' \<Longrightarrow> talk p B r r'"
  unfolding send_request_snapshot_def by (elim bind_SomeE, erule raft_send_talk) (simp add: quiet_def is_grant_def)

lemma ready_read_talk: "ready_read r req idx = Some r' \<Longrightarrow> talk p B r r'"
  by (auto simp: ready_read_def handle_ready_read_index_def elim!: bind_SomeE split: if_split_asm option.split_asm
      elim: raft_send_talk simp: quiet_def is_grant_def)

lemma advance_reads_talk: "advance_reads r ctx = Some r' \<Longrightarrow> talk p B r r'"
proof -
  assume "advance_reads r ctx = Some r'"
  then obtain x :: "ReadOnly \<times> ReadIndexStatus list" where "foldM (\<lambda>rs r. ready_read r (ris_req rs) (ris_index rs)) (snd x) (r\<lparr>r_read_only := fst x\<rparr>) = Some r'"
    by (auto simp: advance_reads_def split_beta elim!: bind_SomeE)
  then have "talk p B (r\<lparr>r_read_only := fst x\<rparr>) r'" by (rule foldM_talk) (rule ready_read_talk)
  then show ?thesis by (rule talk_trans [rotated]) simp
qed

lemma witness_read_acks_talk: "witness_read_acks r ctx ws = Some r' \<Longrightarrow> talk p B r r'"
proof (induction ws arbitrary: r)
  case (Cons w ws)
  obtain ro acks where a: "recv_ack (r_read_only r) w ctx = (ro, acks)" by fastforce
  have "talk p B (r\<lparr>r_read_only := ro\<rparr>) r'"
    using Cons.prems a by (auto simp: Let_def split: if_split_asm intro: Cons.IH advance_reads_talk)
  then show ?case by (rule talk_trans [rotated]) simp
qed simp

lemma bcast_heartbeat_with_ctx_talk: "bcast_heartbeat_with_ctx r ctx = Some r' \<Longrightarrow> talk True B r r'"
proof -
  have beat: "talk True B s (s\<lparr>r_msgs := ms\<rparr>)" if "core_send_heartbeat s i pr ctx (r_msgs s) = Some ms" for s :: "'a Raft" and i pr ms
    using that by (auto simp: talk_def core_send_heartbeat_def is_grant_def intro: core_send_fine)
  assume "bcast_heartbeat_with_ctx r ctx = Some r'"
  then obtain r1 where r1: "foldM (\<lambda>i r. do {
              pr \<leftarrow> get_progress r i;
              if is_witness pr then Some r
              else do { msgs \<leftarrow> core_send_heartbeat r i pr ctx (r_msgs r); Some (r\<lparr>r_msgs := msgs\<rparr>) }
            }) (peers r) r = Some r1"
    and r': "(case ctx of None \<Rightarrow> Some r1 | Some c \<Rightarrow> witness_read_acks r1 c
         (filter (\<lambda>w. w \<noteq> 0) [fst (witnesses (conf (r_prs r1))), snd (witnesses (conf (r_prs r1)))])) = Some r'"
    unfolding bcast_heartbeat_with_ctx_def by (elim bind_SomeE) simp
  from r1 have "talk True B r r1"
    by (rule foldM_talk) (auto elim!: bind_SomeE split: if_split_asm intro: beat)
  moreover have "talk True B r1 r'" using r' by (auto split: option.split_asm intro: witness_read_acks_talk)
  ultimately show ?thesis by (rule talk_trans)
qed

lemma bcast_heartbeat_talk: "bcast_heartbeat r = Some r' \<Longrightarrow> talk True B r r'"
  unfolding bcast_heartbeat_def by (rule bcast_heartbeat_with_ctx_talk)

lemma send_append_to_witness_talk: "send_append_to_witness E r w = Some (r', b) \<Longrightarrow> talk p B r r'"
  by (auto simp: send_append_to_witness_def Let_def elim!: bind_SomeE split: sum.split_asm list.split_asm)

lemma send_request_vote_to_witness_talk: "send_request_vote_to_witness E r w t trm = Some r' \<Longrightarrow> talk p B r r'"
  by (auto simp: send_request_vote_to_witness_def Let_def elim!: bind_SomeE)

lemma contact_witness_talk: "contact_witness E s wi r = Some r' \<Longrightarrow> talk p B r r'"
  by (auto simp: contact_witness_def elim!: bind_SomeE split: prod.split_asm if_split_asm option.split_asm
      dest!: send_append_to_witness_talk [where B = B and p = p])
     (auto simp: talk_def)

lemma read_acks_talk:
  "(case recv_ack (r_read_only r) i ctx of (ro, acks) \<Rightarrow>
      let r = r\<lparr>r_read_only := ro\<rparr>
      in case acks of Some a \<Rightarrow> if has_quorum (r_prs r) a then advance_reads r ctx else Some r | None \<Rightarrow> Some r) = Some r' \<Longrightarrow>
    talk p B r r'"
  by (auto simp: Let_def split: prod.split_asm option.split_asm if_split_asm dest!: advance_reads_talk [where B = B and p = p])
     (auto simp: talk_def)

lemma handle_heartbeat_response_talk:
  assumes "handle_heartbeat_response E r m = Some r'"
  shows "talk True B r r'"
proof (cases "get_progress r (m_from m)")
  case None
  then show ?thesis using assms by (simp add: handle_heartbeat_response_def)
next
  case (Some pr)
  have send: "talk True B r r1" if "(if c then raft_send_append E (set_progress i pr1 r) i else Some (set_progress i pr1 r)) = Some r1"
    for c i pr1 r1
    using that by (auto split: if_split_asm dest!: raft_send_append_talk [where B = B] intro: talk_trans [OF talk_upd(4)])
  have ack: "talk True B r1 r'" if "(if c then Some r1 else case recv_ack (r_read_only r1) i ctx of (ro, acks) \<Rightarrow>
      let r = r1\<lparr>r_read_only := ro\<rparr>
      in case acks of Some a \<Rightarrow> if has_quorum (r_prs r) a then advance_reads r ctx else Some r | None \<Rightarrow> Some r) = Some r'"
    for c i ctx r1
    using that by (cases c) (simp, simp only: if_False, erule read_acks_talk)
  from assms show ?thesis
    unfolding handle_heartbeat_response_def Some option.case Let_def [of "set_progress _ _ _"] Let_def [of "resume _"]
    by (elim bind_SomeE) (rule talk_trans [OF send ack])
qed

lemma handle_transfer_leader_talk: "handle_transfer_leader E r m = Some r' \<Longrightarrow> talk True B r r'"
  by (auto simp: handle_transfer_leader_def abort_leader_transfer_def Let_def elim!: bind_SomeE
      split: if_split_asm option.split_asm dest!: raft_send_append_talk [where B = B] send_timeout_now_talk [where B = B and p = True])
     (auto simp: talk_def core_of_def)

lemma handle_status_talk: "talk p B r (handle_snapshot_status r m)" "talk p B r (handle_unreachable r m)"
  by (auto simp: handle_snapshot_status_def handle_unreachable_def Let_def split: option.split)

lemma leader_read_index_talk: "leader_read_index E r m = Some r' \<Longrightarrow> talk True B r r'"
  by (auto simp: leader_read_index_def elim!: bind_SomeE split: if_split_asm ReadOnlyOption.split_asm
      dest!: ready_read_talk [where B = B and p = True] bcast_heartbeat_with_ctx_talk [where B = B])
     (auto simp: talk_def core_of_def)

lemma propose_entries_talk: "propose_entries E i es r = Some (r', x) \<Longrightarrow> talk p B r r'"
proof (induction es arbitrary: i r x)
  case (Cons e es)
  then show ?case
    by (auto simp: Let_def elim!: bind_SomeE split: proposed.split_asm if_split_asm sum.split_asm prod.split_asm
        dest!: Cons.IH) (auto simp: talk_def core_of_def)
qed simp

subsection \<open>Operations that win no election\<close>

text \<open>
  No grant is added, the node is a candidate or leader afterwards only if it was one before, in the same term, and a
  candidate keeps its vote and the votes it has recorded.
\<close>

definition calm :: "bool \<Rightarrow> (nat \<times> nat \<times> nat) set \<Rightarrow> 's Raft \<Rightarrow> 's Raft \<Rightarrow> bool" where
  "calm p B r r' \<longleftrightarrow> r_id r' = r_id r \<and> (0 < r_term r \<longrightarrow> 0 < r_term r') \<and>
     (may_send p r \<longrightarrow> list_fine B (r_msgs r) \<longrightarrow> list_fine B (r_msgs r')) \<and>
     (r_state r' = Candidate \<longrightarrow> r_state r = Candidate \<and> r_term r' = r_term r \<and> r_vote r' = r_vote r \<and>
        votes (r_prs r') = votes (r_prs r)) \<and>
     (r_state r' = Leader \<longrightarrow> r_state r = Leader \<and> r_term r' = r_term r)"

lemma calm_refl [simp]: "calm p B r r"
  by (simp add: calm_def)

lemma calm_trans: "calm p B r s \<Longrightarrow> calm p B s t \<Longrightarrow> calm p B r t"
  by (auto simp: calm_def)

lemma calm_raise: "calm True B r r' \<Longrightarrow> 0 < r_term r \<Longrightarrow> calm p B r r'"
  by (auto simp: calm_def)

lemma talk_calm: "talk p B r r' \<Longrightarrow> calm p B r r'"
  by (auto simp: talk_def calm_def core_of_def)

lemmas calm_defs = calm_def talk_def core_of_def

lemma maybe_commit_calm: "maybe_commit E r = Some (r', b) \<Longrightarrow> calm p B r r'"
  by (auto simp: maybe_commit_def Let_def elim!: bind_SomeE split: if_split_asm prod.split_asm
      dest!: foldM_talk [where B = B and p = p, OF _ contact_witness_talk])
     (auto simp: calm_defs)

lemma maybe_commit_and_bcast_calm: "maybe_commit_and_bcast E r = Some r' \<Longrightarrow> calm True B r r'"
  by (auto simp: maybe_commit_and_bcast_def elim!: bind_SomeE split: if_split_asm prod.split_asm
      dest!: maybe_commit_calm [where B = B and p = True] bcast_append_talk [where B = B, THEN talk_calm] intro: calm_trans)

lemma append_entry_calm: "append_entry E r es = Some (r', b) \<Longrightarrow> calm p B r r' \<and> r_state r' = r_state r"
  by (auto simp: append_entry_def Let_def elim!: bind_SomeE split: if_split_asm prod.split_asm)
     (auto simp: calm_def)

lemma maybe_start_new_subterm_calm: "maybe_start_new_subterm E r nt cc = Some (r', b) \<Longrightarrow> calm p B r r'"
  by (auto simp: maybe_start_new_subterm_def reset_replication_set_def change_replication_set_def Let_def
      elim!: bind_SomeE split: if_split_asm prod.split_asm dest!: append_entry_calm [where B = B and p = p])
     (auto simp: calm_def)

lemma become_follower_calm:
  "become_follower E r t l = Some r' \<Longrightarrow> r_term r \<le> t \<Longrightarrow> calm p B r r' \<and> r_state r' = Follower"
  using become_follower_rest [of E r t l r'] become_follower_core [of E r t l r'] by (auto simp: calm_def)

lemmas loud_calms = raft_send_append_talk [THEN talk_calm] bcast_append_talk [THEN talk_calm]
  raft_send_append_aggressively_talk [THEN talk_calm]

lemmas talk_calms = send_timeout_now_talk [THEN talk_calm] send_request_snapshot_talk [THEN talk_calm]
  advance_reads_talk [THEN talk_calm] propose_entries_talk [THEN talk_calm]

lemma handle_append_response_calm: "handle_append_response E r m = Some r' \<Longrightarrow> calm True B r r'"
  by (auto simp: handle_append_response_def Let_def elim!: bind_SomeE
      split: if_split_asm prod.split_asm option.split_asm
      dest!: talk_calms [where B = B and p = True] loud_calms [where B = B] maybe_commit_calm [where B = B and p = True])
     (auto simp: calm_def)

lemma leader_propose_calm: "leader_propose E r m = Some (r', x) \<Longrightarrow> calm True B r r'"
  by (auto simp: leader_propose_def elim!: bind_SomeE split: if_split_asm sum.split_asm prod.split_asm
      dest!: talk_calms [where B = B and p = True] loud_calms [where B = B] append_entry_calm [where B = B and p = True])
     (auto simp: calm_def)

lemma check_quorum_active_talk: "check_quorum_active r = (r', b) \<Longrightarrow> talk p B r r'"
  by (auto simp: check_quorum_active_def quorum_recently_active_def talk_def Let_def split: prod.split_asm)

lemma leader_check_quorum_calm: "leader_check_quorum E r = Some r' \<Longrightarrow> calm p B r r'"
  by (auto simp: leader_check_quorum_def Let_def elim!: bind_SomeE split: if_split_asm prod.split_asm
      dest!: maybe_start_new_subterm_calm [where B = B and p = p] check_quorum_active_talk [where B = B and p = p, THEN talk_calm]
        become_follower_calm [where B = B and p = p])
     (auto simp: calm_def)

lemma leader_beat_calm:
  "bcast_heartbeat r = Some r1 \<Longrightarrow>
    (if raft_has_witness r1 then maybe_commit_and_bcast E r1 else Some r1) = Some r' \<Longrightarrow> calm True B r r'"
  by (auto split: if_split_asm dest!: bcast_heartbeat_talk [where B = B, THEN talk_calm] maybe_commit_and_bcast_calm [where B = B]
      intro: calm_trans)

lemma step_leader_calm: "step_leader E r m = Some (r', x) \<Longrightarrow> calm True B r r'"
  by (cases "msg_type m")
     (auto simp: step_leader_def handle_status_talk talk_calm elim!: bind_SomeE split: if_split_asm option.split_asm
      intro: handle_append_response_calm leader_propose_calm leader_check_quorum_calm leader_beat_calm
        leader_read_index_talk [THEN talk_calm] handle_heartbeat_response_talk [THEN talk_calm]
        handle_transfer_leader_talk [THEN talk_calm] bcast_heartbeat_talk [THEN talk_calm])

lemma post_conf_change_calm: "post_conf_change E r = Some (r', cs) \<Longrightarrow> (r_state r = Leader \<Longrightarrow> 0 < r_term r) \<Longrightarrow> calm p B r r'"
  by (auto simp: post_conf_change_def abort_leader_transfer_def Let_def elim!: bind_SomeE
      split: if_split_asm prod.split_asm option.split_asm option.split
      dest!: maybe_commit_calm [where B = B and p = True] talk_calms [where B = B and p = True] loud_calms [where B = B]
        foldM_talk [where B = B and p = True, OF _ raft_maybe_send_append_talk, THEN talk_calm])
     (auto simp: calm_def)

lemma apply_conf_change_calm: "apply_conf_change E r cc = Some (r', x) \<Longrightarrow> (r_state r = Leader \<Longrightarrow> 0 < r_term r) \<Longrightarrow> calm p B r r'"
  by (auto simp: apply_conf_change_def elim!: bind_SomeE split: if_split_asm prod.split_asm option.split_asm sum.split_asm
      dest!: post_conf_change_calm [where B = B and p = p] maybe_start_new_subterm_calm [where B = B and p = p])
     (auto simp: calm_def)

lemma raft_restore_calm: "raft_restore E r snap = Some (r', b) \<Longrightarrow> calm p B r r'"
  by (auto simp: raft_restore_def Let_def elim!: bind_SomeE split: if_split_asm prod.split_asm
      dest!: become_follower_calm [where B = B and p = p] post_conf_change_calm [where B = B and p = p])
     (auto simp: calm_def)

lemma raft_send_calm: "raft_send r m = Some r' \<Longrightarrow> msg_type m \<notin> {MsgRequestVoteResponse, MsgAppend, MsgHeartbeat, MsgSnapshot} \<Longrightarrow>
    calm p B r r'"
  by (rule talk_calm, erule raft_send_talk) (simp add: quiet_def is_grant_def)

lemma handle_append_entries_calm: "handle_append_entries E r m = Some r' \<Longrightarrow> calm p B r r'"
  by (auto simp: handle_append_entries_def Let_def elim!: bind_SomeE split: if_split_asm prod.split_asm option.split_asm
      dest!: talk_calms [where B = B and p = p] raft_send_calm [where B = B and p = p])
     (auto simp: calm_def)

lemma handle_heartbeat_calm: "handle_heartbeat E r m = Some r' \<Longrightarrow> calm p B r r'"
  by (auto simp: handle_heartbeat_def Let_def elim!: bind_SomeE split: if_split_asm
      dest!: talk_calms [where B = B and p = p] raft_send_calm [where B = B and p = p])
     (auto simp: calm_def)

lemma handle_snapshot_calm: "handle_snapshot E r m = Some r' \<Longrightarrow> calm p B r r'"
  by (auto simp: handle_snapshot_def elim!: bind_SomeE split: if_split_asm prod.split_asm
      dest!: raft_restore_calm [where B = B and p = p] raft_send_calm [where B = B and p = p] intro: calm_trans)

lemma maybe_commit_by_vote_calm: "maybe_commit_by_vote E r m = Some r' \<Longrightarrow> calm p B r r'"
  by (auto simp: maybe_commit_by_vote_def Let_def elim!: bind_SomeE split: if_split_asm prod.split_asm
      dest!: become_follower_calm [where B = B and p = p])
     (auto simp: calm_def)

lemma commit_apply_calm: "commit_apply E r i = Some r' \<Longrightarrow> calm p B r r'"
  by (auto simp: commit_apply_def commit_apply_internal_def Let_def elim!: bind_SomeE split: if_split_asm prod.split_asm
      dest!: append_entry_calm [where B = B and p = p])
     (auto simp: calm_def)

lemma on_persist_entries_calm: "on_persist_entries E r i t = Some r' \<Longrightarrow> (r_state r = Leader \<Longrightarrow> 0 < r_term r) \<Longrightarrow> calm p B r r'"
  by (auto simp: on_persist_entries_def Let_def elim!: bind_SomeE split: if_split_asm prod.split_asm
      dest!: maybe_commit_and_bcast_calm [where B = B])
     (auto simp: calm_def)

lemma on_persist_snap_calm: "on_persist_snap r i = Some r' \<Longrightarrow> calm p B r r'"
  by (auto simp: on_persist_snap_def calm_def elim!: bind_SomeE)

lemma confirm_witness_append_calm: "confirm_witness_append E r w = Some r' \<Longrightarrow> (r_state r = Leader \<Longrightarrow> 0 < r_term r) \<Longrightarrow> calm p B r r'"
  by (auto simp: confirm_witness_append_def Let_def split: if_split_asm option.split_asm
      dest!: maybe_commit_and_bcast_calm [where B = B])
     (auto simp: calm_def)

lemma reject_witness_append_calm: "calm p B r (reject_witness_append r w)"
  by (auto simp: reject_witness_append_def calm_def Let_def split: option.split)

lemma request_snapshot_calm: "request_snapshot E r = Some (r', x) \<Longrightarrow> calm p B r r'"
  by (auto simp: request_snapshot_def elim!: bind_SomeE split: if_split_asm dest!: talk_calms [where B = B and p = p])
     (auto simp: calm_def)

lemma ping_calm: "ping r = Some r' \<Longrightarrow> (r_state r = Leader \<Longrightarrow> 0 < r_term r) \<Longrightarrow> calm p B r r'"
  by (auto simp: ping_def split: if_split_asm dest!: bcast_heartbeat_talk [where B = B, THEN talk_calm] intro: calm_raise)

lemma settings_calm:
  "r' \<in> {set_priority r pri, skip_bcast_commit r b, set_batch_append r b, set_max_committed_size_per_ready r n,
    set_check_quorum r b, set_max_apply_unpersisted_log_limit r n, clear_commit_group r, maybe_free_inflight_buffers r,
    reduce_uncommitted_size r es} \<Longrightarrow> calm p B r r'"
  by (auto simp: setting_defs calm_def split: if_split_asm)

lemma set_randomized_election_timeout_calm: "set_randomized_election_timeout r t = Some r' \<Longrightarrow> calm p B r r'"
  by (auto simp: setting_defs calm_def elim!: bind_SomeE)

lemma adjust_max_inflight_msgs_calm: "adjust_max_inflight_msgs r i n = Some r' \<Longrightarrow> calm p B r r'"
  by (auto simp: adjust_max_inflight_msgs_def talk_calm elim!: bind_SomeE split: option.split_asm)

lemma enable_group_commit_calm: "enable_group_commit E r b = Some r' \<Longrightarrow> (r_state r = Leader \<Longrightarrow> 0 < r_term r) \<Longrightarrow> calm p B r r'"
  by (auto simp: enable_group_commit_def tracker_enable_group_commit_def Let_def elim!: bind_SomeE
      split: if_split_asm prod.split_asm dest!: maybe_commit_calm [where B = B and p = True] talk_calms [where B = B and p = True] loud_calms [where B = B])
     (auto simp: calm_def)

lemma assign_groups_talk:
  "foldM (\<lambda>(peer_id, group_id) r. do {
       ensure (0 < group_id);
       Some (case get_progress r peer_id of
               Some pr \<Rightarrow> set_progress peer_id (pr\<lparr>commit_group_id := group_id\<rparr>) r
             | None \<Rightarrow> r)
     }) ids r = Some r' \<Longrightarrow> talk p B r r'"
  by (erule foldM_talk) (auto elim!: bind_SomeE split: prod.splits option.splits)

lemma assign_commit_groups_calm: "assign_commit_groups E r ids = Some r' \<Longrightarrow> (r_state r = Leader \<Longrightarrow> 0 < r_term r) \<Longrightarrow> calm p B r r'"
  by (auto simp: assign_commit_groups_def elim!: bind_SomeE split: if_split_asm prod.split_asm
      dest!: assign_groups_talk [where B = B and p = p, THEN talk_calm] maybe_commit_calm [where B = B and p = True] talk_calms [where B = B and p = True] loud_calms [where B = B])
     (auto simp: calm_def)

subsection \<open>Elections\<close>

text \<open>
  A candidate votes for itself and counts only votes that were cast for it in its term; a leader has a quorum of them.
  Its own vote is cast in the same step in which it is counted.
\<close>

definition ballot_ok :: "JointConfig \<Rightarrow> (nat \<times> nat \<times> nat) set \<Rightarrow> 's Raft \<Rightarrow> bool" where
  "ballot_ok V B r \<longleftrightarrow>
     (r_state r = Candidate \<longrightarrow> r_vote r = r_id r \<and> 0 < r_term r \<and>
        (\<forall>v. map_of (votes (r_prs r)) v = Some True \<longrightarrow> (v, r_term r, r_id r) \<in> B \<or> v = r_id r)) \<and>
     (r_state r = Leader \<longrightarrow> 0 < r_term r \<and>
        joint_quorum V {v. (v, r_term r, r_id r) \<in> B \<or> v = r_id r \<and> r_vote r = r_id r})"

lemma ballot_ok_keep:
  assumes "raft_mono r r'" "0 < r_id r" "ballot_ok V B r"
    and "r_state r' = Candidate \<Longrightarrow> r_state r = Candidate \<and> r_term r' = r_term r \<and> votes (r_prs r') = votes (r_prs r)"
    and "r_state r' = Leader \<Longrightarrow> r_state r = Leader \<and> r_term r' = r_term r"
  shows "ballot_ok V B r'"
  using assms by (auto simp: raft_mono_def ballot_ok_def elim!: jq.quorum_mono)

lemma calm_ballot_ok:
  assumes "calm p B r r'" "raft_mono r r'" "0 < r_id r" "ballot_ok V B r"
  shows "ballot_ok V B r'"
  by (rule ballot_ok_keep [OF assms(2-4)]) (use assms(1) in \<open>simp_all add: calm_def\<close>)

text \<open>The effect of an election on a node.\<close>

definition elects :: "JointConfig \<Rightarrow> (nat \<times> nat \<times> nat) set \<Rightarrow> 's Raft \<Rightarrow> 's Raft \<Rightarrow> bool" where
  "elects V B r r' \<longleftrightarrow> r_id r' = r_id r \<and> (list_fine B (r_msgs r) \<longrightarrow> list_fine B (r_msgs r')) \<and> ballot_ok V B r'"

lemma become_candidate_rest:
  "become_candidate E r = Some r' \<Longrightarrow> r_msgs r' = r_msgs r \<and> votes (r_prs r') = [] \<and> conf (r_prs r') = conf (r_prs r)"
  by (auto simp: become_candidate_def elim!: bind_SomeE dest!: raft_reset_rest)

lemma become_pre_candidate_rest:
  "become_pre_candidate r = Some r' \<Longrightarrow> r_msgs r' = r_msgs r \<and> conf (r_prs r') = conf (r_prs r)"
  by (auto simp: become_pre_candidate_def reset_votes_def elim!: bind_SomeE)

lemma append_entry_msgs: "append_entry E r es = Some (r', b) \<Longrightarrow> r_msgs r' = r_msgs r"
  by (auto simp: append_entry_def Let_def elim!: bind_SomeE split: if_split_asm prod.split_asm)

lemma become_leader_msgs: "become_leader E r = Some r' \<Longrightarrow> r_msgs r' = r_msgs r"
  by (auto simp: become_leader_def maybe_start_new_subterm_def Let_def elim!: bind_SomeE
      split: if_split_asm prod.split_asm dest!: raft_reset_rest append_entry_msgs)

lemma vote_requests_talk:
  "foldM (\<lambda>(w, ready) r. if ready then send_request_vote_to_witness E r w t
       (if t = MsgRequestPreVote then r_term r + 1 else r_term r) else Some r) ws r = Some r' \<Longrightarrow> talk False B r r'"
  by (erule foldM_talk) (auto split: prod.splits if_splits intro: send_request_vote_to_witness_talk)

lemma poll_body_elects:
  assumes "poll_body E ce r from t v = Some (r', res)" "r_state r = Candidate" "0 < r_id r"
    and "voters (conf (r_prs r)) = V" "incoming V \<noteq> []" "ballot_ok V B r"
    and "v \<Longrightarrow> (from, r_term r, r_id r) \<in> B \<or> from = r_id r"
  shows "elects V B r r'"
proof -
  let ?s = "r\<lparr>r_prs := record_vote (r_prs r) from v\<rparr>"
  obtain g rj res' d where t: "tally_votes_with_diff (r_prs ?s) = (g, rj, res', d)" by (metis prod_cases4)
  have recorded: "(i, r_term r, r_id r) \<in> B \<or> i = r_id r" if "map_of (votes (record_vote (r_prs r) from v)) i = Some True" for i
    using that assms(2,6,7) by (auto simp: record_vote_first ballot_ok_def split: if_split_asm)
  have vote: "r_vote r = r_id r" "0 < r_term r" using assms(2,6) by (simp_all add: ballot_ok_def)
  show ?thesis
  proof (cases res')
    case Won
    then have "joint_quorum V {i. map_of (votes (record_vote (r_prs r) from v)) i = Some True}"
      using tally_result [OF t] assms(4,5) by (auto simp: record_vote_frame intro: joint_won_quorum)
    then have q: "joint_quorum V {i. (i, r_term r, r_id r) \<in> B \<or> i = r_id r}"
      by (rule jq.quorum_mono) (use recorded in blast)
    from Won t assms(1,2) obtain r1 where r1: "become_leader E ?s = Some r1" "bcast_append E r1 = Some r'"
      by (auto simp: poll_body_def Let_def elim!: bind_SomeE)
    show ?thesis
      using become_leader_mono [OF r1(1)] become_leader_msgs [OF r1(1)] bcast_append_talk [OF r1(2), of B] q vote assms(3)
      by (auto simp: elects_def ballot_ok_def talk_def core_of_def raft_mono_def)
  next
    case Lost
    with t assms(1) have "become_follower E ?s (r_term r) INVALID_ID = Some r'"
      by (auto simp: poll_body_def Let_def elim!: bind_SomeE)
    from become_follower_core [OF this] become_follower_rest [OF this] show ?thesis
      by (auto simp: elects_def ballot_ok_def)
  next
    case Pending
    with t assms(1) have "talk False B ?s r'"
      by (auto simp: poll_body_def Let_def elim!: bind_SomeE dest!: vote_requests_talk)
    with assms(2,3) recorded vote show ?thesis
      by (auto simp: elects_def ballot_ok_def talk_def core_of_def)
  qed
qed

lemma campaign_sends_talk:
  assumes "foldM (\<lambda>i r. if i = r_id r then Some r
      else if i = fst (witnesses (conf (r_prs r))) \<or> i = snd (witnesses (conf (r_prs r))) then Some r
      else do {
        last_index \<leftarrow> log_last_index E (r_log r);
        last_term \<leftarrow> log_last_term E (r_log r);
        raft_send r (f i last_index last_term)
      }) ids r = Some r'" "\<And>i a b. quiet (f i a b)"
  shows "talk False B r r'"
  using assms(1) by (rule foldM_talk) (auto elim!: bind_SomeE split: if_split_asm elim: raft_send_talk simp: assms(2))

lemma elects_talk: "elects V B r s \<Longrightarrow> talk False B s r' \<Longrightarrow> 0 < r_id r \<Longrightarrow> elects V B r r'"
  by (auto simp: elects_def talk_def core_of_def ballot_ok_def)

text \<open>The end of \<open>campaign\<close>, after its own poll.\<close>

lemma campaign_body_elects:
  assumes "campaign_body E pf r ct = Some r'" "0 < r_id r"
    and "\<And>s s' res. become_candidate E r = Some s \<Longrightarrow> pf s (r_id s) MsgRequestVote True = Some (s', res) \<Longrightarrow> elects V B r s'"
    and "\<And>s s' res. ct = CAMPAIGN_PRE_ELECTION \<Longrightarrow> become_pre_candidate r = Some s \<Longrightarrow>
      pf s (r_id s) MsgRequestPreVote True = Some (s', res) \<Longrightarrow> elects V B r s'"
  shows "elects V B r r'"
  using assms(1)
  by (auto simp: campaign_body_def elim!: bind_SomeE split: if_split_asm prod.split_asm
      dest!: campaign_sends_talk [where B = B] simp: quiet_def is_grant_def new_message_def)
     ((drule (2) assms(4) | drule (1) assms(3)), (assumption | erule (1) elects_talk [OF _ _ assms(2)]))+

lemma candidate_ok: "become_candidate E r = Some s \<Longrightarrow> ballot_ok V B s"
  using become_candidate_core [of E r s] become_candidate_rest [of E r s] by (auto simp: ballot_ok_def)

lemma become_candidate_elects:
  assumes "become_candidate E r = Some s" "poll_body E ce s (r_id s) MsgRequestVote True = Some (s', res)"
    and "0 < r_id r" "voters (conf (r_prs r)) = V" "incoming V \<noteq> []"
  shows "elects V B r s'"
proof -
  note c = become_candidate_core [OF assms(1)] become_candidate_rest [OF assms(1)]
  have "elects V B s s'"
    by (rule poll_body_elects [OF assms(2)]) (use c assms(3-5) candidate_ok [OF assms(1)] in auto)
  with c show ?thesis by (simp add: elects_def)
qed

lemma campaign_election_elects:
  assumes "campaign_election E r = Some r'" "0 < r_id r" "voters (conf (r_prs r)) = V" "incoming V \<noteq> []"
  shows "elects V B r r'"
  using assms(1) unfolding campaign_election_def
proof (rule campaign_body_elects)
  assume "CAMPAIGN_ELECTION = CAMPAIGN_PRE_ELECTION"
  then show "elects V B r s'" for s' by (simp add: CAMPAIGN_ELECTION_def CAMPAIGN_PRE_ELECTION_def)
qed (use assms in \<open>auto intro: become_candidate_elects\<close>)

text \<open>A poll outside candidacy counts for a pre-election at most.\<close>

lemma poll_pre_elects:
  assumes "poll E r from t v = Some (r', res)" "r_state r = PreCandidate" "0 < r_id r"
    and "voters (conf (r_prs r)) = V" "incoming V \<noteq> []"
  shows "elects V B r r'"
proof -
  let ?s = "r\<lparr>r_prs := record_vote (r_prs r) from v\<rparr>"
  obtain g rj res' d where t: "tally_votes_with_diff (r_prs ?s) = (g, rj, res', d)" by (metis prod_cases4)
  show ?thesis
  proof (cases res')
    case Won
    with t assms(1,2) have "campaign_election E ?s = Some r'"
      by (auto simp: poll_def poll_body_def Let_def elim!: bind_SomeE)
    from campaign_election_elects [OF this, of V B] assms(3-5) show ?thesis
      by (simp add: elects_def record_vote_frame)
  next
    case Lost
    with t assms(1) have "become_follower E ?s (r_term r) INVALID_ID = Some r'"
      by (auto simp: poll_def poll_body_def Let_def elim!: bind_SomeE)
    from become_follower_core [OF this] become_follower_rest [OF this] show ?thesis
      by (auto simp: elects_def ballot_ok_def)
  next
    case Pending
    with t assms(1) have "talk False B ?s r'"
      by (auto simp: poll_def poll_body_def Let_def elim!: bind_SomeE dest!: vote_requests_talk)
    with assms(2,3) show ?thesis by (auto simp: elects_def ballot_ok_def talk_def core_of_def)
  qed
qed

lemma campaign_elects:
  assumes "campaign E r ct = Some r'" "0 < r_id r" "voters (conf (r_prs r)) = V" "incoming V \<noteq> []"
  shows "elects V B r r'"
  using assms(1) unfolding campaign_def
proof (rule campaign_body_elects)
  fix s s' res
  assume s: "become_pre_candidate r = Some s" "poll E s (r_id s) MsgRequestPreVote True = Some (s', res)"
  note c = become_pre_candidate_core [OF s(1)] become_pre_candidate_rest [OF s(1)]
  have "elects V B s s'" by (rule poll_pre_elects [OF s(2)]) (use c assms in auto)
  with c show "elects V B r s'" by (simp add: elects_def)
qed (use assms in \<open>auto simp: poll_def intro: become_candidate_elects\<close>)

lemma hup_elects:
  assumes "hup E r b = Some r'" "0 < r_id r" "voters (conf (r_prs r)) = V" "incoming V \<noteq> []" "ballot_ok V B r"
  shows "elects V B r r'"
  using assms by (auto simp: hup_def Let_def elects_def elim!: bind_SomeE split: if_split_asm
      dest!: campaign_elects [where B = B])

subsection \<open>One step of a node\<close>

lemma elects_calm:
  assumes "elects V B r s" "calm False B s r'" "raft_mono s r'" "0 < r_id r"
  shows "elects V B r r'"
  using assms calm_ballot_ok [OF assms(2,3)] by (auto simp: elects_def calm_def)

lemma calm_elects: "calm False B r r' \<Longrightarrow> raft_mono r r' \<Longrightarrow> 0 < r_id r \<Longrightarrow> ballot_ok V B r \<Longrightarrow> elects V B r r'"
  using calm_ballot_ok [of False B r r' V] by (auto simp: elects_def calm_def)

lemma step_follower_calm:
  "step_follower E r m = Some (r', x) \<Longrightarrow> msg_type m \<noteq> MsgTimeoutNow \<Longrightarrow> calm p B r r'"
  by (cases "msg_type m")
     (auto simp: step_follower_def Let_def elim!: bind_SomeE split: if_split_asm prod.split_asm
      dest!: raft_send_calm [where B = B and p = False] handle_append_entries_calm [where B = B and p = False] handle_heartbeat_calm [where B = B and p = False]
        handle_snapshot_calm [where B = B and p = False],
      auto simp: calm_def)

lemma step_follower_elects:
  assumes "step_follower E r m = Some (r', x)" "0 < r_id r" "voters (conf (r_prs r)) = V" "incoming V \<noteq> []"
    "ballot_ok V B r"
  shows "elects V B r r'"
proof (cases "msg_type m = MsgTimeoutNow")
  case True
  then show ?thesis
    using assms by (auto simp: step_follower_def elects_def elim!: bind_SomeE split: if_split_asm dest!: hup_elects [where B = B])
next
  case False
  show ?thesis by (rule calm_elects [OF step_follower_calm [OF assms(1) False] step_follower_mono [OF assms(1)] assms(2,5)])
qed

lemma become_then_calm: "become_follower E r t l = Some s \<Longrightarrow> r_term r \<le> t \<Longrightarrow> calm p B s r' \<Longrightarrow> calm p B r r'"
  by (blast intro: calm_trans dest: become_follower_calm)

lemma step_candidate_elects:
  assumes "step_candidate E r m = Some (r', x)" "0 < r_id r" "voters (conf (r_prs r)) = V" "incoming V \<noteq> []"
    and "ballot_ok V B r" "r_state r = Candidate \<or> r_state r = PreCandidate"
    and "msg_type m \<in> {MsgAppend, MsgHeartbeat, MsgSnapshot} \<Longrightarrow> r_term r \<le> m_term m"
    and "is_grant m \<Longrightarrow> r_state r = Candidate \<Longrightarrow> (m_from m, r_term r, r_id r) \<in> B"
  shows "elects V B r r'"
proof -
  note mono = step_candidate_mono [OF assms(1,7)]
  consider (resp) s res where "poll E r (m_from m) (msg_type m) (\<not> m_reject m) = Some (s, res)"
      "maybe_commit_by_vote E s m = Some r'" "msg_type m = MsgRequestVoteResponse \<or> r_state r = PreCandidate"
    | (calm) "calm False B r r'"
    using assms(1,6,7)
    by (cases "msg_type m")
       (auto simp: step_candidate_def elim!: bind_SomeE split: if_split_asm prod.split_asm
        dest!: become_follower_calm [where B = B and p = False] handle_append_entries_calm [where B = B and p = False] handle_heartbeat_calm [where B = B and p = False]
          handle_snapshot_calm [where B = B and p = False] dest: calm_trans)
  then show ?thesis
  proof cases
    case resp
    have "elects V B r s"
    proof (cases "r_state r = Candidate")
      case True
      then show ?thesis
        using poll_body_elects [OF resp(1) [unfolded poll_def] True assms(2-5)] resp(3) assms(8) by (auto simp: is_grant_def)
    next
      case False
      then show ?thesis using poll_pre_elects [OF resp(1)] assms(2-4,6) by blast
    qed
    then show ?thesis
      using elects_calm [OF _ maybe_commit_by_vote_calm [OF resp(2)] maybe_commit_by_vote_mono [OF resp(2)] assms(2)] by blast
  next
    case calm
    then show ?thesis using mono assms(2,5) by (blast intro: calm_elects)
  qed
qed

lemma list_fine_mono: "list_fine B ms \<Longrightarrow> B \<subseteq> C \<Longrightarrow> list_fine C ms"
  by (auto simp: list_fine_def list_all_iff fine_def)

end
