(* ===== verification/Conf_Restore.thy ===== *)
theory Conf_Restore
  imports Confchange
begin

section \<open>Restoring a configuration\<close>

text \<open>
  \<^verbatim>\<open>src/confchange/restore.rs\<close> rebuilds a tracker from the \<^verbatim>\<open>ConfState\<close> stored with a snapshot by replaying
  configuration changes on an empty tracker.  This theory follows the replay and shows that it gives the configuration
  back.
\<close>

subsection \<open>The effect of the replayed changes\<close>

lemma hs_new [simp]: "x \<notin> set xs \<Longrightarrow> hs_insert x xs = xs @ [x]" "x \<notin> set xs \<Longrightarrow> hs_remove x xs = xs"
  by (auto simp: hs_insert_def hs_remove_def intro: filter_True)

lemma hs_remove_Cons: "x \<notin> set xs \<Longrightarrow> hs_remove x (x # xs) = xs"
  by (auto simp: hs_remove_def intro: filter_True)

lemma hs_extend_new [simp]: "distinct ys \<Longrightarrow> set xs \<inter> set ys = {} \<Longrightarrow> hs_extend xs ys = xs @ ys"
proof (induction ys arbitrary: xs)
  case (Cons y ys)
  then show ?case using Cons.IH [of "xs @ [y]"] by (auto simp: hs_extend_def)
qed (simp add: hs_extend_def)

abbreviation add_voter :: "nat \<Rightarrow> nat \<Rightarrow> ConfChangeSingle" where
  "add_voter w i \<equiv> new_conf_change_single i (if i = w then AddWitness else AddNode)"

abbreviation add_learner :: "nat \<Rightarrow> ConfChangeSingle" where
  "add_learner i \<equiv> new_conf_change_single i AddLearnerNode"

definition with_voters :: "nat list \<Rightarrow> nat \<Rightarrow> Configuration \<Rightarrow> Configuration" where
  "with_voters vs w c = c\<lparr>voters := (voters c)\<lparr>incoming := vs\<rparr>, witnesses := (w, snd (witnesses c))\<rparr>"

lemma with_voters_simps [simp]:
  "incoming (voters (with_voters vs w c)) = vs" "outgoing (voters (with_voters vs w c)) = outgoing (voters c)"
  "learners (with_voters vs w c) = learners c" "learners_next (with_voters vs w c) = learners_next c"
  "auto_leave (with_voters vs w c) = auto_leave c" "witnesses (with_voters vs w c) = (w, snd (witnesses c))"
  "with_voters vs w (with_voters vs' w' c) = with_voters vs w c"
  by (simp_all add: with_voters_def)

lemma add_voter_effect:
  assumes "0 < i" "i \<notin> set (incoming (voters (fst s)))" "i \<notin> set (learners (fst s))" "i \<notin> set (learners_next (fst s))"
  shows "fst (apply_single (add_voter w i) s) =
    with_voters (incoming (voters (fst s)) @ [i]) (if i = w then i else fst (witnesses (fst s))) (fst s)"
  using assms
  by (cases s) (auto simp: apply_single_def new_conf_change_single_def make_voter_def make_witness_def init_progress_def
      with_voters_def hs_insert_def Let_def)

lemma add_learner_effect:
  assumes "0 < i" "i \<notin> set (incoming (voters (fst s)))" "i \<notin> set (learners (fst s))" "i \<notin> set (learners_next (fst s))"
    and "i \<in> set (outgoing (voters (fst s))) \<Longrightarrow> ic_contains (snd s) i"
  shows "fst (apply_single (add_learner i) s) =
    (if i \<in> set (outgoing (voters (fst s))) then (fst s)\<lparr>learners_next := learners_next (fst s) @ [i]\<rparr>
     else (fst s)\<lparr>learners := learners (fst s) @ [i]\<rparr>)"
  using assms
  by (cases s) (auto simp: apply_single_def new_conf_change_single_def make_learner_def init_progress_def Let_def)

lemma remove_effect:
  assumes "0 < i" "ic_contains (snd s) i" "i \<notin> set (learners (fst s))" "i \<notin> set (learners_next (fst s))"
    and "i \<in> set (outgoing (voters (fst s)))"
  shows "apply_single (new_conf_change_single i RemoveNode) s =
    (with_voters (hs_remove i (incoming (voters (fst s)))) (if fst (witnesses (fst s)) = i then 0 else fst (witnesses (fst s)))
      (fst s), snd s)"
  using assms
  by (cases s) (auto simp: apply_single_def new_conf_change_single_def remove_peer_def with_voters_def Let_def)

lemma fold_add_voters:
  assumes "distinct (incoming (voters (fst s)) @ vs)" "0 \<notin> set vs"
    and "set vs \<inter> set (learners (fst s)) = {}" "set vs \<inter> set (learners_next (fst s)) = {}"
  shows "fst (fold apply_single (map (add_voter w) vs) s) =
    with_voters (incoming (voters (fst s)) @ vs) (if w \<in> set vs then w else fst (witnesses (fst s))) (fst s)"
  using assms
proof (induction vs arbitrary: s)
  case Nil
  then show ?case by (simp add: with_voters_def)
next
  case (Cons i vs)
  let ?s = "apply_single (add_voter w i) s"
  have "fst ?s = with_voters (incoming (voters (fst s)) @ [i]) (if i = w then i else fst (witnesses (fst s))) (fst s)"
    using Cons.prems by (intro add_voter_effect) auto
  then show ?case using Cons.IH [of ?s] Cons.prems by auto
qed

lemma add_learner_tracked: "ic_contains (snd s) j \<Longrightarrow> ic_contains (snd (apply_single (add_learner i) s)) j"
  by (cases s) (auto simp: apply_single_def new_conf_change_single_def make_learner_def init_progress_def Let_def)

lemma fold_add_learners:
  assumes "distinct ls" "0 \<notin> set ls" "set ls \<inter> set (incoming (voters (fst s))) = {}"
    and "set ls \<inter> set (learners (fst s)) = {}" "set ls \<inter> set (learners_next (fst s)) = {}"
    and "\<forall>i \<in> set (outgoing (voters (fst s))). ic_contains (snd s) i" "set ls \<inter> set (outgoing (voters (fst s))) = {}"
  shows "fst (fold apply_single (map add_learner ls) s) = (fst s)\<lparr>learners := learners (fst s) @ ls\<rparr>"
  using assms
proof (induction ls arbitrary: s)
  case (Cons i ls)
  let ?s = "apply_single (add_learner i) s"
  have "fst ?s = (fst s)\<lparr>learners := learners (fst s) @ [i]\<rparr>" using Cons.prems add_learner_effect [of i s] by auto
  then show ?case using Cons.IH [of ?s] Cons.prems add_learner_tracked [of s _ i] by auto
qed simp

lemma fold_stage_learners:
  assumes "distinct ls" "0 \<notin> set ls" "set ls \<inter> set (incoming (voters (fst s))) = {}"
    and "set ls \<inter> set (learners (fst s)) = {}" "set ls \<inter> set (learners_next (fst s)) = {}"
    and "\<forall>i \<in> set (outgoing (voters (fst s))). ic_contains (snd s) i" "set ls \<subseteq> set (outgoing (voters (fst s)))"
  shows "fst (fold apply_single (map add_learner ls) s) = (fst s)\<lparr>learners_next := learners_next (fst s) @ ls\<rparr>"
  using assms
proof (induction ls arbitrary: s)
  case (Cons i ls)
  let ?s = "apply_single (add_learner i) s"
  have "fst ?s = (fst s)\<lparr>learners_next := learners_next (fst s) @ [i]\<rparr>" using Cons.prems add_learner_effect [of i s] by auto
  then show ?case using Cons.IH [of ?s] Cons.prems add_learner_tracked [of s _ i] by auto
qed simp

lemma fold_removes:
  assumes "incoming (voters (fst s)) = xs" "0 \<notin> set xs" "distinct xs" "learners (fst s) = []" "learners_next (fst s) = []"
    and "set xs \<subseteq> set (outgoing (voters (fst s)))" "\<forall>i \<in> set xs. ic_contains (snd s) i"
  shows "fold apply_single (map (\<lambda>i. new_conf_change_single i RemoveNode) xs) s =
    (with_voters [] (if fst (witnesses (fst s)) \<in> set xs then 0 else fst (witnesses (fst s))) (fst s), snd s)"
  using assms
proof (induction xs arbitrary: s)
  case Nil
  then show ?case by (cases s) (simp add: with_voters_def)
next
  case (Cons i xs)
  let ?s = "apply_single (new_conf_change_single i RemoveNode) s"
  have e: "?s = (with_voters xs (if fst (witnesses (fst s)) = i then 0 else fst (witnesses (fst s))) (fst s), snd s)"
    using remove_effect [of i s] Cons.prems by (auto simp: hs_remove_Cons)
  show ?case using Cons.IH [of ?s] Cons.prems e by auto
qed

subsection \<open>The replay\<close>

text \<open>A configuration that is not joint.\<close>

definition plain :: "nat list \<Rightarrow> nat \<Rightarrow> nat list \<Rightarrow> Configuration" where
  "plain vs w ls = \<lparr>voters = \<lparr>incoming = vs, outgoing = []\<rparr>, learners = ls, learners_next = [], auto_leave = False,
     witnesses = (w, 0)\<rparr>"

lemma plain_simps [simp]:
  "incoming (voters (plain vs w ls)) = vs" "outgoing (voters (plain vs w ls)) = []" "learners (plain vs w ls) = ls"
  "learners_next (plain vs w ls) = []" "auto_leave (plain vs w ls) = False" "witnesses (plain vs w ls) = (w, 0)"
  "with_voters vs' w' (plain vs w ls) = plain vs' w' ls" "(plain vs w ls)\<lparr>learners := ls'\<rparr> = plain vs w ls'"
  "joint (plain vs w ls) = False"
  by (simp_all add: plain_def with_voters_def joint_def)

lemma apply_conf_conf [simp]: "conf (apply_conf t cfg chs nxt) = cfg"
proof -
  have "conf (fold (apply_map_change nxt) chs u) = conf u" for u
  proof (induction chs arbitrary: u)
    case (Cons ch chs)
    then show ?case by (cases "(nxt, ch, u)" rule: apply_map_change.cases) (simp_all add: Let_def)
  qed simp
  then show ?thesis by (simp add: apply_conf_def)
qed

lemma simple_step:
  assumes "tracker_inv t" "conf t = plain vs0 w0 ls0" "fst (apply_single cc (simple_start t)) = plain vs w ls" "vs \<noteq> []"
    and "length (symmetric_difference vs vs0) \<le> 1" "w = 0 \<or> w \<in> set vs"
  shows "\<exists>t'. apply_simples nxt (cc # ccs) t = apply_simples nxt ccs t' \<and> tracker_inv t' \<and> conf t' = plain vs w ls"
proof -
  obtain prs where a: "apply_single cc (simple_start t) = (plain vs w ls, prs)" using assms(3) by (metis prod.collapse)
  have "conf_core (ic_contains prs) (plain vs w ls)"
    using apply_single_core [OF start_core(2) [OF assms(1)], of cc] assms(2) a by simp
  then have "conf_ok (ic_contains prs) (plain vs w ls)"
    by (rule core_conf_ok) (use assms(6) in \<open>auto simp: witness_in_def\<close>)
  then have "simple t [cc] = Inr (plain vs w ls, ic_changes prs)"
    using assms(1,2,4,5) a by (simp add: simple_Inr tracker_inv_def)
  then show ?thesis using conf_step_inv [OF conf_simple assms(1)] by fastforce
qed

lemma symmetric_difference_snoc: "i \<notin> set vs \<Longrightarrow> length (symmetric_difference (vs @ [i]) vs) \<le> 1"
  "symmetric_difference vs vs = []"
  by (auto simp: symmetric_difference_def)

lemma replay_voters:
  assumes "tracker_inv t" "conf t = plain vs0 w0 []" "w0 = 0 \<or> w0 \<in> set vs0" "distinct (vs0 @ vs)" "0 \<notin> set vs"
  shows "\<exists>t'. apply_simples nxt (map (add_voter w) vs @ ccs) t = apply_simples nxt ccs t' \<and> tracker_inv t' \<and>
    conf t' = plain (vs0 @ vs) (if w \<in> set vs then w else w0) []"
  using assms
proof (induction vs arbitrary: t vs0 w0)
  case (Cons i vs)
  let ?w = "if i = w then i else w0"
  have e: "fst (apply_single (add_voter w i) (simple_start t)) = plain (vs0 @ [i]) ?w []"
    using Cons.prems add_voter_effect [of i "simple_start t" w] by (simp add: simple_start_def)
  have "\<exists>t1. apply_simples nxt (add_voter w i # map (add_voter w) vs @ ccs) t =
      apply_simples nxt (map (add_voter w) vs @ ccs) t1 \<and> tracker_inv t1 \<and> conf t1 = plain (vs0 @ [i]) ?w []"
    by (rule simple_step [OF Cons.prems(1,2) e]) (use Cons.prems symmetric_difference_snoc(1) [of i vs0] in auto)
  then obtain t1 where t1: "apply_simples nxt (add_voter w i # map (add_voter w) vs @ ccs) t =
      apply_simples nxt (map (add_voter w) vs @ ccs) t1" "tracker_inv t1" "conf t1 = plain (vs0 @ [i]) ?w []"
    by blast
  have "\<exists>t'. apply_simples nxt (map (add_voter w) vs @ ccs) t1 = apply_simples nxt ccs t' \<and> tracker_inv t' \<and>
    conf t' = plain ((vs0 @ [i]) @ vs) (if w \<in> set vs then w else ?w) []"
    by (rule Cons.IH [OF t1(2,3)]) (use Cons.prems in auto)
  with t1(1) Cons.prems show ?case by auto
qed auto

lemma replay_learners:
  assumes "tracker_inv t" "conf t = plain vs w ls0" "w = 0 \<or> w \<in> set vs" "vs \<noteq> []" "distinct (ls0 @ ls)" "0 \<notin> set ls"
    and "set ls \<inter> set vs = {}"
  shows "\<exists>t'. apply_simples nxt (map add_learner ls) t = Inr t' \<and> tracker_inv t' \<and> conf t' = plain vs w (ls0 @ ls)"
  using assms
proof (induction ls arbitrary: t ls0)
  case (Cons i ls)
  have e: "fst (apply_single (add_learner i) (simple_start t)) = plain vs w (ls0 @ [i])"
    using Cons.prems add_learner_effect [of i "simple_start t"] by (simp add: simple_start_def)
  have "\<exists>t1. apply_simples nxt (add_learner i # map add_learner ls) t = apply_simples nxt (map add_learner ls) t1 \<and>
      tracker_inv t1 \<and> conf t1 = plain vs w (ls0 @ [i])"
    by (rule simple_step [OF Cons.prems(1,2) e]) (use Cons.prems in \<open>auto simp: symmetric_difference_snoc(2)\<close>)
  then obtain t1 where t1: "apply_simples nxt (add_learner i # map add_learner ls) t = apply_simples nxt (map add_learner ls) t1"
      "tracker_inv t1" "conf t1 = plain vs w (ls0 @ [i])"
    by blast
  have "\<exists>t'. apply_simples nxt (map add_learner ls) t1 = Inr t' \<and> tracker_inv t' \<and> conf t' = plain vs w ((ls0 @ [i]) @ ls)"
    by (rule Cons.IH [OF t1(2,3)]) (use Cons.prems in auto)
  with t1(1) show ?case by simp
qed auto

text \<open>The configurations that a node can be in: what \<open>check_invariants\<close> tests, and no id occurs twice or is zero.\<close>

definition conf_stored :: "Configuration \<Rightarrow> bool" where
  "conf_stored cfg \<longleftrightarrow> conf_ok (\<lambda>i. 0 < i) cfg \<and> conf_distinct cfg \<and> incoming (voters cfg) \<noteq> [] \<and>
     set (learners_next cfg) \<inter> set (incoming (voters cfg)) = {}"

text \<open>A tracker to replay on: a new one, or one that has been cleared.\<close>

definition tracker_empty :: "ProgressTracker \<Rightarrow> bool" where
  "tracker_empty t \<longleftrightarrow> tracker_inv t \<and> conf t = plain [] 0 []"

lemma new_tracker: "tracker_empty (ProgressTracker_new n)"
  by (simp add: tracker_empty_def tracker_inv_def tracker_ok_def conf_ok_def conf_distinct_def ProgressTracker_new_def
      plain_def Configuration_with_capacity_def JointConfig_new_def joint_def)

lemma cleared_tracker: "tracker_empty (tracker_clear t)"
  by (simp add: tracker_empty_def tracker_inv_def tracker_ok_def conf_ok_def conf_distinct_def tracker_clear_def
      conf_clear_def joint_clear_def plain_def joint_def)

lemma restore_plain:
  assumes "conf_stored cfg" "\<not> joint cfg" "tracker_empty t0"
  shows "\<exists>t. confchange_restore t0 nxt (to_conf_state cfg) = Inr t \<and> tracker_inv t \<and> conf t = cfg"
proof -
  let ?vs = "incoming (voters cfg)" and ?w = "fst (witnesses cfg)" and ?ls = "learners cfg"
  have c: "cfg = plain ?vs ?w ?ls" "outgoing (voters cfg) = []" "learners_next cfg = []"
    using assms by (auto simp: conf_stored_def conf_ok_def joint_def plain_def Let_def prod_eq_iff)
  have h: "distinct ?vs" "0 \<notin> set ?vs" "?vs \<noteq> []" "distinct ?ls" "0 \<notin> set ?ls" "set ?ls \<inter> set ?vs = {}" "?w = 0 \<or> ?w \<in> set ?vs"
    using assms(1) by (auto simp: conf_stored_def conf_ok_def conf_distinct_def Let_def)
  let ?cls = "map add_learner ?ls"
  obtain t1 where t1: "apply_simples nxt (map (add_voter ?w) ?vs @ ?cls) t0 = apply_simples nxt ?cls t1"
    "tracker_inv t1" "conf t1 = plain ?vs ?w []"
    using replay_voters [of t0 "[]" 0 ?vs nxt ?w ?cls] assms(3) h by (auto simp: tracker_empty_def)
  obtain t2 where t2: "apply_simples nxt ?cls t1 = Inr t2" "tracker_inv t2" "conf t2 = plain ?vs ?w ?ls"
    using replay_learners [OF t1(2,3) h(7,3), of ?ls nxt] h by auto
  have "confchange_restore t0 nxt (to_conf_state cfg) =
      apply_simples nxt (map (add_voter ?w) ?vs @ ?cls) t0"
    using c(2,3) by (simp add: confchange_restore_def to_conf_change_single_def to_conf_state_def)
  then show ?thesis using t1(1) t2 c(1) by auto
qed

lemma restore_joint:
  assumes "conf_stored cfg" "joint cfg" "tracker_empty t0"
  shows "\<exists>t. confchange_restore t0 nxt (to_conf_state cfg) = Inr t \<and> tracker_inv t \<and> conf t = cfg"
proof -
  let ?vs = "incoming (voters cfg)" and ?qs = "outgoing (voters cfg)" and ?ls = "learners cfg" and ?ns = "learners_next cfg"
  let ?w = "fst (witnesses cfg)" and ?wq = "snd (witnesses cfg)"
  have h: "distinct ?vs" "0 \<notin> set ?vs" "?vs \<noteq> []" "distinct ?qs" "0 \<notin> set ?qs" "?qs \<noteq> []" "distinct ?ls" "0 \<notin> set ?ls"
    "distinct ?ns" "0 \<notin> set ?ns" "set ?ls \<inter> set ?vs = {}" "set ?ls \<inter> set ?qs = {}" "set ?ns \<subseteq> set ?qs"
    "set ?ns \<inter> set ?vs = {}" "?w = 0 \<or> ?w \<in> set ?vs" "?wq = 0 \<or> ?wq \<in> set ?qs"
    using assms by (auto simp: conf_stored_def conf_ok_def conf_distinct_def joint_def Let_def)
  obtain t1 where t1: "apply_simples nxt (map (add_voter ?wq) ?qs) t0 = Inr t1" "tracker_inv t1"
    "conf t1 = plain ?qs ?wq []"
    using replay_voters [of t0 "[]" 0 ?qs nxt ?wq "[]"] assms(3) h by (auto simp: tracker_empty_def)
  let ?rem = "map (\<lambda>i. new_conf_change_single i RemoveNode) ?qs"
  let ?s0 = "joint_start t1" and ?s1 = "fold apply_single ?rem (joint_start t1)"
  let ?s2 = "fold apply_single (map (add_voter ?w) ?vs) ?s1"
  let ?s3 = "fold apply_single (map add_learner ?ls) ?s2"
  let ?s4 = "fold apply_single (map add_learner ?ns) ?s3"
  have core: "conf_core (ic_contains (snd (fold apply_single ccs ?s0))) (fst (fold apply_single ccs ?s0))" for ccs
    using t1(2,3) by (intro fold_apply_single_core start_core(1)) simp_all
  have s0: "fst ?s0 = \<lparr>voters = \<lparr>incoming = ?qs, outgoing = ?qs\<rparr>, learners = [], learners_next = [], auto_leave = False,
      witnesses = (?wq, ?wq)\<rparr>"
    using t1(3) h(4) by (simp add: joint_start_def plain_def)
  have tracked: "\<forall>i \<in> set ?qs. ic_contains (snd (fold apply_single ccs ?s0)) i" for ccs
    using core [of ccs] s0 by (auto simp: conf_core_def Let_def)
  have s1: "fst ?s1 = (fst ?s0)\<lparr>voters := \<lparr>incoming = [], outgoing = ?qs\<rparr>, witnesses := (0, ?wq)\<rparr>"
    using fold_removes [of ?s0 ?qs] tracked [of "[]"] s0 h by (auto simp: with_voters_def)
  have s2: "fst ?s2 = \<lparr>voters = \<lparr>incoming = ?vs, outgoing = ?qs\<rparr>, learners = [], learners_next = [], auto_leave = False,
      witnesses = (?w, ?wq)\<rparr>"
    using fold_add_voters [of ?s1 ?vs ?w] s0 s1 h by (auto simp: with_voters_def prod_eq_iff)
  have s3: "fst ?s3 = (fst ?s2)\<lparr>learners := ?ls\<rparr>"
    using fold_add_learners [of ?ls ?s2] tracked [of "?rem @ map (add_voter ?w) ?vs"] s2 h by (simp add: comp_def)
  have s4: "fst ?s4 = (fst ?s3)\<lparr>learners_next := ?ns\<rparr>"
    using fold_stage_learners [of ?ns ?s3] tracked [of "?rem @ map (add_voter ?w) ?vs @ map add_learner ?ls"] s2 s3 h
    by (auto simp: comp_def)
  have cfg: "(fst ?s4)\<lparr>auto_leave := auto_leave cfg\<rparr> = cfg" using s2 s3 s4 by (simp add: prod_eq_iff)
  let ?inc = "?rem @ map (add_voter ?w) ?vs @ map add_learner ?ls @ map add_learner ?ns"
  obtain c4 prs where p: "fold apply_single ?inc ?s0 = (c4, prs)" by fastforce
  then have c4: "c4\<lparr>auto_leave := auto_leave cfg\<rparr> = cfg" using cfg by simp
  have i4: "incoming (voters c4) \<noteq> []" using arg_cong [OF c4, of "\<lambda>c. incoming (voters c)"] h(3) by simp
  have "conf_core (ic_contains prs) (c4\<lparr>auto_leave := auto_leave cfg\<rparr>)" using core [of ?inc] p by simp
  then have "conf_core (ic_contains prs) cfg" unfolding c4 .
  then have ok: "conf_ok (ic_contains prs) cfg"
    by (rule core_conf_ok) (use h(15,16) assms(2) in \<open>auto simp: witness_in_def\<close>)
  have e: "enter_joint t1 (auto_leave cfg) ?inc = Inr (cfg, ic_changes prs)"
    unfolding enter_joint_Inr p using t1(2,3) h(6) i4 ok by (simp add: c4 tracker_inv_def)
  have "confchange_restore t0 nxt (to_conf_state cfg) =
      Inr (apply_conf t1 cfg (ic_changes prs) nxt)"
    using t1(1) e h(6) by (simp add: confchange_restore_def to_conf_change_single_def to_conf_state_def)
  then show ?thesis using conf_step_inv [OF conf_enter [OF e] t1(2)] by auto
qed

lemma restore_stored:
  assumes "conf_stored cfg" "tracker_empty t0"
  shows "\<exists>t. confchange_restore t0 nxt (to_conf_state cfg) = Inr t \<and> conf t = cfg \<and> tracker_inv t"
  using restore_plain [OF assms(1) _ assms(2)] restore_joint [OF assms(1) _ assms(2)] by (cases "joint cfg") blast+

text \<open>C18: restoring a stored configuration gives it back.  For every consistent configuration, joint or not, with
  learners, staged learners and witnesses, replaying its \<open>ConfState\<close> on an empty tracker succeeds and yields the same
  configuration, and a tracker that satisfies the invariant of membership changes.\<close>

theorem conf_restore_roundtrip:
  assumes "conf_stored cfg"
  shows "\<exists>t. confchange_restore (ProgressTracker_new n) nxt (to_conf_state cfg) = Inr t \<and> conf t = cfg \<and> tracker_inv t"
  by (rule restore_stored [OF assms new_tracker])

theorem conf_restore_roundtrip_witness:
  "let cfg = \<lparr>voters = \<lparr>incoming = [1, 2, 3], outgoing = [1, 2, 4, 6]\<rparr>, learners = [5], learners_next = [4],
       auto_leave = True, witnesses = (3, 6)\<rparr>
   in map_sum (\<lambda>e. e) conf (confchange_restore (ProgressTracker_new 8) 7 (to_conf_state cfg)) = Inr cfg"
  using conf_restore_roundtrip [of "\<lparr>voters = \<lparr>incoming = [1, 2, 3], outgoing = [1, 2, 4, 6]\<rparr>, learners = [5],
      learners_next = [4], auto_leave = True, witnesses = (3, 6)\<rparr>" 8 7]
  by (auto simp: conf_stored_def conf_ok_def conf_distinct_def joint_def Let_def)

end
