(* ===== verification/Raft_Restart.thy ===== *)
theory Raft_Restart
  imports Raft_Runs Conf_Restore
begin

section \<open>Restarting a node\<close>

text \<open>
  \<^verbatim>\<open>Raft::new\<close> rebuilds a node from its storage.  What the node had promised before it stopped and had persisted (its term,
  its vote, its commit index and the configuration) is there again, so that no promise is broken across a restart.
\<close>

lemma follower_post_conf_change:
  "post_conf_change E r = Some (r', cs) \<Longrightarrow> r_state r = Follower \<Longrightarrow>
    cs = to_conf_state (conf (r_prs r)) \<and> (\<exists>b. r' = r\<lparr>r_promotable := b\<rparr>)"
  by (auto simp: post_conf_change_def Let_def split: if_split_asm)

lemma follower_commit_apply_internal:
  "commit_apply_internal E r i b = Some r' \<Longrightarrow> r_state r = Follower \<Longrightarrow>
    r_id r' = r_id r \<and> r_state r' = Follower \<and> r_msgs r' = r_msgs r \<and> r_term r' = r_term r \<and> r_vote r' = r_vote r \<and>
    r_prs r' = r_prs r \<and> committed (r_log r') = committed (r_log r)"
  by (auto simp: commit_apply_internal_def Let_def log_applied_to_def log_applied_to_unchecked_def elim!: bind_SomeE
      split: if_split_asm)

lemma become_follower_conf: "become_follower E r t l = Some r' \<Longrightarrow> conf (r_prs r') = conf (r_prs r)"
  by (auto simp: become_follower_def elim!: bind_SomeE dest!: raft_reset_rest)

lemma Raft_new_stages:
  assumes "Raft_new E c st = Some (Inr r)" "st_initial_state E st = Inr rs"
  obtains (stages) nxt prs r1 r2 r3 r4 cs where
      "post_conf_change E r1 = Some (r2, cs)"
      "confchange_restore (ProgressTracker_new (cfg_max_inflight_msgs c)) nxt (rs_conf_state rs) = Inr prs"
      "(if rs_hard_state rs \<noteq> HardState_default then load_state E r2 (rs_hard_state rs) else Some r2) = Some r3"
      "(if 0 < cfg_applied c then commit_apply_internal E r3 (cfg_applied c) True else Some r3) = Some r4"
      "become_follower E r4 (r_term r4) INVALID_ID = Some r"
      "r_id r1 = cfg_id c" "r_state r1 = Follower" "r_msgs r1 = []" "r_term r1 = 0" "r_vote r1 = 0" "r_prs r1 = prs"
      "r_witness_msgs r1 = []" "r_pre_vote r1 = cfg_pre_vote c"
  using assms unfolding Raft_new_def Let_def
  by (simp only: assms sum.case split: sum.split_asm)
     (auto elim!: bind_SomeE split: sum.split_asm prod.split_asm simp del: if_split_asm)

lemma Raft_new_state:
  assumes "Raft_new E c st = Some (Inr r)" "st_initial_state E st = Inr rs"
  shows "r_id r = cfg_id c \<and> r_state r = Follower \<and> r_msgs r = [] \<and>
    r_term r = hs_term (rs_hard_state rs) \<and> r_vote r = hs_vote (rs_hard_state rs) \<and>
    (rs_hard_state rs \<noteq> HardState_default \<longrightarrow> hard_state r = rs_hard_state rs) \<and>
    (\<exists>nxt t. confchange_restore (ProgressTracker_new (cfg_max_inflight_msgs c)) nxt (rs_conf_state rs) = Inr t \<and>
      conf (r_prs r) = conf t)"
proof -
  obtain nxt prs r1 r2 r3 r4 cs where r1: "r_id r1 = cfg_id c" "r_state r1 = Follower" "r_msgs r1 = []" "r_term r1 = 0"
      "r_vote r1 = 0" "r_prs r1 = prs"
    and prs: "confchange_restore (ProgressTracker_new (cfg_max_inflight_msgs c)) nxt (rs_conf_state rs) = Inr prs"
    and r2: "post_conf_change E r1 = Some (r2, cs)"
    and r3: "(if rs_hard_state rs \<noteq> HardState_default then load_state E r2 (rs_hard_state rs) else Some r2) = Some r3"
    and r4: "(if 0 < cfg_applied c then commit_apply_internal E r3 (cfg_applied c) True else Some r3) = Some r4"
    and r: "become_follower E r4 (r_term r4) INVALID_ID = Some r"
    by (rule Raft_new_stages [OF assms]) blast
  from follower_post_conf_change [OF r2 r1(2)] obtain b where "r2 = r1\<lparr>r_promotable := b\<rparr>" by blast
  with r1 have r2': "r_id r2 = cfg_id c" "r_state r2 = Follower" "r_msgs r2 = []" "r_term r2 = 0" "r_vote r2 = 0"
    "r_prs r2 = prs" by simp_all
  have r3': "r_id r3 = cfg_id c" "r_state r3 = Follower" "r_msgs r3 = []" "r_term r3 = hs_term (rs_hard_state rs)"
    "r_vote r3 = hs_vote (rs_hard_state rs)" "r_prs r3 = prs"
    "rs_hard_state rs \<noteq> HardState_default \<longrightarrow> committed (r_log r3) = hs_commit (rs_hard_state rs)"
    using r2' r3 by (auto simp: load_state_def HardState_default_def elim!: bind_SomeE split: if_split_asm)
  have r4': "r_id r4 = r_id r3 \<and> r_msgs r4 = r_msgs r3 \<and> r_term r4 = r_term r3 \<and> r_vote r4 = r_vote r3 \<and>
    r_prs r4 = r_prs r3 \<and> committed (r_log r4) = committed (r_log r3)"
    using follower_commit_apply_internal [OF _ r3'(2)] r4 by (auto split: if_split_asm)
  with r3' become_follower_rest [OF r] become_follower_core [OF r] become_follower_conf [OF r] prs show ?thesis
    by (auto simp: hard_state_def)
qed

text \<open>What a restart reads is what the node had persisted.\<close>

definition persisted :: "('s, 'm) Env_scheme \<Rightarrow> 's \<Rightarrow> 's Raft \<Rightarrow> bool" where
  "persisted E st r \<longleftrightarrow> (case st_initial_state E st of
     Inl e \<Rightarrow> False
   | Inr rs \<Rightarrow> hs_term (rs_hard_state rs) = r_term r \<and> hs_vote (rs_hard_state rs) = r_vote r)"

lemma restart_promises:
  assumes "Raft_new E c st = Some (Inr r')" "persisted E st r"
  shows "r_id r' = cfg_id c \<and> r_state r' = Follower \<and> r_msgs r' = [] \<and> r_term r' = r_term r \<and> r_vote r' = r_vote r"
  using Raft_new_state [OF assms(1)] assms(2) by (auto simp: persisted_def split: sum.split_asm)

text \<open>The life of a node is a sequence of runs, each but the first started by \<^verbatim>\<open>Raft::new\<close> on a storage, possibly
  another one, that holds the term and the vote the node had last.\<close>

inductive node_life :: "'s Raft \<Rightarrow> 's Raft \<Rightarrow> bool" where
  life_refl: "node_life r r"
| life_step: "node_life r s \<Longrightarrow> node_step E s t \<Longrightarrow> node_life r t"
| life_restart: "node_life r s \<Longrightarrow> Raft_new (E :: 's Env) c st = Some (Inr t) \<Longrightarrow> cfg_id c = r_id s \<Longrightarrow> persisted E st s \<Longrightarrow>
    node_life r t"

definition keeps_promises :: "'s Raft \<Rightarrow> 's Raft \<Rightarrow> bool" where
  "keeps_promises r r' \<longleftrightarrow> r_id r' = r_id r \<and> r_term r \<le> r_term r' \<and>
     (r_term r' = r_term r \<longrightarrow> r_vote r \<noteq> 0 \<longrightarrow> r_vote r' = r_vote r)"

lemma keeps_promises_trans: "keeps_promises r s \<Longrightarrow> keeps_promises s t \<Longrightarrow> keeps_promises r t"
  by (auto simp: keeps_promises_def)

lemma raft_mono_promises: "raft_mono r r' \<Longrightarrow> keeps_promises r r'"
  by (simp add: raft_mono_def keeps_promises_def)

lemma node_life_promises: "node_life r r' \<Longrightarrow> keeps_promises r r'"
proof (induction rule: node_life.induct)
  case (life_refl r)
  show ?case by (simp add: keeps_promises_def)
next
  case (life_step r s E t)
  then show ?case by (blast intro: keeps_promises_trans raft_mono_promises node_step_mono)
next
  case (life_restart r s E c st t)
  from restart_promises [OF life_restart.hyps(2,4)] life_restart.hyps(3) have "keeps_promises s t"
    by (simp add: keeps_promises_def)
  with life_restart.IH show ?case by (rule keeps_promises_trans)
qed

text \<open>C2: a node that has granted its vote in a term grants it to no other candidate in that term, also when it is
  stopped and restarted from its storage any number of times in between, provided the storage holds its term and vote.\<close>

theorem vote_survives_restart:
  assumes "step E r0 m = Some (r1, x)" "msg_type m = MsgRequestVote" "granted r0 m r1"
    and "node_life r1 r2"
    and "step F r2 n = Some (r3, y)" "msg_type n = MsgRequestVote" "granted r2 n r3"
    and "has_term n" "m_term n = m_term m" "m_from m \<noteq> 0"
  shows "m_from n = m_from m"
proof -
  have m: "r_vote r1 = m_from m" "r_term r1 = m_term m" using step_granted [OF assms(1-3)] by auto
  have n: "r_vote r3 = m_from n" "r_term r3 = m_term n" using step_granted [OF assms(5-7)] by auto
  have "keeps_promises r1 r3"
    by (rule keeps_promises_trans [OF node_life_promises [OF assms(4)] raft_mono_promises [OF step_mono [OF assms(5,8)]]])
  with m n assms(9,10) show ?thesis by (simp add: keeps_promises_def)
qed

definition ex_disk :: "HardState \<Rightarrow> MemStorageCore" where
  "ex_disk hs = mem_set_hardstate (mem_set_conf_state ex_store (to_conf_state (conf (ex_voters [1, 2, 3] 3 0)))) hs"

text \<open>Node 1 grants its vote to 2 in term 2, is restarted from the storage, and is asked by 2 again.\<close>

theorem vote_survives_restart_witness:
  defines "m \<equiv> ex_vote 2 2 2" and "r0 \<equiv> ex_raft 1 Follower ex_tracker"
  defines "r1 \<equiv> state_after (step ex_env r0 m)"
  defines "st \<equiv> ex_disk (hard_state r1)"
  defines "r2 \<equiv> projr (the (Raft_new ex_env (Config_new 1) st))"
  defines "r3 \<equiv> state_after (step ex_env r2 m)"
  shows "r2 \<noteq> r1 \<and> granted r0 m r1 \<and> granted r2 m r3 \<and> m_from m = r_vote r1"
proof -
  have h: "step ex_env r0 m \<noteq> None" "msg_type m = MsgRequestVote" "granted r0 m r1" "has_term m" "m_from m \<noteq> 0"
    "r_vote r1 = 2" "m_from m = 2" "r_id r1 = 1"
    unfolding r1_def r0_def m_def by code_simp+
  have n: "isl (the (Raft_new ex_env (Config_new 1) st)) = False" "Raft_new ex_env (Config_new 1) st \<noteq> None"
    "persisted ex_env st r1" "cfg_id (Config_new 1) = 1" "r_msgs r2 = []" "r_msgs r1 \<noteq> []"
    unfolding r2_def st_def r1_def r0_def m_def by code_simp+
  have new: "Raft_new ex_env (Config_new 1) st = Some (Inr r2)"
    using n(1,2) unfolding r2_def by (cases "the (Raft_new ex_env (Config_new 1) st)") auto
  have g: "step ex_env r2 m \<noteq> None" "granted r2 m r3"
    unfolding r3_def r2_def st_def r1_def r0_def m_def by code_simp+
  have "node_life r1 r2" by (rule life_restart [OF life_refl new _ n(3)]) (use n(4) h(8) in simp)
  from vote_survives_restart [OF state_after_Some [OF h(1), folded r1_def] h(2,3) this
      state_after_Some [OF g(1), folded r3_def] h(2) g(2) h(4) refl h(5)]
  show ?thesis using h g n by auto
qed

text \<open>C10: restarting a node on a storage that holds its hard state and its configuration gives them back: the term, the
  vote and the commit index, and the same voters, learners, witnesses and joint configuration.  The node starts as a
  follower with nothing to send.\<close>

theorem restart_restores_state:
  assumes "Raft_new E c st = Some (Inr r)" "st_initial_state E st = Inr rs"
    and "rs_hard_state rs = hs" "hs \<noteq> HardState_default" "rs_conf_state rs = to_conf_state cfg" "conf_stored cfg"
  shows "r_id r = cfg_id c \<and> hard_state r = hs \<and> conf (r_prs r) = cfg \<and> r_state r = Follower \<and> r_msgs r = []"
proof -
  note new = Raft_new_state [OF assms(1,2)]
  then obtain nxt t where t: "confchange_restore (ProgressTracker_new (cfg_max_inflight_msgs c)) nxt (rs_conf_state rs) = Inr t"
    "conf (r_prs r) = conf t" by blast
  with restore_stored [OF assms(6) new_tracker, of "cfg_max_inflight_msgs c" nxt] assms(5) have "conf (r_prs r) = cfg" by auto
  with new assms(3,4) show ?thesis by blast
qed

theorem restart_restores_state_witness:
  defines "hs \<equiv> \<lparr>hs_term = 4, hs_vote = 2, hs_commit = 2\<rparr>" and "cfg \<equiv> conf (ex_voters [1, 2, 3] 3 0)"
  defines "r \<equiv> projr (the (Raft_new ex_env (Config_new 1) (ex_disk hs)))"
  shows "r_id r = 1 \<and> hard_state r = hs \<and> conf (r_prs r) = cfg \<and> r_msgs r = []"
proof -
  have n: "isl (the (Raft_new ex_env (Config_new 1) (ex_disk hs))) = False" "Raft_new ex_env (Config_new 1) (ex_disk hs) \<noteq> None"
    "hs \<noteq> HardState_default" "cfg_id (Config_new 1) = 1"
    unfolding hs_def by code_simp+
  have new: "Raft_new ex_env (Config_new 1) (ex_disk hs) = Some (Inr r)"
    using n(1,2) unfolding r_def by (cases "the (Raft_new ex_env (Config_new 1) (ex_disk hs))") auto
  have init: "st_initial_state ex_env (ex_disk hs) = Inr \<lparr>rs_hard_state = hs, rs_conf_state = to_conf_state cfg\<rparr>"
    unfolding cfg_def hs_def by code_simp
  have "conf_stored cfg" unfolding cfg_def
    by (simp add: ex_voters_def conf_stored_def conf_ok_def conf_distinct_def joint_def Let_def Configuration_new_def
        JointConfig_new_def hs_extend_def hs_insert_def)
  from restart_restores_state [OF new init _ n(3) _ this] n(4) show ?thesis by simp
qed

end
