(* ===== verification/Raft_Cluster.thy ===== *)
theory Raft_Cluster
  imports Raft_Elections Raft_Restart Witness
begin

section \<open>A cluster of nodes and witnesses: election safety\<close>

text \<open>
  Any number of nodes that run the code of \<^verbatim>\<open>src/raft.rs\<close> and of witnesses that run \<^verbatim>\<open>src/witness.rs\<close>, connected by
  a network that may lose, delay, reorder and duplicate messages.  The theorem at the end is Raft's election safety:
  whatever the schedule, no two nodes are ever elected in the same term.
\<close>

subsection \<open>One step of a node\<close>

lemma default_message [simp]: "m_term Message_default = 0" "m_from Message_default = 0"
  by (simp_all add: Message_default_def)

text \<open>The vote of a node, once given, is a ballot.\<close>

definition cast :: "(nat \<times> nat \<times> nat) set \<Rightarrow> nat \<Rightarrow> nat \<Rightarrow> nat \<Rightarrow> (nat \<times> nat \<times> nat) set" where
  "cast B v t x = (if x = 0 then B else insert (v, t, x) B)"

definition node_fine :: "JointConfig \<Rightarrow> (nat \<times> nat \<times> nat) set \<Rightarrow> 's Raft \<Rightarrow> bool" where
  "node_fine V B r \<longleftrightarrow> ballot_ok V B r \<and> list_fine B (r_msgs r)"

lemma ballot_ok_mono: "ballot_ok V B r \<Longrightarrow> B \<subseteq> C \<Longrightarrow> ballot_ok V C r"
  by (auto simp: ballot_ok_def elim!: jq.quorum_mono)

lemma node_fine_mono: "node_fine V B r \<Longrightarrow> B \<subseteq> C \<Longrightarrow> node_fine V C r"
  by (auto simp: node_fine_def intro: ballot_ok_mono list_fine_mono)

lemma subset_cast: "B \<subseteq> cast B v t x"
  by (auto simp: cast_def)

abbreviation cast_by :: "(nat \<times> nat \<times> nat) set \<Rightarrow> 's Raft \<Rightarrow> (nat \<times> nat \<times> nat) set" where
  "cast_by B r \<equiv> cast B (r_id r) (r_term r) (r_vote r)"

lemma elects_fine: "elects V B r r' \<Longrightarrow> node_fine V B r \<Longrightarrow> r_id r' = r_id r \<and> node_fine V (cast_by B r') r'"
  using node_fine_mono [of V B r', OF _ subset_cast] by (auto simp: elects_def node_fine_def)

lemma step_term_rest:
  assumes "step_term E r m = Some s"
  shows "case s of Inl r' \<Rightarrow> calm False B r r'
    | Inr r' \<Rightarrow> calm False B r r' \<and> r_msgs r' = r_msgs r \<and> conf (r_prs r') = conf (r_prs r) \<and>
        (m_term m \<noteq> 0 \<longrightarrow> msg_type m \<notin> {MsgRequestPreVote, MsgRequestPreVoteResponse} \<longrightarrow> r_term r' = m_term m)"
proof -
  have follow: "conf (r_prs r') = conf (r_prs r) \<and> r_msgs r' = r_msgs r \<and> r_term r' = t \<and> calm False B r r'"
    if "become_follower E r t l = Some r'" "r_term r < t" for t l r'
    using that(2) become_follower_conf [OF that(1)] become_follower_rest [OF that(1)] become_follower_calm [OF that(1), of False B]
    by auto
  show ?thesis
    using assms
    by (auto simp: step_term_def Let_def new_message_def elim!: bind_SomeE split: if_split_asm
        dest: follow raft_send_calm [where B = B and p = False])
qed

text \<open>Answering a vote request is the only place that grants a vote, and it casts the ballot.\<close>

lemma raft_send_msgs:
  assumes "raft_send r m = Some r'" "0 < r_id r"
  shows "\<exists>m'. r_msgs r' = r_msgs r @ [m'] \<and> 0 < m_from m' \<and> msg_type m' = msg_type m \<and> m_reject m' = m_reject m \<and>
    (msg_type m \<notin> {MsgAppend, MsgHeartbeat, MsgSnapshot} \<longrightarrow> has_term m') \<and> m_to m' = m_to m \<and> (m_from m = 0 \<longrightarrow> m_from m' = r_id r) \<and>
    (is_vote_msg (msg_type m) \<longrightarrow> m_term m' = m_term m \<and> m_term m \<noteq> 0)"
  using assms by (auto simp: raft_send_def core_send_def has_term_def Let_def INVALID_ID_def elim!: bind_SomeE split: if_split_asm)

lemma step_vote_fine:
  assumes "step_vote E r m = Some r'" "0 < r_id r" "node_fine V B r"
    and "msg_type m = MsgRequestVote \<Longrightarrow> m_term m \<noteq> 0 \<Longrightarrow> r_term r = m_term m" "0 < m_from m"
  shows "r_id r' = r_id r \<and> node_fine V (cast_by B r') r'"
proof -
  let ?resp = "(new_message (m_from m) MsgRequestVoteResponse None)\<lparr>m_reject := False, m_term := m_term m\<rparr>"
  consider (calm) "calm False B r r'"
    | (grant) s where "msg_type m = MsgRequestVote" "raft_send r ?resp = Some s"
        "r' = s\<lparr>r_election_elapsed := 0, r_vote := m_from m\<rparr>"
  proof -
    let ?msg = "\<lambda>rt. (new_message (m_from m) rt None)\<lparr>m_reject := False, m_term := m_term m\<rparr>"
    obtain g rt where rt: "vote_resp_msg_type (msg_type m) = Some rt"
      and r': "(if g then do {
            s \<leftarrow> raft_send r (?msg rt);
            Some (if msg_type m = MsgRequestVote then s\<lparr>r_election_elapsed := 0, r_vote := m_from m\<rparr> else s) }
          else do {
            (commit, commit_term) \<leftarrow> commit_info E (r_log r);
            s \<leftarrow> raft_send r ((new_message (m_from m) rt None)\<lparr>m_reject := True, m_term := r_term r,
                   m_commit := commit, m_commit_term := commit_term\<rparr>);
            maybe_commit_by_vote E s m }) = Some r'"
      using assms(1) unfolding step_vote_def Let_def by (elim bind_SomeE)
    show ?thesis
    proof (cases g)
      case True
      then show ?thesis
        using r' rt that by (cases "msg_type m = MsgRequestVote")
          (auto simp: vote_resp_msg_type_def elim!: bind_SomeE split: MessageType.split_asm
           simp: new_message_def dest: raft_send_calm [where B = B and p = False])
    next
      case False
      then show ?thesis
        using r' rt by (auto elim!: bind_SomeE split: prod.split_asm MessageType.split_asm intro!: that(1)
            intro: calm_trans [OF talk_calm [OF raft_send_talk] maybe_commit_by_vote_calm]
            simp: quiet_def is_grant_def new_message_def vote_resp_msg_type_def)
    qed
  qed
  then show ?thesis
  proof cases
    case calm
    then show ?thesis
      using calm_elects [OF calm step_vote_mono [OF assms(1)] assms(2)] assms(3)
      by (intro elects_fine) (auto simp: node_fine_def)
  next
    case grant
    from raft_send_msgs [OF grant(2) assms(2)] obtain m' where m': "r_msgs r' = r_msgs r @ [m']"
      "m_from m' = r_id r" "m_to m' = m_from m" "m_term m' = m_term m" "m_term m \<noteq> 0" "has_term m'"
      using grant(3) by (auto simp: new_message_def is_vote_msg_def)
    have s: "core_of s = core_of r" "votes (r_prs s) = votes (r_prs r)"
      using raft_send_core [OF grant(2)] grant(2) by (auto simp: raft_send_def elim!: bind_SomeE)
    have "ballot_ok V B r'"
      by (rule ballot_ok_keep [OF step_vote_mono [OF assms(1)] assms(2)])
         (use assms(3) s grant(3) in \<open>auto simp: node_fine_def core_of_def\<close>)
    moreover have id: "r_id r' = r_id r" "r_term r' = r_term r" "r_vote r' = m_from m"
      using s grant(3) by (auto simp: core_of_def)
    moreover have "list_fine (cast_by B r') (r_msgs r')"
      using m' assms(2,3,5) assms(4) [OF grant(1) m'(5)] id list_fine_mono [of B "r_msgs r" "cast_by B r'", OF _ subset_cast]
      by (auto simp: node_fine_def fine_def cast_def)
    ultimately show ?thesis using ballot_ok_mono [OF _ subset_cast] by (simp add: node_fine_def)
  qed
qed

lemma step_fine:
  assumes "step E r m = Some (r', x)" "has_term m" "0 < r_id r" "voters (conf (r_prs r)) = V" "incoming V \<noteq> []"
    and "node_fine V B r"
    and "msg_type m \<in> {MsgRequestVote, MsgRequestPreVote} \<Longrightarrow> 0 < m_from m"
    and "is_grant m \<Longrightarrow> 0 < m_term m \<and> (m_from m, m_term m, r_id r) \<in> B"
  shows "r_id r' = r_id r \<and> node_fine V (cast_by B r') r'"
proof -
  obtain s where s: "step_term E r m = Some s" using assms(1) by (auto simp: step_def elim!: bind_SomeE)
  have ok: "ballot_ok V B r" using assms(6) by (simp add: node_fine_def)
  show ?thesis
  proof (cases s)
    case (Inl r1)
    then have "r' = r1" "calm False B r r1" "raft_mono r r1"
      using step_term_mono [OF s] step_term_rest [OF s, of B] assms(1) s by (auto simp: step_def)
    then show ?thesis using calm_elects [OF _ _ assms(3) ok] elects_fine assms(6) by blast
  next
    case (Inr r1)
    have r1: "raft_mono r r1" "m_term m \<noteq> 0 \<Longrightarrow> r_term r1 \<le> m_term m" "calm False B r r1" "r_msgs r1 = r_msgs r"
      "voters (conf (r_prs r1)) = V" "r_id r1 = r_id r"
      "m_term m \<noteq> 0 \<Longrightarrow> msg_type m \<notin> {MsgRequestPreVote, MsgRequestPreVoteResponse} \<Longrightarrow> r_term r1 = m_term m"
      using step_term_mono [OF s] step_term_rest [OF s, of B] Inr assms(4) by (auto simp: calm_def)
    have ok1: "ballot_ok V B r1" by (rule calm_ballot_ok [OF r1(3,1) assms(3) ok])
    have fine1: "node_fine V B r1" using ok1 assms(6) r1(4) by (simp add: node_fine_def)
    have id1: "0 < r_id r1" using assms(3) r1(6) by simp
    show ?thesis
    proof (cases "msg_type m \<in> {MsgRequestVote, MsgRequestPreVote}")
      case True
      then have "step_vote E r1 m = Some r'" using assms(1) s Inr by (auto simp: step_def elim!: bind_SomeE)
      from step_vote_fine [OF this id1 fine1] r1(6,7) assms(7) True show ?thesis by auto
    next
      case False
      have grant: "(m_from m, r_term r1, r_id r1) \<in> B" if "is_grant m"
        using that assms(8) r1(6,7) by (auto simp: is_grant_def)
      have trm: "r_term r1 \<le> m_term m" if "msg_type m \<in> {MsgAppend, MsgHeartbeat, MsgSnapshot}"
        using that assms(2) r1(2) by (auto simp: has_term_def)
      have "elects V B r1 r'"
      proof (cases "msg_type m = MsgHup")
        case True
        then have "hup E r1 False = Some r'" using assms(1) s Inr by (auto simp: step_def elim!: bind_SomeE)
        then show ?thesis by (rule hup_elects [OF _ id1 r1(5) assms(5) ok1])
      next
        case hup: False
        then consider "step_candidate E r1 m = Some (r', x)" "r_state r1 = Candidate \<or> r_state r1 = PreCandidate"
          | "step_follower E r1 m = Some (r', x)" | "step_leader E r1 m = Some (r', x)" "r_state r1 = Leader"
          using assms(1) s Inr False
          by (cases "msg_type m"; cases "r_state r1") (auto simp: step_def)
        then show ?thesis
        proof cases
          case 1
          then show ?thesis by (intro step_candidate_elects [OF _ id1 r1(5) assms(5) ok1]) (auto intro: grant trm)
        next
          case 2
          then show ?thesis by (rule step_follower_elects [OF _ id1 r1(5) assms(5) ok1])
        next
          case 3
          then have "calm False B r1 r'"
            using calm_raise [OF step_leader_calm] ok1 by (auto simp: ballot_ok_def)
          then show ?thesis using 3 step_leader_mono calm_elects [OF _ _ id1 ok1] by blast
        qed
      qed
      from elects_fine [OF this fine1] r1(6) show ?thesis by auto
    qed
  qed
qed

lemma leader_step_calm:
  assumes "step E r m = Some (r', x)" "m_term m = 0" "r_state r = Leader"
    and "msg_type m \<notin> {MsgHup, MsgRequestVote, MsgRequestPreVote}"
  shows "calm True B r r'"
proof -
  have "step_leader E r m = Some (r', x)"
    using assms by (cases "msg_type m") (auto simp: step_def step_term_def)
  then show ?thesis by (rule step_leader_calm)
qed

lemma tick_heartbeat_calm:
  assumes "tick_heartbeat E r = Some (r', b)" "r_state r = Leader"
  shows "calm True B r r'"
proof -
  have own: "calm True B s s'" if "step E s (new_message INVALID_ID t f) = Some (s', x)" "r_state s = Leader"
    "t = MsgCheckQuorum \<or> t = MsgBeat" for s s' :: "'a Raft" and t f x
    using that by (intro leader_step_calm) (auto simp: new_message_def)
  show ?thesis
    using assms
    by (auto simp: tick_heartbeat_def abort_leader_transfer_def Let_def elim!: bind_SomeE
        split: if_split_asm prod.split_asm dest!: own)
       (auto simp: calm_def)
qed

lemma tick_elects:
  assumes "tick E r = Some (r', b)" "0 < r_id r" "voters (conf (r_prs r)) = V" "incoming V \<noteq> []" "ballot_ok V B r"
  shows "elects V B r r'"
proof (cases "r_state r = Leader")
  case True
  then have "calm False B r r'"
    using assms(1,5) by (intro calm_raise [OF tick_heartbeat_calm]) (auto simp: tick_def ballot_ok_def)
  then show ?thesis by (rule calm_elects [OF _ tick_mono [OF assms(1)] assms(2,5)])
next
  case False
  let ?r = "r\<lparr>r_election_elapsed := 0\<rparr>"
  have "r' = r\<lparr>r_election_elapsed := r_election_elapsed r + 1\<rparr> \<or> hup E ?r False = Some r'"
    using assms(1) False
    by (auto simp: tick_def tick_election_def step_def step_term_def new_message_def Let_def elim!: bind_SomeE
        split: if_split_asm)
  moreover have "ballot_ok V B ?r" using assms(5) by (simp add: ballot_ok_def)
  ultimately show ?thesis
    using hup_elects [of E ?r False r' V B] assms(2-5) by (auto simp: elects_def ballot_ok_def)
qed

lemma node_op_elects:
  assumes "node_op E r r'" "0 < r_id r" "voters (conf (r_prs r)) = V" "incoming V \<noteq> []" "ballot_ok V B r"
  shows "elects V B r r'"
proof -
  have lead: "0 < r_term r" if "r_state r = Leader" using assms(5) that by (simp add: ballot_ok_def)
  have "calm False B r r' \<or> (\<exists>b. tick E r = Some (r', b))"
    using assms(1)
  proof cases
    case do_stable_entries
    then show ?thesis by (auto simp: calm_def)
  next
    case do_stable_snap
    then show ?thesis by (auto simp: calm_def)
  next
    case do_storage
    then show ?thesis by (auto simp: calm_def)
  next
    case do_take_msgs
    then show ?thesis by (auto simp: calm_def)
  next
    case do_take_witness_msgs
    then show ?thesis by (auto simp: calm_def)
  next
    case do_take_read_states
    then show ?thesis by (auto simp: calm_def)
  next
    case do_set
    then show ?thesis by (blast intro: settings_calm)
  next
    case do_fetched
    then show ?thesis using lead by (blast intro: calm_raise loud_calms)
  qed (auto intro: lead set_randomized_election_timeout_calm adjust_max_inflight_msgs_calm enable_group_commit_calm
      assign_commit_groups_calm ping_calm commit_apply_calm on_persist_entries_calm on_persist_snap_calm apply_conf_change_calm
      confirm_witness_append_calm reject_witness_append_calm request_snapshot_calm)
  then show ?thesis
    using tick_elects [OF _ assms(2-5)] calm_elects [OF _ node_op_mono [OF assms(1)] assms(2,5)] by blast
qed

subsection \<open>The ballot book\<close>

text \<open>
  The abstract contract of all voters, nodes and witnesses alike: a voter's state is a term and a vote, terms grow,
  and a vote stays for its term.  Then the ballots cast so far name one candidate per voter and term.
\<close>

definition book :: "(nat \<times> nat \<times> nat) set \<Rightarrow> (nat \<Rightarrow> nat \<times> nat) \<Rightarrow> bool" where
  "book B st \<longleftrightarrow>
     (\<forall>v t x. (v, t, x) \<in> B \<longrightarrow> 0 < x \<and> (t < fst (st v) \<or> (t, x) = st v)) \<and>
     (\<forall>v t x y. (v, t, x) \<in> B \<longrightarrow> (v, t, y) \<in> B \<longrightarrow> x = y)"

lemma book_cast:
  assumes "book B st" "fst (st v) \<le> t" "fst (st v) = t \<Longrightarrow> 0 < snd (st v) \<Longrightarrow> x = snd (st v)"
  shows "book (cast B v t x) (st(v := (t, x)))"
proof -
  have old: "0 < y" "s < fst (st u) \<or> (s, y) = st u" if "(u, s, y) \<in> B" for u s y
    using assms(1) that unfolding book_def by blast+
  have one: "y = x" if "(v, t, y) \<in> B" "0 < x" for y
    using old [OF that(1)] assms(2,3) by (cases "st v") auto
  have now: "s < t \<or> (s, y) = (t, x)" if "(v, s, y) \<in> B" for s y
    using old [OF that] assms(2,3) by (cases "st v") auto
  have same: "y = z" if "(u, s, y) \<in> B" "(u, s, z) \<in> B" for u s y z
    using assms(1) that unfolding book_def by blast
  show ?thesis
    unfolding book_def cast_def by (auto dest: old one now same one [symmetric])
qed

lemma book_meet:
  assumes "book B st" "joint_quorum V {v. (v, t, i) \<in> B}" "joint_quorum V {v. (v, t, j) \<in> B}"
  shows "i = j"
  using jq.quorum_meet [OF assms(2,3)] assms(1) unfolding book_def by blast

subsection \<open>The cluster\<close>

text \<open>
  \<open>ballots\<close> and \<open>elected\<close> are history: who voted for whom in which term, and who was leader in which term at any time
  so far.
\<close>

record 's Cluster =
  nodes :: "nat \<Rightarrow> 's Raft"
  wits :: "nat \<Rightarrow> Witness"
  wire :: "Message set"
  ballots :: "(nat \<times> nat \<times> nat) set"
  elected :: "(nat \<times> nat) set"

definition put_node :: "nat \<Rightarrow> 's Raft \<Rightarrow> 's Cluster \<Rightarrow> 's Cluster" where
  "put_node i r c = c\<lparr>nodes := (nodes c)(i := r), ballots := cast (ballots c) i (r_term r) (r_vote r),
     elected := (if r_state r = Leader then insert (r_term r, i) (elected c) else elected c)\<rparr>"

definition put_witness :: "nat \<Rightarrow> Witness \<Rightarrow> 's Cluster \<Rightarrow> 's Cluster" where
  "put_witness i w c = c\<lparr>wits := (wits c)(i := w), ballots := cast (ballots c) i (w_term w) (w_vote w)\<rparr>"

text \<open>
  \<open>W\<close> are the ids of the witnesses, every other positive id is a node.  A message once sent stays on the wire, so it
  may be delivered late, twice or never; a local message (a tick's, a proposal, a report of the application) has no
  term and no vote.  A witness may be asked by anyone; its host answers with a grant exactly for a request that the
  witness granted, at the witness's term.  A node may stop at any time and be restarted by \<^verbatim>\<open>Raft::new\<close> from a storage
  that holds its term and vote; what it had not sent is lost.  The voters \<open>V\<close>, which may be a joint configuration, do
  not change.
\<close>

inductive cluster_step :: "JointConfig \<Rightarrow> nat set \<Rightarrow> 's Cluster \<Rightarrow> 's Cluster \<Rightarrow> bool" for V W where
  deliver: "0 < i \<Longrightarrow> i \<notin> W \<Longrightarrow> m \<in> wire c \<Longrightarrow> m_to m = i \<Longrightarrow>
    step (E :: 's Env) (nodes c i) m = Some (r', x) \<Longrightarrow> voters (conf (r_prs r')) = V \<Longrightarrow> cluster_step V W c (put_node i r' c)"
| own: "0 < i \<Longrightarrow> i \<notin> W \<Longrightarrow> m_term m = 0 \<Longrightarrow> has_term m \<Longrightarrow>
    msg_type m \<notin> {MsgRequestVote, MsgRequestPreVote, MsgRequestVoteResponse} \<Longrightarrow>
    step (E :: 's Env) (nodes c i) m = Some (r', x) \<Longrightarrow> voters (conf (r_prs r')) = V \<Longrightarrow> cluster_step V W c (put_node i r' c)"
| operate: "0 < i \<Longrightarrow> i \<notin> W \<Longrightarrow> node_op (E :: 's Env) (nodes c i) r' \<Longrightarrow> voters (conf (r_prs r')) = V \<Longrightarrow>
    cluster_step V W c (put_node i r' c)"
| restart: "0 < i \<Longrightarrow> i \<notin> W \<Longrightarrow> Raft_new (E :: 's Env) cfg st = Some (Inr r') \<Longrightarrow> cfg_id cfg = i \<Longrightarrow>
    persisted E st (nodes c i) \<Longrightarrow> voters (conf (r_prs r')) = V \<Longrightarrow> cluster_step V W c (put_node i r' c)"
| send: "0 < i \<Longrightarrow> i \<notin> W \<Longrightarrow> cluster_step V W c (c\<lparr>wire := wire c \<union> set (r_msgs (nodes c i))\<rparr>)"
| witness: "0 < i \<Longrightarrow> i \<in> W \<Longrightarrow> witness_process (wits c i) q = (w', resp) \<Longrightarrow>
    m_from m = i \<Longrightarrow> m_to m = wm_from q \<Longrightarrow>
    has_term m \<Longrightarrow> (is_grant m \<longrightarrow> wm_msg_type q = MsgRequestVote \<and> resp = Some (VoteGrant True) \<and> m_term m = w_term w' \<and>
      0 < wm_from q \<and> 0 < wm_term q) \<Longrightarrow>
    cluster_step V W c ((put_witness i w' c)\<lparr>wire := insert m (wire c)\<rparr>)"

definition cluster_init :: "JointConfig \<Rightarrow> nat set \<Rightarrow> 's Cluster \<Rightarrow> bool" where
  "cluster_init V W c \<longleftrightarrow>
     (\<forall>i. 0 < i \<longrightarrow> i \<notin> W \<longrightarrow> r_id (nodes c i) = i \<and> voters (conf (r_prs (nodes c i))) = V \<and>
        r_state (nodes c i) = Follower \<and> r_msgs (nodes c i) = []) \<and>
     wire c = {} \<and> ballots c = {} \<and> elected c = {}"

definition voter_state :: "nat set \<Rightarrow> 's Cluster \<Rightarrow> nat \<Rightarrow> nat \<times> nat" where
  "voter_state W c v = (if v \<in> W then (w_term (wits c v), w_vote (wits c v)) else (r_term (nodes c v), r_vote (nodes c v)))"

lemma voter_state_wire: "voter_state W (c\<lparr>wire := x\<rparr>) = voter_state W c"
  by (simp add: voter_state_def fun_eq_iff)

definition cluster_inv :: "JointConfig \<Rightarrow> nat set \<Rightarrow> 's Cluster \<Rightarrow> bool" where
  "cluster_inv V W c \<longleftrightarrow>
     (\<forall>i. 0 < i \<longrightarrow> i \<notin> W \<longrightarrow> r_id (nodes c i) = i \<and> voters (conf (r_prs (nodes c i))) = V \<and>
        node_fine V (ballots c) (nodes c i) \<and>
        (r_state (nodes c i) = Leader \<longrightarrow> (r_term (nodes c i), i) \<in> elected c)) \<and>
     (\<forall>m. m \<in> wire c \<longrightarrow> fine (ballots c) m) \<and>
     book (ballots c) (voter_state W c) \<and>
     (\<forall>t i. (t, i) \<in> elected c \<longrightarrow> joint_quorum V {v. (v, t, i) \<in> ballots c})"

lemma fine_mono: "fine B m \<Longrightarrow> B \<subseteq> C \<Longrightarrow> fine C m"
  by (auto simp: fine_def)

lemma cluster_init_inv: "cluster_init V W c \<Longrightarrow> cluster_inv V W c"
  by (auto simp: cluster_init_def cluster_inv_def node_fine_def ballot_ok_def book_def)

lemma cluster_inv_mono:
  assumes "cluster_inv V W c" "ballots c \<subseteq> B"
  shows "\<And>t j. (t, j) \<in> elected c \<Longrightarrow> joint_quorum V {v. (v, t, j) \<in> B}" "\<And>m. m \<in> wire c \<Longrightarrow> fine B m"
    "\<And>j. 0 < j \<Longrightarrow> j \<notin> W \<Longrightarrow> node_fine V B (nodes c j)"
proof -
  show "joint_quorum V {v. (v, t, j) \<in> B}" if "(t, j) \<in> elected c" for t j
  proof (rule jq.quorum_mono)
    show "joint_quorum V {v. (v, t, j) \<in> ballots c}" using assms(1) that by (simp add: cluster_inv_def)
  qed (use assms(2) in blast)
qed (use assms in \<open>auto simp: cluster_inv_def intro: fine_mono node_fine_mono\<close>)

text \<open>A node that takes a step that is fine for elections keeps the invariant of the cluster.\<close>

lemma put_node_inv:
  assumes "cluster_inv V W c" "0 < i" "i \<notin> W" "keeps_promises (nodes c i) r'" "voters (conf (r_prs r')) = V"
    and "r_id r' = i" "node_fine V (cast_by (ballots c) r') r'"
  shows "cluster_inv V W (put_node i r' c)"
proof -
  let ?B = "cast_by (ballots c) r'"
  have "book ?B ((voter_state W c)(i := (r_term r', r_vote r')))"
    using book_cast [of "ballots c" "voter_state W c" i "r_term r'" "r_vote r'"] assms(1,3,4,6)
    by (auto simp: cluster_inv_def voter_state_def keeps_promises_def)
  moreover have "(voter_state W c)(i := (r_term r', r_vote r')) = voter_state W (put_node i r' c)"
    using assms(3) by (auto simp: voter_state_def put_node_def)
  moreover have "joint_quorum V {v. (v, r_term r', i) \<in> ?B}" if "r_state r' = Leader"
  proof -
    have "joint_quorum V {v. (v, r_term r', i) \<in> ?B \<or> v = i \<and> r_vote r' = i}"
      using assms(6,7) that by (auto simp: node_fine_def ballot_ok_def)
    then show ?thesis by (rule jq.quorum_mono) (use assms(2,6) in \<open>auto simp: cast_def\<close>)
  qed
  ultimately show ?thesis using assms cluster_inv_mono [OF assms(1) subset_cast] by (auto simp: cluster_inv_def put_node_def)
qed

lemma put_witness_inv:
  assumes "cluster_inv V W c" "0 < i" "i \<in> W" "witness_process (wits c i) q = (w', resp)"
    and "fine (cast (ballots c) i (w_term w') (w_vote w')) m"
  shows "cluster_inv V W ((put_witness i w' c)\<lparr>wire := insert m (wire c)\<rparr>)"
proof -
  let ?B = "cast (ballots c) i (w_term w') (w_vote w')"
  have "book ?B ((voter_state W c)(i := (w_term w', w_vote w')))"
    using book_cast [of "ballots c" "voter_state W c" i "w_term w'" "w_vote w'"] assms(1,3,4)
      witness_process_mono [of "wits c i" q]
    by (auto simp: cluster_inv_def voter_state_def)
  moreover have "(voter_state W c)(i := (w_term w', w_vote w')) =
      voter_state W ((put_witness i w' c)\<lparr>wire := insert m (wire c)\<rparr>)"
    using assms(3) by (auto simp: voter_state_def put_witness_def)
  ultimately show ?thesis using assms cluster_inv_mono [OF assms(1) subset_cast] by (auto simp: cluster_inv_def put_witness_def)
qed

lemma cluster_step_inv:
  assumes "cluster_step V W c c'" "cluster_inv V W c" "incoming V \<noteq> []"
  shows "cluster_inv V W c'"
  using assms(1)
proof cases
  case (deliver i m E r' x)
  have "fine (ballots c) m" using deliver(4) assms(2) by (simp add: cluster_inv_def)
  moreover from this have "has_term m" by (simp add: fine_def)
  ultimately have "r_id r' = r_id (nodes c i) \<and> node_fine V (cast_by (ballots c) r') r'" "keeps_promises (nodes c i) r'"
    using deliver assms(2,3) step_fine [OF deliver(6), of V "ballots c"] raft_mono_promises [OF step_mono [OF deliver(6)]]
    by (auto simp: cluster_inv_def fine_def)
  then show ?thesis
    using put_node_inv [OF assms(2) deliver(2,3) _ deliver(7)] deliver assms(2)
    by (auto simp: cluster_inv_def)
next
  case (own i m E r' x)
  then have "r_id r' = r_id (nodes c i) \<and> node_fine V (cast_by (ballots c) r') r'"
    using assms(2,3) by (intro step_fine [OF own(7,5)]) (auto simp: cluster_inv_def is_grant_def)
  then show ?thesis
    using put_node_inv [OF assms(2) own(2,3) raft_mono_promises [OF step_mono [OF own(7,5)]] own(8)] own assms(2) by (auto simp: cluster_inv_def)
next
  case (operate i E r')
  then have "r_id r' = r_id (nodes c i) \<and> node_fine V (cast_by (ballots c) r') r'"
    using assms(2,3) by (intro elects_fine node_op_elects [OF operate(4)]) (auto simp: cluster_inv_def node_fine_def)
  then show ?thesis
    using put_node_inv [OF assms(2) operate(2,3) raft_mono_promises [OF node_op_mono [OF operate(4)]] operate(5)] operate assms(2)
    by (auto simp: cluster_inv_def)
next
  case (restart i E cfg st r')
  note new = restart_promises [OF restart(4,6)]
  have "keeps_promises (nodes c i) r'" using new restart assms(2) by (simp add: cluster_inv_def keeps_promises_def)
  moreover have "node_fine V (cast_by (ballots c) r') r'" using new by (simp add: node_fine_def ballot_ok_def)
  ultimately show ?thesis using put_node_inv [OF assms(2) restart(2,3) _ restart(7)] new restart(1,5) by simp
next
  case (send i)
  then show ?thesis
    using assms(2) by (auto simp: cluster_inv_def node_fine_def list_fine_def list_all_iff voter_state_wire)
next
  case (witness i q w' resp m)
  have "fine (cast (ballots c) i (w_term w') (w_vote w')) m"
    using witness witness_grant_sets_vote [of q "wits c i" w'] by (auto simp: fine_def cast_def)
  then show ?thesis using put_witness_inv [OF assms(2) witness(2,3,4)] witness(1) by simp
qed

lemma cluster_run_inv:
  assumes "(cluster_step V W)\<^sup>*\<^sup>* c0 c" "cluster_init V W c0" "incoming V \<noteq> []"
  shows "cluster_inv V W c"
  using assms(1) by induction (use assms(2,3) in \<open>blast intro: cluster_init_inv cluster_step_inv\<close>)+

lemma one_elected: "cluster_inv V W c \<Longrightarrow> (t, i) \<in> elected c \<Longrightarrow> (t, j) \<in> elected c \<Longrightarrow> i = j"
  by (rule book_meet) (auto simp: cluster_inv_def)

subsection \<open>Election safety\<close>

text \<open>C1: election safety of the whole cluster.  Whatever the schedule of the nodes, the network and the witnesses, and
  whatever nodes are stopped and restarted from their storages, at most one node is ever leader in a term, in majority and in joint configurations; every present leader is among
  those that count.\<close>

theorem cluster_election_safety:
  assumes "cluster_init V W c0" "incoming V \<noteq> []" "(cluster_step V W)\<^sup>*\<^sup>* c0 c"
  shows "(\<forall>t i j. (t, i) \<in> elected c \<and> (t, j) \<in> elected c \<longrightarrow> i = j) \<and>
    (\<forall>i. 0 < i \<and> i \<notin> W \<and> r_state (nodes c i) = Leader \<longrightarrow> (r_term (nodes c i), i) \<in> elected c)"
proof -
  have inv: "cluster_inv V W c" by (rule cluster_run_inv [OF assms(3,1,2)])
  with one_elected [OF inv] show ?thesis by (auto simp: cluster_inv_def)
qed

text \<open>Node 1 campaigns in term 2 among two nodes and the witness 3, which grants its vote.\<close>

definition ex_cluster :: "MemStorageCore Cluster" where
  "ex_cluster = \<lparr>nodes = (\<lambda>i. (ex_raft 1 Follower (ex_voters [1, 2, 3] 3 0))\<lparr>r_id := i\<rparr>), wits = Witness_new, wire = {},
     ballots = {}, elected = {}\<rparr>"

theorem cluster_election_safety_witness:
  defines "r1 \<equiv> state_after (step ex_env (nodes ex_cluster 1) (new_message 0 MsgHup None))"
    and "q \<equiv> WitnessMessage_default\<lparr>wm_msg_type := MsgRequestVote, wm_from := 1, wm_to := 3, wm_term := 2,
      wm_last_log_term := 1\<rparr>"
  defines "w \<equiv> fst (witness_process (Witness_new 3) q)" and "r2 \<equiv> state_after (step ex_env r1 (ex_vote_resp 3 2))"
  defines "c \<equiv> put_node 1 r2 ((put_witness 3 w (put_node 1 r1 ex_cluster))\<lparr>wire := {ex_vote_resp 3 2}\<rparr>)"
  shows "r_state (nodes c 1) = Leader \<and> {j. (2, j) \<in> elected c} = {1}"
proof -
  let ?V = "\<lparr>incoming = [1, 2, 3], outgoing = []\<rparr>"
  let ?step = "cluster_step ?V {3}"
  have init: "cluster_init ?V {3} ex_cluster"
    by (simp add: cluster_init_def ex_cluster_def ex_raft_def ex_voters_def ProgressTracker_new_def Configuration_new_def
        JointConfig_new_def hs_extend_def hs_insert_def)
  have r1: "step ex_env (nodes ex_cluster 1) (new_message 0 MsgHup None) \<noteq> None" "voters (conf (r_prs r1)) = ?V"
    unfolding r1_def by code_simp+
  have r2: "step ex_env r1 (ex_vote_resp 3 2) \<noteq> None" "voters (conf (r_prs r2)) = ?V" "r_state r2 = Leader" "r_term r2 = 2"
    "r_state r1 = Candidate"
    unfolding r2_def r1_def by code_simp+
  have w: "witness_process (Witness_new 3) q = (w, Some (VoteGrant True))" "w_term w = 2"
    unfolding w_def q_def by code_simp+
  have 1: "?step ex_cluster (put_node 1 r1 ex_cluster)"
    by (rule own [OF _ _ _ _ _ state_after_Some [OF r1(1), folded r1_def] r1(2)]) (simp_all add: new_message_def has_term_def)
  have 2: "?step (put_node 1 r1 ex_cluster)
      ((put_witness 3 w (put_node 1 r1 ex_cluster))\<lparr>wire := insert (ex_vote_resp 3 2) (wire (put_node 1 r1 ex_cluster))\<rparr>)"
    by (rule witness [where q = q and resp = "Some (VoteGrant True)"]) (use w in \<open>simp_all add: q_def ex_vote_resp_def has_term_def put_node_def ex_cluster_def\<close>)
  have wire: "wire (put_node 1 r1 ex_cluster) = {}" by (simp add: put_node_def ex_cluster_def)
  have 3: "?step ((put_witness 3 w (put_node 1 r1 ex_cluster))\<lparr>wire := {ex_vote_resp 3 2}\<rparr>) c"
    unfolding c_def
    by (rule deliver [where m = "ex_vote_resp 3 2" and E = ex_env and x = "snd (the (step ex_env r1 (ex_vote_resp 3 2)))"])
       (use r2(2) state_after_Some [OF r2(1), folded r2_def] in
         \<open>simp_all add: put_witness_def put_node_def ex_vote_resp_def has_term_def\<close>)
  have "?step\<^sup>*\<^sup>* ex_cluster c"
    by (rule converse_rtranclp_into_rtranclp, rule 1, rule converse_rtranclp_into_rtranclp, rule 2 [unfolded wire],
        rule r_into_rtranclp, rule 3)
  from cluster_election_safety [OF init _ this] have "i = j" if "(t, i) \<in> elected c" "(t, j) \<in> elected c" for t i j
    using that by fastforce
  moreover have "(2, 1) \<in> elected c" "r_state (nodes c 1) = Leader" using r2(3,4) by (simp_all add: c_def put_node_def)
  ultimately show ?thesis by fastforce
qed

end
