(* ===== verification/Raft_Membership.thy ===== *)
theory Raft_Membership
  imports Raft_Runs Conf_Restore
begin

section \<open>What changes the membership, and what a node asks a witness\<close>

text \<open>
  The configuration of a node, its voters, learners and witnesses, is changed by two operations only:
  \<^verbatim>\<open>apply_conf_change\<close>, when the application applies a committed change, and \<^verbatim>\<open>restore\<close>, when the node accepts a snapshot.
  The theory follows every other operation of \<^verbatim>\<open>src/raft.rs\<close> and shows that it leaves the configuration alone.  On the way
  it follows the messages to witnesses: they carry the id of the node; a request for a vote carries a positive term; and
  a node without pre-vote never asks for a pre-vote.
\<close>

abbreviation members :: "'s Raft \<Rightarrow> Configuration" where
  "members r \<equiv> conf (r_prs r)"

type_synonym asking = "nat \<times> bool \<times> WitnessMessage list"

definition asked :: "'s Raft \<Rightarrow> asking" where
  "asked r = (r_id r, r_pre_vote r, r_witness_msgs r)"

definition frame_of :: "'s Raft \<Rightarrow> Configuration \<times> asking" where
  "frame_of r = (members r, asked r)"

definition proper :: "nat \<Rightarrow> bool \<Rightarrow> WitnessMessage \<Rightarrow> bool" where
  "proper i p m \<longleftrightarrow> wm_from m = i \<and> (wm_msg_type m = MsgRequestVote \<longrightarrow> 0 < wm_term m) \<and> (wm_msg_type m = MsgRequestPreVote \<longrightarrow> p)"

fun grows :: "asking \<Rightarrow> asking \<Rightarrow> bool" where
  "grows (i, p, ms) (j, q, ns) \<longleftrightarrow> j = i \<and> q = p \<and> (\<forall>m \<in> set ns. m \<in> set ms \<or> proper i p m)"

abbreviation asks :: "'s Raft \<Rightarrow> 's Raft \<Rightarrow> bool" where
  "asks r r' \<equiv> grows (asked r) (asked r')"

abbreviation steady :: "'s Raft \<Rightarrow> 's Raft \<Rightarrow> bool" where
  "steady r r' \<equiv> rel_prod (=) grows (frame_of r) (frame_of r')"

lemma asked_upd [simp]:
  "asked (r\<lparr>r_msgs := v0\<rparr>) = asked r" "asked (r\<lparr>r_term := v1\<rparr>) = asked r"
  "asked (r\<lparr>r_vote := v2\<rparr>) = asked r" "asked (r\<lparr>r_read_states := v3\<rparr>) = asked r"
  "asked (r\<lparr>r_log := v4\<rparr>) = asked r" "asked (r\<lparr>r_pending_request_snapshot := v5\<rparr>) = asked r"
  "asked (r\<lparr>r_state := v6\<rparr>) = asked r" "asked (r\<lparr>r_promotable := v7\<rparr>) = asked r"
  "asked (r\<lparr>r_leader_id := v8\<rparr>) = asked r" "asked (r\<lparr>r_lead_transferee := v9\<rparr>) = asked r"
  "asked (r\<lparr>r_pending_conf_index := v10\<rparr>) = asked r" "asked (r\<lparr>r_read_only := v11\<rparr>) = asked r"
  "asked (r\<lparr>r_election_elapsed := v12\<rparr>) = asked r" "asked (r\<lparr>r_heartbeat_elapsed := v13\<rparr>) = asked r"
  "asked (r\<lparr>r_check_quorum := v14\<rparr>) = asked r" "asked (r\<lparr>r_skip_bcast_commit := v15\<rparr>) = asked r"
  "asked (r\<lparr>r_batch_append := v16\<rparr>) = asked r" "asked (r\<lparr>r_randomized_election_timeout := v17\<rparr>) = asked r"
  "asked (r\<lparr>r_priority := v18\<rparr>) = asked r" "asked (r\<lparr>r_uncommitted_state := v19\<rparr>) = asked r"
  "asked (r\<lparr>r_max_committed_size_per_ready := v20\<rparr>) = asked r" "asked (r\<lparr>r_prs := v21\<rparr>) = asked r"
  by (simp_all add: asked_def)

lemma frame_upd [simp]:
  "frame_of (r\<lparr>r_msgs := v0\<rparr>) = frame_of r" "frame_of (r\<lparr>r_term := v1\<rparr>) = frame_of r"
  "frame_of (r\<lparr>r_vote := v2\<rparr>) = frame_of r" "frame_of (r\<lparr>r_read_states := v3\<rparr>) = frame_of r"
  "frame_of (r\<lparr>r_log := v4\<rparr>) = frame_of r" "frame_of (r\<lparr>r_pending_request_snapshot := v5\<rparr>) = frame_of r"
  "frame_of (r\<lparr>r_state := v6\<rparr>) = frame_of r" "frame_of (r\<lparr>r_promotable := v7\<rparr>) = frame_of r"
  "frame_of (r\<lparr>r_leader_id := v8\<rparr>) = frame_of r" "frame_of (r\<lparr>r_lead_transferee := v9\<rparr>) = frame_of r"
  "frame_of (r\<lparr>r_pending_conf_index := v10\<rparr>) = frame_of r" "frame_of (r\<lparr>r_read_only := v11\<rparr>) = frame_of r"
  "frame_of (r\<lparr>r_election_elapsed := v12\<rparr>) = frame_of r" "frame_of (r\<lparr>r_heartbeat_elapsed := v13\<rparr>) = frame_of r"
  "frame_of (r\<lparr>r_check_quorum := v14\<rparr>) = frame_of r" "frame_of (r\<lparr>r_skip_bcast_commit := v15\<rparr>) = frame_of r"
  "frame_of (r\<lparr>r_batch_append := v16\<rparr>) = frame_of r" "frame_of (r\<lparr>r_randomized_election_timeout := v17\<rparr>) = frame_of r"
  "frame_of (r\<lparr>r_priority := v18\<rparr>) = frame_of r" "frame_of (r\<lparr>r_uncommitted_state := v19\<rparr>) = frame_of r"
  "frame_of (r\<lparr>r_max_committed_size_per_ready := v20\<rparr>) = frame_of r"
  by (simp_all add: frame_of_def)

lemma frame_prs [simp]: "conf p = members r \<Longrightarrow> frame_of (r\<lparr>r_prs := p\<rparr>) = frame_of r"
  by (simp add: frame_of_def)

lemma frame_set_progress [simp]: "frame_of (set_progress i pr r) = frame_of r"
  by (simp add: set_progress_def)

lemma members_set_progress [simp]: "members (set_progress i pr r) = members r"
  by (simp add: set_progress_def)

lemma asked_set_progress [simp]: "asked (set_progress i pr r) = asked r"
  by (simp add: set_progress_def)

lemma members_frame: "frame_of r' = frame_of r \<Longrightarrow> members r' = members r"
  by (simp add: frame_of_def)

lemma grows_refl [simp]: "grows a a"
  by (cases a rule: prod_cases3) simp

lemma grows_trans: "grows a b \<Longrightarrow> grows b c \<Longrightarrow> grows a c"
  by (cases a rule: prod_cases3; cases b rule: prod_cases3; cases c rule: prod_cases3) (simp, blast)

lemma steady_refl [simp]: "rel_prod (=) grows f f"
  by (cases f) simp

lemma steady_trans: "rel_prod (=) grows f g \<Longrightarrow> rel_prod (=) grows g h \<Longrightarrow> rel_prod (=) grows f h"
  by (cases f; cases g; cases h) (auto intro: grows_trans)

lemma steady_members: "steady r r' \<Longrightarrow> members r' = members r"
  by (simp add: frame_of_def)

lemma steady_asks: "steady r r' \<Longrightarrow> asks r r'"
  by (simp add: frame_of_def)

subsection \<open>Sending\<close>

lemma raft_send_frame: "raft_send r m = Some r' \<Longrightarrow> frame_of r' = frame_of r"
  by (auto simp: raft_send_def elim!: bind_SomeE)

lemma raft_send_append_frame:
  "raft_send_append E r to = Some r' \<Longrightarrow> frame_of r' = frame_of r"
  "raft_maybe_send_append E b r to = Some r' \<Longrightarrow> frame_of r' = frame_of r"
  "raft_send_append_aggressively E r to = Some r' \<Longrightarrow> frame_of r' = frame_of r"
  by (auto simp: raft_send_append_def raft_maybe_send_append_def raft_send_append_aggressively_def elim!: bind_SomeE)

lemma bcast_append_frame: "bcast_append E r = Some r' \<Longrightarrow> frame_of r' = frame_of r"
  unfolding bcast_append_def by (erule foldM_const) (rule raft_send_append_frame)

lemma send_timeout_now_frame: "send_timeout_now r to = Some r' \<Longrightarrow> frame_of r' = frame_of r"
  by (auto simp: send_timeout_now_def raft_send_frame)

lemma send_request_snapshot_frame: "send_request_snapshot E r = Some r' \<Longrightarrow> frame_of r' = frame_of r"
  by (auto simp: send_request_snapshot_def raft_send_frame elim!: bind_SomeE)

lemma ready_read_frame: "ready_read r req idx = Some r' \<Longrightarrow> frame_of r' = frame_of r"
  by (auto simp: ready_read_def handle_ready_read_index_def elim!: bind_SomeE
      split: if_split_asm option.split_asm dest!: raft_send_frame)

lemma advance_loop_frame:
  "foldM (\<lambda>rs r. ready_read r (ris_req rs) (ris_index rs)) rss r = Some r' \<Longrightarrow> frame_of r' = frame_of r"
  by (erule foldM_const) (rule ready_read_frame)

lemma advance_reads_frame: "advance_reads r ctx = Some r' \<Longrightarrow> frame_of r' = frame_of r"
  by (auto simp: advance_reads_def elim!: bind_SomeE split: prod.split_asm dest!: advance_loop_frame)

lemma witness_read_acks_frame: "witness_read_acks r ctx ws = Some r' \<Longrightarrow> frame_of r' = frame_of r"
proof (induction ws arbitrary: r)
  case (Cons w ws)
  then show ?case by (auto simp: Let_def split: prod.splits if_splits dest!: advance_reads_frame)
qed simp

lemma heartbeats_frame:
  "foldM (\<lambda>i r. do {
      pr \<leftarrow> get_progress r i;
      if is_witness pr then Some r
      else do { msgs \<leftarrow> core_send_heartbeat r i pr ctx (r_msgs r); Some (r\<lparr>r_msgs := msgs\<rparr>) }
    }) ids r = Some r' \<Longrightarrow> frame_of r' = frame_of r"
  by (erule foldM_const) (auto elim!: bind_SomeE split: if_split_asm)

lemma bcast_heartbeat_with_ctx_frame: "bcast_heartbeat_with_ctx r ctx = Some r' \<Longrightarrow> frame_of r' = frame_of r"
  unfolding bcast_heartbeat_with_ctx_def
  by (elim bind_SomeE) (auto split: option.split_asm dest!: heartbeats_frame witness_read_acks_frame)

lemma bcast_heartbeat_frame: "bcast_heartbeat r = Some r' \<Longrightarrow> frame_of r' = frame_of r"
  by (auto simp: bcast_heartbeat_def bcast_heartbeat_with_ctx_frame)

lemma ask_steady: "proper (r_id r) (r_pre_vote r) m \<Longrightarrow> steady r (r\<lparr>r_witness_msgs := r_witness_msgs r @ [m]\<rparr>)"
  by (simp add: frame_of_def asked_def)

lemma send_append_to_witness_steady: "send_append_to_witness E r w = Some (r', b) \<Longrightarrow> steady r r'"
  by (auto simp: send_append_to_witness_def Let_def proper_def elim!: bind_SomeE split: sum.split_asm list.split_asm
      intro!: ask_steady)

lemma send_request_vote_to_witness_steady:
  "send_request_vote_to_witness E r w t trm = Some r' \<Longrightarrow> (t = MsgRequestVote \<Longrightarrow> 0 < trm) \<Longrightarrow>
    (t = MsgRequestPreVote \<Longrightarrow> r_pre_vote r) \<Longrightarrow> steady r r' \<and> r_term r' = r_term r \<and> r_pre_vote r' = r_pre_vote r"
  by (auto simp: send_request_vote_to_witness_def Let_def proper_def elim!: bind_SomeE intro!: ask_steady)

lemma contact_witness_steady: "contact_witness E s wi r = Some r' \<Longrightarrow> steady r r'"
  by (auto simp: contact_witness_def elim!: bind_SomeE split: prod.split_asm if_split_asm option.split_asm
      dest!: send_append_to_witness_steady)

lemma contact_witnesses_steady: "foldM (contact_witness E s) ws r = Some r' \<Longrightarrow> steady r r'"
  by (erule foldM_rel) (auto intro: steady_trans contact_witness_steady)

lemmas sending_frame = raft_send_frame raft_send_append_frame bcast_append_frame send_timeout_now_frame
  send_request_snapshot_frame advance_reads_frame bcast_heartbeat_frame bcast_heartbeat_with_ctx_frame ready_read_frame

subsection \<open>Commits, appends and roles\<close>

lemma maybe_commit_steady: "maybe_commit E r = Some (r', b) \<Longrightarrow> steady r r'"
  by (auto simp: maybe_commit_def Let_def elim!: bind_SomeE split: if_split_asm prod.split_asm dest!: contact_witnesses_steady)

lemma maybe_commit_and_bcast_steady: "maybe_commit_and_bcast E r = Some r' \<Longrightarrow> steady r r'"
  by (auto simp: maybe_commit_and_bcast_def elim!: bind_SomeE split: if_split_asm prod.split_asm
      dest!: maybe_commit_steady bcast_append_frame)

lemma append_entry_frame: "append_entry E r es = Some (r', b) \<Longrightarrow> frame_of r' = frame_of r"
  by (auto simp: append_entry_def Let_def elim!: bind_SomeE split: if_split_asm prod.split_asm)

lemma maybe_start_new_subterm_frame: "maybe_start_new_subterm E r nt cc = Some (r', b) \<Longrightarrow> frame_of r' = frame_of r"
  by (auto simp: maybe_start_new_subterm_def reset_replication_set_def change_replication_set_def Let_def
      elim!: bind_SomeE split: if_split_asm prod.split_asm dest!: append_entry_frame)

lemma raft_reset_frame: "raft_reset E r t = Some r' \<Longrightarrow> frame_of r' = frame_of r"
  by (auto simp: raft_reset_def reset_randomized_election_timeout_def abort_leader_transfer_def reset_votes_def Let_def
      elim!: bind_SomeE split: if_split_asm)

lemma become_follower_frame: "become_follower E r t l = Some r' \<Longrightarrow> frame_of r' = frame_of r"
  by (auto simp: become_follower_def elim!: bind_SomeE dest!: raft_reset_frame)

lemma become_candidate_frame: "become_candidate E r = Some r' \<Longrightarrow> frame_of r' = frame_of r"
  by (auto simp: become_candidate_def elim!: bind_SomeE dest!: raft_reset_frame)

lemma become_pre_candidate_frame: "become_pre_candidate r = Some r' \<Longrightarrow> frame_of r' = frame_of r"
  by (auto simp: become_pre_candidate_def reset_votes_def elim!: bind_SomeE)

lemma become_leader_frame: "become_leader E r = Some r' \<Longrightarrow> frame_of r' = frame_of r"
  by (auto simp: become_leader_def Let_def elim!: bind_SomeE split: if_split_asm prod.split_asm
      dest!: raft_reset_frame append_entry_frame maybe_start_new_subterm_frame)

lemmas role_frame = become_follower_frame become_candidate_frame become_pre_candidate_frame become_leader_frame
  append_entry_frame maybe_start_new_subterm_frame

subsection \<open>Elections\<close>

text \<open>A real vote is asked for by a candidate, whose term is positive; a pre-vote by a node that runs pre-votes.\<close>

definition may_ask :: "MessageType \<Rightarrow> 's Raft \<Rightarrow> bool" where
  "may_ask t r \<longleftrightarrow> (t = MsgRequestVote \<longrightarrow> 0 < r_term r) \<and> (t = MsgRequestPreVote \<longrightarrow> r_pre_vote r)"

lemma vote_requests_steady:
  assumes "foldM (\<lambda>(w, ready) r. if ready then send_request_vote_to_witness E r w t
       (if t = MsgRequestPreVote then r_term r + 1 else r_term r) else Some r) ws r = Some r'" "may_ask t r"
  shows "steady r r'"
proof -
  have "may_ask t r \<longrightarrow> steady r r' \<and> may_ask t r'"
    using assms(1)
    by (rule foldM_rel)
       (auto simp: may_ask_def split: prod.splits if_splits dest!: send_request_vote_to_witness_steady intro: steady_trans)
  with assms(2) show ?thesis by blast
qed

lemma poll_body_steady:
  assumes "poll_body E ce r from t v = Some (r', res)" "may_ask t r"
    and "\<And>s s'. ce s = Some s' \<Longrightarrow> steady s s'"
  shows "steady r r'"
  using assms(1,2)
  by (auto simp: poll_body_def Let_def record_vote_frame may_ask_def [of t "r\<lparr>r_prs := x\<rparr>" for x] elim!: bind_SomeE
      split: VoteResult.split_asm if_split_asm prod.split_asm
      dest!: role_frame bcast_append_frame assms(3))
     (auto simp: may_ask_def record_vote_frame dest!: vote_requests_steady)

lemma campaign_sends_frame:
  "foldM (\<lambda>i r. if i = r_id r then Some r
      else if i = fst (witnesses (members r)) \<or> i = snd (witnesses (members r)) then Some r
      else do {
        last_index \<leftarrow> log_last_index E (r_log r);
        last_term \<leftarrow> log_last_term E (r_log r);
        raft_send r (f i last_index last_term)
      }) ids r = Some r' \<Longrightarrow> frame_of r' = frame_of r"
  by (erule foldM_const) (auto elim!: bind_SomeE split: if_split_asm dest!: raft_send_frame)

lemma campaign_body_steady:
  assumes "campaign_body E pf r ct = Some r'" "ct = CAMPAIGN_PRE_ELECTION \<Longrightarrow> r_pre_vote r"
    and "\<And>s i t v s' res. pf s i t v = Some (s', res) \<Longrightarrow> may_ask t s \<Longrightarrow> steady s s'"
  shows "steady r r'"
proof -
  obtain r1 t trm r2 res where start: "(if ct = CAMPAIGN_PRE_ELECTION
        then do { r \<leftarrow> become_pre_candidate r; Some (r, MsgRequestPreVote, r_term r + 1) }
        else do { r \<leftarrow> become_candidate E r; Some (r, MsgRequestVote, r_term r) }) = Some (r1, t, trm)"
    and r2: "pf r1 (r_id r1) t True = Some (r2, res)" "frame_of r' = frame_of r2"
    using assms(1) unfolding campaign_body_def
    by (elim bind_SomeE, auto simp: Let_def elim!: bind_SomeE split: if_split_asm prod.split_asm dest!: campaign_sends_frame)
  have "frame_of r1 = frame_of r"
    using start by (auto elim!: bind_SomeE split: if_split_asm dest: become_candidate_frame become_pre_candidate_frame)
  moreover have "may_ask t r1"
    using start assms(2)
    by (auto simp: may_ask_def become_pre_candidate_def elim!: bind_SomeE split: if_split_asm dest!: become_candidate_core)
  ultimately show ?thesis using assms(3) [OF r2(1)] r2(2) by simp
qed

lemma campaign_election_steady: "campaign_election E r = Some r' \<Longrightarrow> steady r r'"
  unfolding campaign_election_def
  by (erule campaign_body_steady) (simp_all add: CAMPAIGN_ELECTION_def CAMPAIGN_PRE_ELECTION_def, erule (1) poll_body_steady, simp)

lemma poll_steady: "poll E r from t v = Some (r', res) \<Longrightarrow> may_ask t r \<Longrightarrow> steady r r'"
  unfolding poll_def by (erule (1) poll_body_steady) (rule campaign_election_steady)

lemma campaign_steady: "campaign E r ct = Some r' \<Longrightarrow> (ct = CAMPAIGN_PRE_ELECTION \<Longrightarrow> r_pre_vote r) \<Longrightarrow> steady r r'"
  unfolding campaign_def by (erule campaign_body_steady) (auto dest: poll_steady)

lemma hup_steady: "hup E r b = Some r' \<Longrightarrow> steady r r'"
  by (auto simp: hup_def Let_def CAMPAIGN_ELECTION_def CAMPAIGN_PRE_ELECTION_def CAMPAIGN_TRANSFER_def
      elim!: bind_SomeE split: if_split_asm dest!: campaign_steady)

subsection \<open>Handlers\<close>

lemma handle_append_response_steady: "handle_append_response E r m = Some r' \<Longrightarrow> steady r r'"
  by (auto simp: handle_append_response_def Let_def elim!: bind_SomeE
      split: if_split_asm prod.split_asm option.split_asm dest!: sending_frame maybe_commit_steady)

lemma handle_heartbeat_response_frame: "handle_heartbeat_response E r m = Some r' \<Longrightarrow> frame_of r' = frame_of r"
  by (auto simp: handle_heartbeat_response_def Let_def elim!: bind_SomeE
      split: if_split_asm prod.split_asm option.split_asm dest!: sending_frame)

lemma handle_transfer_leader_frame: "handle_transfer_leader E r m = Some r' \<Longrightarrow> frame_of r' = frame_of r"
  by (auto simp: handle_transfer_leader_def abort_leader_transfer_def Let_def elim!: bind_SomeE
      split: if_split_asm option.split_asm dest!: sending_frame)

lemma handle_status_frame [simp]:
  "frame_of (handle_snapshot_status r m) = frame_of r" "frame_of (handle_unreachable r m) = frame_of r"
  by (auto simp: handle_snapshot_status_def handle_unreachable_def Let_def split: option.split)

lemma propose_entries_frame: "propose_entries E i es r = Some (r', x) \<Longrightarrow> frame_of r' = frame_of r"
proof (induction es arbitrary: i r x)
  case (Cons e es)
  then show ?case
    by (auto simp: Let_def elim!: bind_SomeE split: proposed.split_asm if_split_asm sum.split_asm prod.split_asm
        dest!: Cons.IH)
qed simp

lemma leader_propose_frame: "leader_propose E r m = Some (r', x) \<Longrightarrow> frame_of r' = frame_of r"
  by (auto simp: leader_propose_def elim!: bind_SomeE split: if_split_asm sum.split_asm prod.split_asm
      dest!: propose_entries_frame append_entry_frame bcast_append_frame)

lemma check_quorum_active_frame: "check_quorum_active r = (r', b) \<Longrightarrow> frame_of r' = frame_of r"
  by (auto simp: check_quorum_active_def quorum_recently_active_def Let_def split: prod.split_asm)

lemma leader_check_quorum_frame: "leader_check_quorum E r = Some r' \<Longrightarrow> frame_of r' = frame_of r"
  by (auto simp: leader_check_quorum_def Let_def elim!: bind_SomeE split: if_split_asm prod.split_asm
      dest!: role_frame maybe_start_new_subterm_frame check_quorum_active_frame)

lemma leader_read_index_frame: "leader_read_index E r m = Some r' \<Longrightarrow> frame_of r' = frame_of r"
  by (auto simp: leader_read_index_def elim!: bind_SomeE split: if_split_asm ReadOnlyOption.split_asm
      dest!: sending_frame)

lemma step_leader_steady: "step_leader E r m = Some (r', x) \<Longrightarrow> steady r r'"
  by (cases "msg_type m")
     (auto simp: step_leader_def elim!: bind_SomeE split: if_split_asm option.split_asm
      dest!: handle_append_response_steady leader_propose_frame leader_check_quorum_frame leader_read_index_frame
        handle_heartbeat_response_frame handle_transfer_leader_frame bcast_heartbeat_frame
        maybe_commit_and_bcast_steady)

lemma handle_append_entries_frame: "handle_append_entries E r m = Some r' \<Longrightarrow> frame_of r' = frame_of r"
  by (auto simp: handle_append_entries_def Let_def elim!: bind_SomeE split: if_split_asm prod.split_asm option.split_asm
      dest!: sending_frame)

lemma handle_heartbeat_frame: "handle_heartbeat E r m = Some r' \<Longrightarrow> frame_of r' = frame_of r"
  by (auto simp: handle_heartbeat_def Let_def elim!: bind_SomeE split: if_split_asm dest!: sending_frame)

lemma maybe_commit_by_vote_frame: "maybe_commit_by_vote E r m = Some r' \<Longrightarrow> frame_of r' = frame_of r"
  by (auto simp: maybe_commit_by_vote_def Let_def elim!: bind_SomeE split: if_split_asm prod.split_asm
      dest!: become_follower_frame)

lemmas handler_frame = handle_append_entries_frame handle_heartbeat_frame maybe_commit_by_vote_frame become_follower_frame

lemma step_follower_steady:
  "step_follower E r m = Some (r', x) \<Longrightarrow> msg_type m \<noteq> MsgSnapshot \<Longrightarrow> steady r r'"
  by (cases "msg_type m")
     (auto simp: step_follower_def Let_def elim!: bind_SomeE split: if_split_asm prod.split_asm
      dest!: sending_frame handler_frame dest: hup_steady)

lemma step_candidate_steady:
  "step_candidate E r m = Some (r', x) \<Longrightarrow> msg_type m \<noteq> MsgSnapshot \<Longrightarrow> steady r r'"
  by (cases "msg_type m")
     (auto simp: step_candidate_def may_ask_def elim!: bind_SomeE split: if_split_asm prod.split_asm dest!: handler_frame poll_steady)

lemma step_vote_frame: "step_vote E r m = Some r' \<Longrightarrow> frame_of r' = frame_of r"
  by (auto simp: step_vote_def Let_def elim!: bind_SomeE split: if_split_asm prod.split_asm
      dest!: sending_frame handler_frame)

lemma step_term_frame:
  "step_term E r m = Some s \<Longrightarrow> frame_of (case s of Inl r' \<Rightarrow> r' | Inr r' \<Rightarrow> r') = frame_of r"
  by (auto simp: step_term_def Let_def elim!: bind_SomeE split: if_split_asm
      dest!: sending_frame handler_frame)

lemma step_steady:
  assumes "step E r m = Some (r', x)" "msg_type m \<noteq> MsgSnapshot"
  shows "steady r r'"
proof -
  obtain s where s: "step_term E r m = Some s" using assms(1) by (auto simp: step_def elim!: bind_SomeE)
  have "steady (case s of Inl r' \<Rightarrow> r' | Inr r' \<Rightarrow> r') r'"
  proof (cases s)
    case (Inl r1)
    then show ?thesis using assms(1) s by (auto simp: step_def)
  next
    case (Inr r1)
    then show ?thesis
      using assms s
      by (cases "msg_type m"; cases "r_state r1")
         (auto simp: step_def elim!: bind_SomeE
          dest!: step_vote_frame hup_steady step_leader_steady step_follower_steady step_candidate_steady)
  qed
  with step_term_frame [OF s] show ?thesis by simp
qed

subsection \<open>The other operations\<close>

lemma tick_steady: "tick E r = Some (r', b) \<Longrightarrow> steady r r'"
proof -
  have own: "steady s s'" if "step E s (new_message i t f) = Some (s', x)" "t \<noteq> MsgSnapshot"
    for s s' :: "'a Raft" and i t f x
    by (rule step_steady [OF that(1)]) (use that(2) in \<open>simp add: new_message_def\<close>)
  assume "tick E r = Some (r', b)"
  then show ?thesis
    by (auto simp: tick_def tick_election_def tick_heartbeat_def abort_leader_transfer_def Let_def elim!: bind_SomeE
        split: if_split_asm prod.split_asm StateRole.split_asm dest!: own)
       (blast intro: steady_trans)+
qed

lemma commit_apply_frame: "commit_apply E r i = Some r' \<Longrightarrow> frame_of r' = frame_of r"
  by (auto simp: commit_apply_def commit_apply_internal_def Let_def elim!: bind_SomeE split: if_split_asm prod.split_asm
      dest!: append_entry_frame)

lemma on_persist_entries_steady: "on_persist_entries E r i t = Some r' \<Longrightarrow> steady r r'"
  by (auto simp: on_persist_entries_def Let_def elim!: bind_SomeE split: if_split_asm prod.split_asm
      dest!: maybe_commit_and_bcast_steady)

lemma on_persist_snap_frame: "on_persist_snap r i = Some r' \<Longrightarrow> frame_of r' = frame_of r"
  by (auto simp: on_persist_snap_def elim!: bind_SomeE)

lemmas step_members = step_steady [THEN steady_members]

lemmas commit_apply_members = commit_apply_frame [THEN members_frame]

lemmas on_persist_entries_members = on_persist_entries_steady [THEN steady_members]

lemmas on_persist_snap_members = on_persist_snap_frame [THEN members_frame]

subsection \<open>Snapshots\<close>

text \<open>The configuration a snapshot carries, as a node restores it.\<close>

definition snapshot_members :: "Snapshot \<Rightarrow> Configuration \<Rightarrow> bool" where
  "snapshot_members snap c \<longleftrightarrow> (\<exists>t n t'. tracker_empty t \<and>
     confchange_restore t n (sm_conf_state (s_metadata snap)) = Inr t' \<and> conf t' = c)"

lemma follower_restore_members: "post_conf_change E r = Some (r', cs) \<Longrightarrow> r_state r = Follower \<Longrightarrow> members r' = members r"
  by (auto simp: post_conf_change_def Let_def split: if_split_asm)

lemma raft_restore_members:
  assumes "raft_restore E r snap = Some (r', b)"
  shows "(if b then snapshot_members snap (members r') else members r' = members r)"
  using assms
  by (auto simp: raft_restore_def Let_def unwrap_def elim!: bind_SomeE split: if_split_asm prod.split_asm sum.split_asm
      dest!: become_follower_frame [THEN members_frame] follower_restore_members)
     (use cleared_tracker in \<open>auto simp: snapshot_members_def\<close>)

lemma handle_snapshot_members:
  "handle_snapshot E r m = Some r' \<Longrightarrow> members r' = members r \<or> snapshot_members (m_snapshot m) (members r')"
  by (auto simp: handle_snapshot_def elim!: bind_SomeE split: if_split_asm prod.split_asm
      dest!: raft_restore_members raft_send_frame [THEN members_frame])

lemma step_snapshot_members:
  assumes "step E r m = Some (r', x)" "msg_type m = MsgSnapshot"
  shows "members r' = members r \<or> snapshot_members (m_snapshot m) (members r')"
proof -
  obtain s where s: "step_term E r m = Some s" using assms(1) by (auto simp: step_def elim!: bind_SomeE)
  show ?thesis
  proof (cases s)
    case (Inl r1)
    then show ?thesis using assms(1) s step_term_frame [OF s] by (auto simp: step_def dest: members_frame)
  next
    case (Inr r1)
    then have r1: "members r1 = members r" using members_frame [OF step_term_frame [OF s]] by simp
    have "members r' = members r1 \<or> snapshot_members (m_snapshot m) (members r')"
      using assms s Inr
      by (cases "r_state r1")
         (auto simp: step_def step_follower_def step_candidate_def step_leader_def elim!: bind_SomeE
          split: option.split_asm dest!: handle_snapshot_members become_follower_frame [THEN members_frame])
    with r1 show ?thesis by simp
  qed
qed

subsection \<open>Witnesses are asked properly by every operation\<close>

lemma frame_asked: "frame_of r' = frame_of r \<Longrightarrow> asked r' = asked r"
  by (simp add: frame_of_def)

lemma maybe_send_loop_frame: "foldM (\<lambda>i r. raft_maybe_send_append E b r i) ids r = Some r' \<Longrightarrow> frame_of r' = frame_of r"
  by (erule foldM_const) (rule raft_send_append_frame)

lemma post_conf_change_steady: "post_conf_change E r = Some (r', cs) \<Longrightarrow> steady r r'"
  by (auto simp: post_conf_change_def abort_leader_transfer_def Let_def elim!: bind_SomeE
      split: if_split_asm prod.split_asm option.split_asm option.split
      dest!: maybe_commit_steady sending_frame maybe_send_loop_frame)

lemma apply_conf_change_asks: "apply_conf_change E r cc = Some (r', x) \<Longrightarrow> asks r r'"
  by (auto simp: apply_conf_change_def elim!: bind_SomeE split: sum.split_asm prod.split_asm if_split_asm
      dest!: post_conf_change_steady [THEN steady_asks] maybe_start_new_subterm_frame [THEN frame_asked])

lemma raft_restore_asks: "raft_restore E r snap = Some (r', b) \<Longrightarrow> asks r r'"
  by (auto simp: raft_restore_def Let_def set_progress_def elim!: bind_SomeE split: if_split_asm prod.split_asm
      dest!: become_follower_frame [THEN frame_asked] post_conf_change_steady [THEN steady_asks])

lemma handle_snapshot_asks: "handle_snapshot E r m = Some r' \<Longrightarrow> asks r r'"
  by (auto simp: handle_snapshot_def elim!: bind_SomeE split: if_split_asm prod.split_asm
      dest!: raft_restore_asks raft_send_frame [THEN frame_asked])

lemma step_asks:
  assumes "step E r m = Some (r', x)"
  shows "asks r r'"
proof (cases "msg_type m = MsgSnapshot")
  case False
  then show ?thesis using step_steady [OF assms] steady_asks by blast
next
  case True
  obtain s where s: "step_term E r m = Some s" using assms by (auto simp: step_def elim!: bind_SomeE)
  then have a: "asked (case s of Inl r' \<Rightarrow> r' | Inr r' \<Rightarrow> r') = asked r" by (intro frame_asked step_term_frame)
  show ?thesis
  proof (cases s)
    case (Inl r1)
    then show ?thesis using assms s a by (auto simp: step_def)
  next
    case (Inr r1)
    then have "asks r1 r'"
      using assms s True
      by (cases "r_state r1")
         (auto simp: step_def step_follower_def step_candidate_def step_leader_def elim!: bind_SomeE
          split: option.split_asm dest!: handle_snapshot_asks become_follower_frame [THEN frame_asked])
    with a Inr show ?thesis by simp
  qed
qed

lemma assign_groups_frame:
  "foldM (\<lambda>(peer_id, group_id) r. do {
       ensure (0 < group_id);
       Some (case get_progress r peer_id of
               Some pr \<Rightarrow> set_progress peer_id (pr\<lparr>commit_group_id := group_id\<rparr>) r
             | None \<Rightarrow> r)
     }) ids r = Some r' \<Longrightarrow> frame_of r' = frame_of r"
  by (erule foldM_const) (auto elim!: bind_SomeE split: prod.splits option.splits)

lemma node_op_asks: "node_op E r r' \<Longrightarrow> asks r r'"
proof (induction rule: node_op.induct)
  case (do_tick r r' b)
  then show ?case by (blast intro: steady_asks tick_steady)
next
  case (do_take_witness_msgs r)
  then show ?case by (simp add: asked_def)
qed (auto simp: ping_def confirm_witness_append_def reject_witness_append_def enable_group_commit_def assign_commit_groups_def
      tracker_enable_group_commit_def adjust_max_inflight_msgs_def request_snapshot_def set_randomized_election_timeout_def
      set_priority_def skip_bcast_commit_def set_batch_append_def set_max_committed_size_per_ready_def
      set_check_quorum_def set_max_apply_unpersisted_log_limit_def clear_commit_group_def maybe_free_inflight_buffers_def
      reduce_uncommitted_size_def Let_def elim!: bind_SomeE split: if_split_asm prod.split_asm option.split_asm option.split
      dest!: apply_conf_change_asks commit_apply_frame [THEN frame_asked] on_persist_entries_steady [THEN steady_asks]
        on_persist_snap_frame [THEN frame_asked] maybe_commit_steady [THEN steady_asks] sending_frame [THEN frame_asked]
        maybe_commit_and_bcast_steady [THEN steady_asks] assign_groups_frame [THEN frame_asked])

subsection \<open>The property\<close>

lemma snapshot_members_stored:
  assumes "snapshot_members snap c" "sm_conf_state (s_metadata snap) = to_conf_state cfg" "conf_stored cfg"
  shows "c = cfg"
proof -
  obtain t n t' where t: "tracker_empty t" "confchange_restore t n (to_conf_state cfg) = Inr t'" "conf t' = c"
    using assms(1,2) by (auto simp: snapshot_members_def)
  from restore_stored [OF assms(3) t(1), of n] t(2,3) show ?thesis by auto
qed

text \<open>C9: processing a message changes the membership of a node in one case only: the message is a snapshot, and then
  the voters, learners and witnesses become exactly the configuration stored with it.  In every other case, whatever
  the message and the state of the node, the configuration stays.\<close>

theorem step_membership:
  assumes "step E r m = Some (r', x)"
    and "msg_type m = MsgSnapshot \<Longrightarrow> sm_conf_state (s_metadata (m_snapshot m)) = to_conf_state cfg \<and> conf_stored cfg"
  shows "conf (r_prs r') = conf (r_prs r) \<or> msg_type m = MsgSnapshot \<and> conf (r_prs r') = cfg"
  using step_members [OF assms(1)] step_snapshot_members [OF assms(1)] snapshot_members_stored assms(2) by blast

text \<open>A follower of the voters 1, 2 and 3 accepts a snapshot with the voters 1 and 4 and the learner 5.\<close>

theorem step_membership_witness:
  defines "r \<equiv> ex_raft 2 Follower (ex_voters [1, 2, 3] 0 0)"
    and "cfg \<equiv> \<lparr>voters = \<lparr>incoming = [1, 4], outgoing = []\<rparr>, learners = [5], learners_next = [], auto_leave = False,
      witnesses = (4, 0)\<rparr>"
  defines "m \<equiv> Message_default\<lparr>msg_type := MsgSnapshot, m_from := 4, m_to := 1, m_term := 2, m_snapshot :=
      Snapshot_default\<lparr>s_metadata := \<lparr>sm_conf_state = to_conf_state cfg, sm_index = 7, sm_term = 2\<rparr>\<rparr>\<rparr>"
  defines "r' \<equiv> state_after (step ex_env r m)"
  shows "conf (r_prs r') = cfg \<and> conf (r_prs r) \<noteq> cfg"
proof -
  have h: "step ex_env r m \<noteq> None" "conf (r_prs r') \<noteq> conf (r_prs r)" "conf (r_prs r) \<noteq> cfg"
    unfolding r'_def r_def m_def cfg_def by code_simp+
  have "sm_conf_state (s_metadata (m_snapshot m)) = to_conf_state cfg" unfolding m_def by simp
  moreover have "conf_stored cfg"
    unfolding cfg_def by (simp add: conf_stored_def conf_ok_def conf_distinct_def joint_def Let_def)
  ultimately show ?thesis using step_membership [OF state_after_Some [OF h(1), folded r'_def], of cfg] h by blast
qed

end
