(* ===== verification/Raw_Node.thy ===== *)
theory Raw_Node
  imports Raft_Runs
begin

section \<open>The raw node: the contract between a node and its host\<close>

text \<open>
  \<^verbatim>\<open>src/raw_node.rs\<close> and \<^verbatim>\<open>src/status.rs\<close>.  The host asks for a \<^verbatim>\<open>Ready\<close> (what to persist, apply and send),
  handles it, and reports back with one of the \<^verbatim>\<open>advance\<close> functions.  Every operation is a function on the
  record \<open>RawNode\<close>; accessors that only read a field of \<^verbatim>\<open>Ready\<close> are the selectors of the record.  The encoding
  of a configuration change is generated code and an argument of \<open>rn_propose_conf_change\<close>.
\<close>

datatype SnapshotStatus = Finish | Failure

definition is_local_msg :: "MessageType \<Rightarrow> bool" where
  "is_local_msg t \<longleftrightarrow> t \<in> {MsgHup, MsgBeat, MsgUnreachable, MsgSnapStatus, MsgCheckQuorum}"

definition is_response_msg :: "MessageType \<Rightarrow> bool" where
  "is_response_msg t \<longleftrightarrow>
     t \<in> {MsgAppendResponse, MsgRequestVoteResponse, MsgHeartbeatResponse, MsgUnreachable, MsgRequestPreVoteResponse}"

definition snap_is_empty :: "Snapshot \<Rightarrow> bool" where
  "snap_is_empty s \<longleftrightarrow> snap_index s = 0"

record LightReady =
  lr_commit_index :: "nat option"
  lr_committed_entries :: "Entry list"
  lr_messages :: "Message list"

definition LightReady_default :: LightReady where
  "LightReady_default = \<lparr>lr_commit_index = None, lr_committed_entries = [], lr_messages = []\<rparr>"

record Ready =
  rd_number :: nat
  rd_ss :: "SoftState option"
  rd_hs :: "HardState option"
  rd_read_states :: "ReadState list"
  rd_entries :: "Entry list"
  rd_snapshot :: Snapshot
  rd_is_persisted_msg :: bool
  rd_witness_messages :: "WitnessMessage list"
  rd_light :: LightReady
  rd_must_sync :: bool

definition Ready_default :: Ready where
  "Ready_default = \<lparr>rd_number = 0, rd_ss = None, rd_hs = None, rd_read_states = [], rd_entries = [],
     rd_snapshot = Snapshot_default, rd_is_persisted_msg = False, rd_witness_messages = [],
     rd_light = LightReady_default, rd_must_sync = False\<rparr>"

definition lr_take_committed_entries :: "LightReady \<Rightarrow> LightReady \<times> Entry list" where
  "lr_take_committed_entries light = (light\<lparr>lr_committed_entries := []\<rparr>, lr_committed_entries light)"

definition lr_take_messages :: "LightReady \<Rightarrow> LightReady \<times> Message list" where
  "lr_take_messages light = (light\<lparr>lr_messages := []\<rparr>, lr_messages light)"

definition rd_messages :: "Ready \<Rightarrow> Message list" where
  "rd_messages rd = (if \<not> rd_is_persisted_msg rd then lr_messages (rd_light rd) else [])"

definition rd_persisted_messages :: "Ready \<Rightarrow> Message list" where
  "rd_persisted_messages rd = (if rd_is_persisted_msg rd then lr_messages (rd_light rd) else [])"

definition rd_take_messages :: "Ready \<Rightarrow> Ready \<times> Message list" where
  "rd_take_messages rd = (if \<not> rd_is_persisted_msg rd
     then case lr_take_messages (rd_light rd) of (light, ms) \<Rightarrow> (rd\<lparr>rd_light := light\<rparr>, ms) else (rd, []))"

definition rd_take_persisted_messages :: "Ready \<Rightarrow> Ready \<times> Message list" where
  "rd_take_persisted_messages rd = (if rd_is_persisted_msg rd
     then case lr_take_messages (rd_light rd) of (light, ms) \<Rightarrow> (rd\<lparr>rd_light := light\<rparr>, ms) else (rd, []))"

definition rd_take_read_states :: "Ready \<Rightarrow> Ready \<times> ReadState list" where
  "rd_take_read_states rd = (rd\<lparr>rd_read_states := []\<rparr>, rd_read_states rd)"

definition rd_take_entries :: "Ready \<Rightarrow> Ready \<times> Entry list" where
  "rd_take_entries rd = (rd\<lparr>rd_entries := []\<rparr>, rd_entries rd)"

definition rd_take_committed_entries :: "Ready \<Rightarrow> Ready \<times> Entry list" where
  "rd_take_committed_entries rd =
     (case lr_take_committed_entries (rd_light rd) of (light, es) \<Rightarrow> (rd\<lparr>rd_light := light\<rparr>, es))"

definition rd_take_witness_messages :: "Ready \<Rightarrow> Ready \<times> WitnessMessage list" where
  "rd_take_witness_messages rd = (rd\<lparr>rd_witness_messages := []\<rparr>, rd_witness_messages rd)"

record ReadyRecord =
  rr_number :: nat
  rr_last_entry :: "(nat \<times> nat) option"
  rr_snapshot :: "(nat \<times> nat) option"

record 's RawNode =
  rn_raft :: "'s Raft"
  rn_prev_ss :: SoftState
  rn_prev_hs :: HardState
  rn_max_number :: nat
  rn_records :: "ReadyRecord list"
  rn_commit_since_index :: nat

type_synonym 's rn_result = "('s RawNode \<times> (Error + unit)) panics"

text \<open>An operation that only forwards to the node.\<close>

definition on_raft :: "'s RawNode \<Rightarrow> ('s Raft \<times> 'a) panics \<Rightarrow> ('s RawNode \<times> 'a) panics" where
  "on_raft rn x = do { (r, a) \<leftarrow> x; Some (rn\<lparr>rn_raft := r\<rparr>, a) }"

definition on_raft_unit :: "'s RawNode \<Rightarrow> 's Raft panics \<Rightarrow> 's RawNode panics" where
  "on_raft_unit rn x = do { r \<leftarrow> x; Some (rn\<lparr>rn_raft := r\<rparr>) }"

definition RawNode_new :: "('s, 'm) Env_scheme \<Rightarrow> Config \<Rightarrow> 's \<Rightarrow> (Error + 's RawNode) panics" where
  "RawNode_new E c st = do {
     ensure (cfg_id c \<noteq> 0);
     res \<leftarrow> Raft_new E c st;
     Some (case res of
         Inl e \<Rightarrow> Inl e
       | Inr r \<Rightarrow> Inr \<lparr>rn_raft = r, rn_prev_ss = soft_state r, rn_prev_hs = hard_state r, rn_max_number = 0,
           rn_records = [], rn_commit_since_index = cfg_applied c\<rparr>)
   }"

definition rn_set_priority :: "'s RawNode \<Rightarrow> int \<Rightarrow> 's RawNode" where
  "rn_set_priority rn p = rn\<lparr>rn_raft := set_priority (rn_raft rn) p\<rparr>"

definition rn_skip_bcast_commit :: "'s RawNode \<Rightarrow> bool \<Rightarrow> 's RawNode" where
  "rn_skip_bcast_commit rn b = rn\<lparr>rn_raft := skip_bcast_commit (rn_raft rn) b\<rparr>"

definition rn_set_batch_append :: "'s RawNode \<Rightarrow> bool \<Rightarrow> 's RawNode" where
  "rn_set_batch_append rn b = rn\<lparr>rn_raft := set_batch_append (rn_raft rn) b\<rparr>"

definition rn_tick :: "('s, 'm) Env_scheme \<Rightarrow> 's RawNode \<Rightarrow> ('s RawNode \<times> bool) panics" where
  "rn_tick E rn = on_raft rn (tick E (rn_raft rn))"

definition rn_campaign :: "('s, 'm) Env_scheme \<Rightarrow> 's RawNode \<Rightarrow> 's rn_result" where
  "rn_campaign E rn = on_raft rn (step E (rn_raft rn) (Message_default\<lparr>msg_type := MsgHup\<rparr>))"

definition rn_propose :: "('s, 'm) Env_scheme \<Rightarrow> 's RawNode \<Rightarrow> bytes \<Rightarrow> bytes \<Rightarrow> 's rn_result" where
  "rn_propose E rn ctx data = on_raft rn (step E (rn_raft rn) (Message_default\<lparr>msg_type := MsgPropose,
     m_from := r_id (rn_raft rn), m_entries := [Entry_default\<lparr>e_data := data, e_context := ctx\<rparr>]\<rparr>))"

definition rn_ping :: "'s RawNode \<Rightarrow> 's RawNode panics" where
  "rn_ping rn = on_raft_unit rn (ping (rn_raft rn))"

definition rn_propose_conf_change ::
  "('s, 'm) Env_scheme \<Rightarrow> (ConfChange \<Rightarrow> Error + bytes) \<Rightarrow> (ConfChangeV2 \<Rightarrow> Error + bytes) \<Rightarrow> 's RawNode \<Rightarrow>
    bytes \<Rightarrow> ConfChange + ConfChangeV2 \<Rightarrow> 's rn_result" where
  "rn_propose_conf_change E write_v1 write_v2 rn ctx cc =
     (case (case cc of Inl v1 \<Rightarrow> (write_v1 v1, EntryConfChange) | Inr v2 \<Rightarrow> (write_v2 v2, EntryConfChangeV2)) of
        (Inl e, _) \<Rightarrow> Some (rn, Inl e)
      | (Inr data, ty) \<Rightarrow> on_raft rn (step E (rn_raft rn) (Message_default\<lparr>msg_type := MsgPropose,
          m_entries := [Entry_default\<lparr>entry_type := ty, e_data := data, e_context := ctx\<rparr>]\<rparr>)))"

definition rn_apply_conf_change ::
  "('s, 'm) Env_scheme \<Rightarrow> 's RawNode \<Rightarrow> ConfChange + ConfChangeV2 \<Rightarrow> ('s RawNode \<times> (Error + ConfState)) panics" where
  "rn_apply_conf_change E rn cc = on_raft rn (apply_conf_change E (rn_raft rn)
     (case cc of Inl v1 \<Rightarrow> cc_into_v2 v1 | Inr v2 \<Rightarrow> v2))"

definition rn_step :: "('s, 'm) Env_scheme \<Rightarrow> 's RawNode \<Rightarrow> Message \<Rightarrow> 's rn_result" where
  "rn_step E rn m =
     (if is_local_msg (msg_type m) then Some (rn, Inl StepLocalMsg)
      else if get_progress (rn_raft rn) (m_from m) \<noteq> None \<or> \<not> is_response_msg (msg_type m)
      then on_raft rn (step E (rn_raft rn) m)
      else Some (rn, Inl StepPeerNotFound))"

definition rn_confirm_witness_append :: "('s, 'm) Env_scheme \<Rightarrow> 's RawNode \<Rightarrow> nat \<Rightarrow> 's RawNode panics" where
  "rn_confirm_witness_append E rn w = on_raft_unit rn (confirm_witness_append E (rn_raft rn) w)"

definition rn_reject_witness_append :: "'s RawNode \<Rightarrow> nat \<Rightarrow> 's RawNode" where
  "rn_reject_witness_append rn w = rn\<lparr>rn_raft := reject_witness_append (rn_raft rn) w\<rparr>"

definition on_entries_fetched :: "('s, 'm) Env_scheme \<Rightarrow> 's RawNode \<Rightarrow> GetEntriesFor \<Rightarrow> 's RawNode panics" where
  "on_entries_fetched E rn ctx = (case ctx of
     SendAppend to trm aggressively \<Rightarrow>
       if r_term (rn_raft rn) \<noteq> trm \<or> r_state (rn_raft rn) \<noteq> Leader then Some rn
       else if get_progress (rn_raft rn) to = None then Some rn
       else if aggressively then on_raft_unit rn (raft_send_append_aggressively E (rn_raft rn) to)
       else on_raft_unit rn (raft_send_append E (rn_raft rn) to)
   | Empty can \<Rightarrow> if can then Some rn else None
   | _ \<Rightarrow> None)"

subsection \<open>Ready\<close>

definition gen_light_ready :: "('s, 'm) Storage_scheme \<Rightarrow> 's RawNode \<Rightarrow> ('s RawNode \<times> LightReady) panics" where
  "gen_light_ready E rn = do {
     let r = rn_raft rn;
     ents \<leftarrow> next_entries_since E (r_log r) (rn_commit_since_index rn) (Some (r_max_committed_size_per_ready r));
     let es = (case ents of Some es \<Rightarrow> es | None \<Rightarrow> []);
     let r = reduce_uncommitted_size r es;
     since \<leftarrow> (if es \<noteq> []
              then do { ensure (rn_commit_since_index rn < e_index (last es)); Some (e_index (last es)) }
              else Some (rn_commit_since_index rn));
     Some (rn\<lparr>rn_raft := r\<lparr>r_msgs := []\<rparr>, rn_commit_since_index := since\<rparr>,
       LightReady_default\<lparr>lr_committed_entries := es, lr_messages := r_msgs r\<rparr>)
   }"

text \<open>The records dropped when a candidate has become leader.\<close>

definition drain_records :: "'s RawNode \<Rightarrow> 's RawNode panics" where
  "drain_records rn =
     (if ss_raft_state (rn_prev_ss rn) \<noteq> Leader \<and> r_state (rn_raft rn) = Leader
      then do {
        ensure (list_all (\<lambda>rec. rr_last_entry rec = None \<and> rr_snapshot rec = None) (rn_records rn));
        Some (rn\<lparr>rn_records := []\<rparr>)
      }
      else Some rn)"

text \<open>The snapshot part of a ready: the new commit position, the snapshot, its record.\<close>

definition ready_snapshot ::
  "('s, 'm) Storage_scheme \<Rightarrow> 's RawNode \<Rightarrow> (nat \<times> Snapshot \<times> (nat \<times> nat) option) panics" where
  "ready_snapshot E rn = (case u_snapshot (unstable (r_log (rn_raft rn))) of
     None \<Rightarrow> Some (rn_commit_since_index rn, Snapshot_default, None)
   | Some snap \<Rightarrow> do {
       ensure (rn_commit_since_index rn \<le> snap_index snap);
       more \<leftarrow> has_next_entries_since E (r_log (rn_raft rn)) (snap_index snap);
       ensure (\<not> more);
       Some (snap_index snap, snap, Some (snap_index snap, snap_term snap))
     })"

definition ready :: "('s, 'm) Storage_scheme \<Rightarrow> 's RawNode \<Rightarrow> ('s RawNode \<times> Ready) panics" where
  "ready E rn = do {
     let n = rn_max_number rn + 1;
     rn \<leftarrow> drain_records (rn\<lparr>rn_max_number := n\<rparr>);
     let r = rn_raft rn;
     let ss = (if soft_state r \<noteq> rn_prev_ss rn then Some (soft_state r) else None);
     let hs = (if hard_state r \<noteq> rn_prev_hs rn then Some (hard_state r) else None);
     let sync_hs = (hs \<noteq> None \<and> (r_vote r \<noteq> hs_vote (rn_prev_hs rn) \<or> r_term r \<noteq> hs_term (rn_prev_hs rn)));
     (since, snap, snap_rec) \<leftarrow> ready_snapshot E rn;
     let ents = u_entries (unstable (r_log r));
     let rec = \<lparr>rr_number = n,
       rr_last_entry = (if ents \<noteq> [] then Some (e_index (last ents), e_term (last ents)) else None),
       rr_snapshot = snap_rec\<rparr>;
     (rn, light) \<leftarrow> gen_light_ready E (rn\<lparr>rn_raft := r\<lparr>r_read_states := [], r_witness_msgs := []\<rparr>,
       rn_commit_since_index := since\<rparr>);
     Some (rn\<lparr>rn_records := rn_records rn @ [rec]\<rparr>,
       \<lparr>rd_number = n, rd_ss = ss, rd_hs = hs, rd_read_states = r_read_states r, rd_entries = ents,
        rd_snapshot = snap, rd_is_persisted_msg = (r_state r \<noteq> Leader),
        rd_witness_messages = r_witness_msgs r, rd_light = light,
        rd_must_sync = (sync_hs \<or> snap_rec \<noteq> None \<or> ents \<noteq> [])\<rparr>)
   }"

definition has_ready :: "('s, 'm) Storage_scheme \<Rightarrow> 's RawNode \<Rightarrow> bool panics" where
  "has_ready E rn =
     (let r = rn_raft rn
      in if r_msgs r \<noteq> [] then Some True
         else if r_witness_msgs r \<noteq> [] then Some True
         else if soft_state r \<noteq> rn_prev_ss rn then Some True
         else if hard_state r \<noteq> rn_prev_hs rn then Some True
         else if r_read_states r \<noteq> [] then Some True
         else if u_entries (unstable (r_log r)) \<noteq> [] then Some True
         else if (case u_snapshot (unstable (r_log r)) of Some s \<Rightarrow> \<not> snap_is_empty s | None \<Rightarrow> False) then Some True
         else has_next_entries_since E (r_log r) (rn_commit_since_index rn))"

subsection \<open>Advance\<close>

definition commit_ready :: "'s RawNode \<Rightarrow> Ready \<Rightarrow> 's RawNode panics" where
  "commit_ready rn rd = do {
     let rn = (case rd_ss rd of Some ss \<Rightarrow> rn\<lparr>rn_prev_ss := ss\<rparr> | None \<Rightarrow> rn);
     let rn = (case rd_hs rd of Some hs \<Rightarrow> rn\<lparr>rn_prev_hs := hs\<rparr> | None \<Rightarrow> rn);
     ensure (rn_records rn \<noteq> []);
     let rec = last (rn_records rn);
     ensure (rr_number rec = rd_number rd);
     let l = r_log (rn_raft rn);
     l \<leftarrow> (case rr_snapshot rec of Some (i, _) \<Rightarrow> log_stable_snap l i | None \<Rightarrow> Some l);
     l \<leftarrow> (case rr_last_entry rec of Some (i, t) \<Rightarrow> log_stable_entries l i t | None \<Rightarrow> Some l);
     Some (rn\<lparr>rn_raft := (rn_raft rn)\<lparr>r_log := l\<rparr>\<rparr>)
   }"

definition rn_commit_apply :: "('s, 'm) Storage_scheme \<Rightarrow> 's RawNode \<Rightarrow> nat \<Rightarrow> 's RawNode panics" where
  "rn_commit_apply E rn app = on_raft_unit rn (commit_apply E (rn_raft rn) app)"

text \<open>
  The loop of \<open>on_persist_ready\<close>: it pops the records up to \<open>number\<close> and collects the last persisted
  snapshot, and the last entry persisted after it.
\<close>

fun pop_records ::
  "nat \<Rightarrow> ReadyRecord list \<Rightarrow> nat \<times> nat \<times> nat \<Rightarrow> ReadyRecord list \<times> nat \<times> nat \<times> nat" where
  "pop_records number [] acc = ([], acc)"
| "pop_records number (rec # recs) (snap_idx, idx, trm) =
     (if number < rr_number rec then (rec # recs, snap_idx, idx, trm)
      else let (snap_idx, idx, trm) = (case rr_snapshot rec of Some (i, _) \<Rightarrow> (i, 0, 0) | None \<Rightarrow> (snap_idx, idx, trm));
               (idx, trm) = (case rr_last_entry rec of Some (i, t) \<Rightarrow> (i, t) | None \<Rightarrow> (idx, trm))
           in pop_records number recs (snap_idx, idx, trm))"

definition on_persist_ready :: "('s, 'm) Storage_scheme \<Rightarrow> 's RawNode \<Rightarrow> nat \<Rightarrow> 's RawNode panics" where
  "on_persist_ready E rn number =
     (case pop_records number (rn_records rn) (0, 0, 0) of (recs, snap_idx, idx, trm) \<Rightarrow> do {
        let rn = rn\<lparr>rn_records := recs\<rparr>;
        r \<leftarrow> (if snap_idx \<noteq> 0 then on_persist_snap (rn_raft rn) snap_idx else Some (rn_raft rn));
        r \<leftarrow> (if idx \<noteq> 0 then on_persist_entries E r idx trm else Some r);
        Some (rn\<lparr>rn_raft := r\<rparr>)
      })"

text \<open>The end of \<open>advance_append\<close>: the commit index that only became known by persisting.\<close>

definition note_commit :: "'s RawNode \<Rightarrow> LightReady \<Rightarrow> ('s RawNode \<times> LightReady) panics" where
  "note_commit rn light = do {
     let hs = hard_state (rn_raft rn);
     (rn, light) \<leftarrow> (if hs_commit (rn_prev_hs rn) < hs_commit hs
         then Some (rn\<lparr>rn_prev_hs := (rn_prev_hs rn)\<lparr>hs_commit := hs_commit hs\<rparr>\<rparr>,
                    light\<lparr>lr_commit_index := Some (hs_commit hs)\<rparr>)
         else do {
           ensure (hs_commit hs = hs_commit (rn_prev_hs rn));
           Some (rn, light\<lparr>lr_commit_index := None\<rparr>)
         });
     ensure (hs = rn_prev_hs rn);
     Some (rn, light)
   }"

definition advance_append :: "('s, 'm) Storage_scheme \<Rightarrow> 's RawNode \<Rightarrow> Ready \<Rightarrow> ('s RawNode \<times> LightReady) panics" where
  "advance_append E rn rd = do {
     rn \<leftarrow> commit_ready rn rd;
     rn \<leftarrow> on_persist_ready E rn (rn_max_number rn);
     (rn, light) \<leftarrow> gen_light_ready E rn;
     ensure (\<not> (r_state (rn_raft rn) \<noteq> Leader \<and> lr_messages light \<noteq> []));
     note_commit rn light
   }"

definition advance_append_async :: "'s RawNode \<Rightarrow> Ready \<Rightarrow> 's RawNode panics" where
  "advance_append_async rn rd = commit_ready rn rd"

definition advance_apply_to :: "('s, 'm) Storage_scheme \<Rightarrow> 's RawNode \<Rightarrow> nat \<Rightarrow> 's RawNode panics" where
  "advance_apply_to E rn app = rn_commit_apply E rn app"

definition advance_apply :: "('s, 'm) Storage_scheme \<Rightarrow> 's RawNode \<Rightarrow> 's RawNode panics" where
  "advance_apply E rn = rn_commit_apply E rn (rn_commit_since_index rn)"

definition rn_advance :: "('s, 'm) Storage_scheme \<Rightarrow> 's RawNode \<Rightarrow> Ready \<Rightarrow> ('s RawNode \<times> LightReady) panics" where
  "rn_advance E rn rd = do {
     let app = rn_commit_since_index rn;
     (rn, light) \<leftarrow> advance_append E rn rd;
     rn \<leftarrow> advance_apply_to E rn app;
     Some (rn, light)
   }"

subsection \<open>Reports and requests\<close>

definition report_unreachable :: "('s, 'm) Env_scheme \<Rightarrow> 's RawNode \<Rightarrow> nat \<Rightarrow> 's RawNode panics" where
  "report_unreachable E rn i = map_option fst
     (on_raft rn (step E (rn_raft rn) (Message_default\<lparr>msg_type := MsgUnreachable, m_from := i\<rparr>)))"

definition report_snapshot :: "('s, 'm) Env_scheme \<Rightarrow> 's RawNode \<Rightarrow> nat \<Rightarrow> SnapshotStatus \<Rightarrow> 's RawNode panics" where
  "report_snapshot E rn i st = map_option fst
     (on_raft rn (step E (rn_raft rn)
       (Message_default\<lparr>msg_type := MsgSnapStatus, m_from := i, m_reject := (st = Failure)\<rparr>)))"

definition rn_request_snapshot :: "('s, 'm) Env_scheme \<Rightarrow> 's RawNode \<Rightarrow> 's rn_result" where
  "rn_request_snapshot E rn = on_raft rn (request_snapshot E (rn_raft rn))"

definition transfer_leader :: "('s, 'm) Env_scheme \<Rightarrow> 's RawNode \<Rightarrow> nat \<Rightarrow> 's RawNode panics" where
  "transfer_leader E rn transferee = map_option fst
     (on_raft rn (step E (rn_raft rn) (Message_default\<lparr>msg_type := MsgTransferLeader, m_from := transferee\<rparr>)))"

definition read_index :: "('s, 'm) Env_scheme \<Rightarrow> 's RawNode \<Rightarrow> bytes \<Rightarrow> 's RawNode panics" where
  "read_index E rn rctx = map_option fst
     (on_raft rn (step E (rn_raft rn)
       (Message_default\<lparr>msg_type := MsgReadIndex, m_entries := [Entry_default\<lparr>e_data := rctx\<rparr>]\<rparr>)))"

record Status =
  status_id :: nat
  status_hs :: HardState
  status_ss :: SoftState
  status_applied :: nat
  status_progress :: "ProgressTracker option"

definition Status_new :: "'s Raft \<Rightarrow> Status" where
  "Status_new r = \<lparr>status_id = r_id r, status_hs = hard_state r, status_ss = soft_state r,
     status_applied = applied (r_log r), status_progress = (if r_state r = Leader then Some (r_prs r) else None)\<rparr>"

subsection \<open>What a ready holds\<close>

text \<open>The log can be read from the position after \<open>since\<close>: nothing that is still to be delivered is compacted.\<close>

definition readable ::
  "('s \<Rightarrow> bool) \<Rightarrow> ('s \<Rightarrow> nat) \<Rightarrow> ('s \<Rightarrow> Entry list) \<Rightarrow> 's RaftLog \<Rightarrow> nat \<Rightarrow> bool" where
  "readable st_inv st_first st_ents l since \<longleftrightarrow> log_wf st_inv st_first st_ents l \<and> log_first st_first l \<le> since + 1"

lemma reduce_uncommitted_size_frame [simp]:
  "r_log (reduce_uncommitted_size r es) = r_log r" "r_msgs (reduce_uncommitted_size r es) = r_msgs r"
  "r_state (reduce_uncommitted_size r es) = r_state r" "r_term (reduce_uncommitted_size r es) = r_term r"
  "r_vote (reduce_uncommitted_size r es) = r_vote r" "r_id (reduce_uncommitted_size r es) = r_id r"
  "r_leader_id (reduce_uncommitted_size r es) = r_leader_id r"
  by (simp_all add: reduce_uncommitted_size_def)

lemma reduce_uncommitted_size_Nil [simp]: "reduce_uncommitted_size r [] = r"
  by (simp add: reduce_uncommitted_size_def us_maybe_reduce_def)

text \<open>The entries of a light ready, from the log contract.\<close>

lemma next_entries_readable:
  assumes "storage E st_inv st_first st_ents" "readable st_inv st_first st_ents l since"
  shows "\<exists>es. next_entries_since E l since mx = Some (if es = [] then None else Some es) \<and>
    has_next_entries_since E l since = Some (es \<noteq> []) \<and> contiguous e_index (since + 1) es \<and>
    (\<forall>e \<in> set es. e_index e \<le> committed l)"
proof -
  have wf: "log_wf st_inv st_first st_ents l" and m: "max (since + 1) (log_first st_first l) = since + 1"
    using assms(2) by (simp_all add: readable_def)
  from storage.next_entries_bounds [OF assms(1) wf, of since mx] obtain r where
    r: "next_entries_since E l since mx = Some r" "has_next_entries_since E l since = Some (r \<noteq> None)"
       "case r of None \<Rightarrow> True | Some es \<Rightarrow> es \<noteq> [] \<and> contiguous e_index (since + 1) es \<and>
          (\<forall>e \<in> set es. e_index e \<le> committed l \<and> e_index e \<le> persisted l + max_apply_unpersisted_log_limit l)"
    unfolding m by blast
  show ?thesis
  proof (cases r)
    case None
    then show ?thesis using r(1,2) by (intro exI [of _ "[]"]) simp
  next
    case (Some es)
    then show ?thesis using r by (intro exI [of _ es]) simp
  qed
qed

text \<open>What one call of \<open>gen_light_ready\<close> delivers: the entries after \<open>since\<close>, in order, all committed.\<close>

definition delivers :: "nat \<Rightarrow> nat \<Rightarrow> Entry list \<Rightarrow> nat \<Rightarrow> bool" where
  "delivers since commit es since' \<longleftrightarrow> contiguous e_index (since + 1) es \<and> since' = since + length es \<and>
     (\<forall>e \<in> set es. e_index e \<le> commit)"

lemma gen_light_ready_exact:
  assumes "storage E st_inv st_first st_ents"
    and "readable st_inv st_first st_ents (r_log (rn_raft rn)) (rn_commit_since_index rn)"
  shows "\<exists>rn' light. gen_light_ready E rn = Some (rn', light) \<and>
    delivers (rn_commit_since_index rn) (committed (r_log (rn_raft rn))) (lr_committed_entries light)
      (rn_commit_since_index rn') \<and>
    has_next_entries_since E (r_log (rn_raft rn)) (rn_commit_since_index rn) =
      Some (lr_committed_entries light \<noteq> [])"
proof -
  obtain es where es: "next_entries_since E (r_log (rn_raft rn)) (rn_commit_since_index rn)
      (Some (r_max_committed_size_per_ready (rn_raft rn))) = Some (if es = [] then None else Some es)"
    "has_next_entries_since E (r_log (rn_raft rn)) (rn_commit_since_index rn) = Some (es \<noteq> [])"
    "contiguous e_index (rn_commit_since_index rn + 1) es" "\<forall>e \<in> set es. e_index e \<le> committed (r_log (rn_raft rn))"
    using next_entries_readable [OF assms] by blast
  show ?thesis
  proof (cases "es = []")
    case True
    then show ?thesis using es by (simp add: gen_light_ready_def delivers_def LightReady_default_def Let_def)
  next
    case False
    then have "e_index (last es) = rn_commit_since_index rn + length es"
      using contiguous_last [OF es(3)] by simp
    then show ?thesis
      using False es by (simp add: gen_light_ready_def delivers_def LightReady_default_def Let_def ensure_def)
  qed
qed

lemma gen_light_ready_log:
  "gen_light_ready E rn = Some (rn', light) \<Longrightarrow> r_log (rn_raft rn') = r_log (rn_raft rn)"
  by (auto simp: gen_light_ready_def Let_def elim!: bind_SomeE)

lemma gen_light_ready_msgs:
  "gen_light_ready E rn = Some (rn', light) \<Longrightarrow>
    lr_messages light = r_msgs (rn_raft rn) \<and> r_msgs (rn_raft rn') = []"
  by (auto simp: gen_light_ready_def Let_def elim!: bind_SomeE)

lemma drain_records_frame:
  "drain_records rn = Some rn' \<Longrightarrow> rn_raft rn' = rn_raft rn \<and> rn_prev_ss rn' = rn_prev_ss rn \<and>
    rn_prev_hs rn' = rn_prev_hs rn \<and> rn_commit_since_index rn' = rn_commit_since_index rn"
  by (auto simp: drain_records_def elim!: bind_SomeE split: if_split_asm)

lemma ready_delivers:
  assumes "storage E st_inv st_first st_ents" "ready E rn = Some (rn', rd)"
    and "u_snapshot (unstable (r_log (rn_raft rn))) = None"
    and "readable st_inv st_first st_ents (r_log (rn_raft rn)) (rn_commit_since_index rn)"
  shows "r_log (rn_raft rn') = r_log (rn_raft rn) \<and>
    delivers (rn_commit_since_index rn) (committed (r_log (rn_raft rn)))
      (lr_committed_entries (rd_light rd)) (rn_commit_since_index rn')"
proof -
  obtain rn1 where d: "drain_records (rn\<lparr>rn_max_number := rn_max_number rn + 1\<rparr>) = Some rn1"
    using assms(2) by (auto simp: ready_def Let_def elim!: bind_SomeE)
  then have rn1: "rn_raft rn1 = rn_raft rn" "rn_commit_since_index rn1 = rn_commit_since_index rn"
    by (simp_all add: drain_records_frame)
  let ?rn2 = "rn1\<lparr>rn_raft := (rn_raft rn)\<lparr>r_read_states := [], r_witness_msgs := []\<rparr>,
    rn_commit_since_index := rn_commit_since_index rn\<rparr>"
  obtain rn3 where g: "gen_light_ready E ?rn2 = Some (rn3, rd_light rd)"
    and rn': "rn_raft rn' = rn_raft rn3" "rn_commit_since_index rn' = rn_commit_since_index rn3"
    using assms(2,3) d rn1 by (auto simp: ready_def ready_snapshot_def Let_def elim!: bind_SomeE split: prod.split_asm)
  have "readable st_inv st_first st_ents (r_log (rn_raft ?rn2)) (rn_commit_since_index ?rn2)" using assms(4) by simp
  from gen_light_ready_exact [OF assms(1) this] g gen_light_ready_log [OF g] rn' show ?thesis by auto
qed

lemma commit_ready_frame:
  "commit_ready rn rd = Some rn' \<Longrightarrow> rn_commit_since_index rn' = rn_commit_since_index rn \<and>
    committed (r_log (rn_raft rn')) = committed (r_log (rn_raft rn))"
  by (auto simp: commit_ready_def log_stable_snap_def log_stable_entries_def Let_def elim!: bind_SomeE
      split: option.split_asm prod.split_asm)

lemma on_persist_ready_frame:
  "on_persist_ready E rn n = Some rn' \<Longrightarrow> rn_commit_since_index rn' = rn_commit_since_index rn \<and>
    committed (r_log (rn_raft rn)) \<le> committed (r_log (rn_raft rn'))"
  by (auto simp: on_persist_ready_def Let_def raft_mono_def elim!: bind_SomeE split: prod.split_asm if_split_asm
      dest!: on_persist_snap_mono on_persist_entries_mono)

lemma note_commit_frame:
  "note_commit rn light = Some (rn', light') \<Longrightarrow> rn_raft rn' = rn_raft rn \<and> rn_prev_hs rn' = hard_state (rn_raft rn) \<and>
    rn_commit_since_index rn' = rn_commit_since_index rn \<and> rn_records rn' = rn_records rn \<and>
    lr_committed_entries light' = lr_committed_entries light \<and> lr_messages light' = lr_messages light"
  by (simp add: note_commit_def Let_def ensure_def split: if_split_asm) auto

lemma advance_append_delivers:
  assumes "storage E st_inv st_first st_ents" "advance_append E rn rd = Some (rn', light)"
    and "readable st_inv st_first st_ents (r_log (rn_raft rn')) (rn_commit_since_index rn)"
  shows "committed (r_log (rn_raft rn)) \<le> committed (r_log (rn_raft rn')) \<and>
    delivers (rn_commit_since_index rn) (committed (r_log (rn_raft rn')))
      (lr_committed_entries light) (rn_commit_since_index rn')"
proof -
  obtain rn1 rn2 rn3 l3 where c: "commit_ready rn rd = Some rn1"
    and p: "on_persist_ready E rn1 (rn_max_number rn1) = Some rn2" and g: "gen_light_ready E rn2 = Some (rn3, l3)"
    and rn': "rn_raft rn' = rn_raft rn3" "rn_commit_since_index rn' = rn_commit_since_index rn3"
      "lr_committed_entries light = lr_committed_entries l3"
    using assms(2) by (auto simp: advance_append_def elim!: bind_SomeE split: prod.split_asm dest!: note_commit_frame)
  note f = commit_ready_frame [OF c] on_persist_ready_frame [OF p] gen_light_ready_log [OF g]
  have "readable st_inv st_first st_ents (r_log (rn_raft rn2)) (rn_commit_since_index rn2)"
    using assms(3) rn' f by simp
  from gen_light_ready_exact [OF assms(1) this] g f rn' show ?thesis by auto
qed

subsection \<open>Application by the host\<close>

text \<open>
  What a host does between two points in time: it drives the node in any way, takes readies without a snapshot,
  and advances in any of the ways of the interface.  The list holds the committed entries handed out meanwhile.
\<close>

inductive host_run ::
  "'s Env \<Rightarrow> ('s \<Rightarrow> bool) \<Rightarrow> ('s \<Rightarrow> nat) \<Rightarrow> ('s \<Rightarrow> Entry list) \<Rightarrow> 's RawNode \<Rightarrow> Entry list \<Rightarrow> 's RawNode \<Rightarrow> bool"
  for E i f g rn where
  hr_refl: "host_run E i f g rn [] rn"
| hr_node: "host_run E i f g rn ds rn1 \<Longrightarrow> node_step E (rn_raft rn1) r \<Longrightarrow>
    host_run E i f g rn ds (rn1\<lparr>rn_raft := r\<rparr>)"
| hr_ready: "host_run E i f g rn ds rn1 \<Longrightarrow> ready E rn1 = Some (rn2, rd) \<Longrightarrow>
    u_snapshot (unstable (r_log (rn_raft rn1))) = None \<Longrightarrow>
    readable i f g (r_log (rn_raft rn1)) (rn_commit_since_index rn1) \<Longrightarrow>
    host_run E i f g rn (ds @ lr_committed_entries (rd_light rd)) rn2"
| hr_append: "host_run E i f g rn ds rn1 \<Longrightarrow> advance_append E rn1 rd = Some (rn2, light) \<Longrightarrow>
    readable i f g (r_log (rn_raft rn2)) (rn_commit_since_index rn1) \<Longrightarrow>
    host_run E i f g rn (ds @ lr_committed_entries light) rn2"
| hr_async: "host_run E i f g rn ds rn1 \<Longrightarrow> advance_append_async rn1 rd = Some rn2 \<Longrightarrow> host_run E i f g rn ds rn2"
| hr_persist: "host_run E i f g rn ds rn1 \<Longrightarrow> on_persist_ready E rn1 n = Some rn2 \<Longrightarrow> host_run E i f g rn ds rn2"

lemma contiguous_iff_map: "contiguous key f xs \<longleftrightarrow> map key xs = [f..<f + length xs]"
  by (induction xs arbitrary: f) (auto simp: contiguous_Cons upt_conv_Cons simp del: upt_Suc)

lemma delivers_append:
  assumes "delivers a c xs b" "delivers b d ys e" "c \<le> d"
  shows "delivers a d (xs @ ys) e"
  using assms unfolding delivers_def
  by (auto simp: contiguous_append dest: le_trans [OF _ assms(3)])

lemma delivers_mono: "delivers a c xs b \<Longrightarrow> c \<le> d \<Longrightarrow> delivers a d xs b"
  by (auto simp: delivers_def)

lemma host_run_delivers:
  assumes "host_run E i f g rn ds rn'" "storage E i f g"
  shows "delivers (rn_commit_since_index rn) (committed (r_log (rn_raft rn'))) ds (rn_commit_since_index rn')"
  using assms(1)
proof induction
  case hr_refl
  show ?case by (simp add: delivers_def)
next
  case (hr_node ds rn1 r)
  then show ?case using node_step_mono [OF hr_node.hyps(2)] by (auto simp: raft_mono_def elim: delivers_mono)
next
  case (hr_ready ds rn1 rn2 rd)
  then show ?case using ready_delivers [OF assms(2) hr_ready.hyps(2-4)] by (auto elim: delivers_append)
next
  case (hr_append ds rn1 rd rn2 light)
  then show ?case using advance_append_delivers [OF assms(2) hr_append.hyps(2,3)] by (auto elim: delivers_append)
next
  case (hr_async ds rn1 rd rn2)
  then show ?case by (auto simp: advance_append_async_def dest!: commit_ready_frame)
next
  case (hr_persist ds rn1 n rn2)
  then show ?case by (auto dest!: on_persist_ready_frame elim: delivers_mono)
qed

text \<open>C11: the host applies every committed entry exactly once and in order.  Along any run of a raw node without
  snapshots, the committed entries handed out by the readies are consecutive from the position after the one applied
  at the start, there is no gap and no repetition, each is at or below the commit index, and the position the node
  remembers is the last one handed out.\<close>

theorem host_applies_in_order:
  assumes "host_run E st_inv st_first st_ents rn ds rn'" "storage E st_inv st_first st_ents"
  shows "map e_index ds = [rn_commit_since_index rn + 1 ..< rn_commit_since_index rn + 1 + length ds] \<and>
    rn_commit_since_index rn' = rn_commit_since_index rn + length ds \<and>
    (\<forall>e \<in> set ds. e_index e \<le> committed (r_log (rn_raft rn')))"
  using host_run_delivers [OF assms] by (simp add: delivers_def contiguous_iff_map)

lemma ex_env_storage: "storage ex_env mem_inv mem_first_index ms_entries"
  using mem.storage_axioms [of "\<lambda>e. 1"] unfolding storage_def by (simp add: ex_env_def Storage.extend_def)

definition ex_node :: "MemStorageCore Raft \<Rightarrow> MemStorageCore RawNode" where
  "ex_node r = \<lparr>rn_raft = r, rn_prev_ss = soft_state r, rn_prev_hs = hard_state r, rn_max_number = 0, rn_records = [],
     rn_commit_since_index = 0\<rparr>"

theorem host_applies_in_order_witness:
  defines "rn \<equiv> ex_node (ex_raft 1 Follower ex_tracker)"
  defines "rn' \<equiv> state_after (ready ex_env rn)"
  shows "rn_commit_since_index rn' = 1 \<and>
    map e_index (lr_committed_entries (rd_light (snd (the (ready ex_env rn))))) = [1]"
proof -
  let ?rd = "snd (the (ready ex_env rn))"
  have h: "ready ex_env rn \<noteq> None" "u_snapshot (unstable (r_log (rn_raft rn))) = None"
    "rn_commit_since_index rn = 0" "length (lr_committed_entries (rd_light ?rd)) = 1"
    unfolding rn_def by code_simp+
  have "readable mem_inv mem_first_index ms_entries (r_log (rn_raft rn)) (rn_commit_since_index rn)"
    using ex_log_wf by (simp add: rn_def ex_node_def ex_raft_def readable_def log_wf_def log_first_def Unstable_new_def)
  from hr_ready [OF hr_refl state_after_Some [OF h(1), folded rn'_def] h(2) this]
  have "host_run ex_env mem_inv mem_first_index ms_entries rn (lr_committed_entries (rd_light ?rd)) rn'" by simp
  from host_applies_in_order [OF this ex_env_storage] h(3,4) show ?thesis by simp
qed

subsection \<open>What must be persisted first\<close>

text \<open>C12: nothing a node that is not leader says leaves before what it rests on is persisted.  Its messages to other nodes (those to a witness are
  handed out apart) are all in the part to be sent after persisting; a changed vote or term is in the hard state to write and asks for a
  synchronous write, as does any new entry or snapshot; and the node's messages are handed out exactly once.\<close>

theorem ready_persist_before_send:
  assumes "ready E rn = Some (rn', rd)"
  shows "(r_state (rn_raft rn) \<noteq> Leader \<longrightarrow> rd_messages rd = [] \<and> rd_persisted_messages rd = r_msgs (rn_raft rn)) \<and>
    (r_state (rn_raft rn) = Leader \<longrightarrow> rd_messages rd = r_msgs (rn_raft rn) \<and> rd_persisted_messages rd = []) \<and>
    r_msgs (rn_raft rn') = [] \<and>
    rd_hs rd = (if hard_state (rn_raft rn) = rn_prev_hs rn then None else Some (hard_state (rn_raft rn))) \<and>
    rd_entries rd = u_entries (unstable (r_log (rn_raft rn))) \<and>
    (rd_must_sync rd \<longleftrightarrow> r_vote (rn_raft rn) \<noteq> hs_vote (rn_prev_hs rn) \<or> r_term (rn_raft rn) \<noteq> hs_term (rn_prev_hs rn) \<or>
       rd_entries rd \<noteq> [] \<or> u_snapshot (unstable (r_log (rn_raft rn))) \<noteq> None)"
proof -
  have s: "(rec \<noteq> None) = (u_snapshot (unstable (r_log (rn_raft b))) \<noteq> None)"
    if "ready_snapshot E b = Some (i, sn, rec)" for b i sn rec
    using that by (auto simp: ready_snapshot_def elim!: bind_SomeE split: option.split_asm)
  have hs: "hard_state r = h \<Longrightarrow> r_vote r = hs_vote h \<and> r_term r = hs_term h" for r :: "'a Raft" and h
    by (auto simp: hard_state_def)
  obtain rn1 i sn rec rn2 l where "drain_records (rn\<lparr>rn_max_number := rn_max_number rn + 1\<rparr>) = Some rn1"
    "ready_snapshot E rn1 = Some (i, sn, rec)"
    "gen_light_ready E (rn1\<lparr>rn_raft := (rn_raft rn1)\<lparr>r_read_states := [], r_witness_msgs := []\<rparr>,
       rn_commit_since_index := i\<rparr>) = Some (rn2, l)"
    using assms by (auto simp: ready_def Let_def elim!: bind_SomeE split: prod.split_asm)
  with assms drain_records_frame [of "rn\<lparr>rn_max_number := rn_max_number rn + 1\<rparr>" rn1] gen_light_ready_msgs s show ?thesis
    by (fastforce simp: ready_def Let_def rd_messages_def rd_persisted_messages_def dest: hs)
qed

text \<open>A follower that has just granted its vote: the answer waits for the synchronous write of the vote.\<close>

theorem ready_persist_before_send_witness:
  defines "r \<equiv> ex_raft 1 Follower ex_tracker"
  defines "rn \<equiv> (ex_node r)\<lparr>rn_raft := state_after (step ex_env r (ex_vote 2 2 2))\<rparr>"
  defines "rn' \<equiv> state_after (ready ex_env rn)" and "rd \<equiv> snd (the (ready ex_env rn))"
  shows "r_msgs (rn_raft rn) \<noteq> [] \<and> rd_messages rd = [] \<and> rd_persisted_messages rd = r_msgs (rn_raft rn) \<and>
    rd_must_sync rd \<and> map_option hs_vote (rd_hs rd) = Some 2"
proof -
  have h: "ready ex_env rn \<noteq> None" "r_state (rn_raft rn) \<noteq> Leader" "r_msgs (rn_raft rn) \<noteq> []"
    "r_vote (rn_raft rn) \<noteq> hs_vote (rn_prev_hs rn)" "hs_vote (hard_state (rn_raft rn)) = 2"
    "hard_state (rn_raft rn) \<noteq> rn_prev_hs rn"
    unfolding rn_def r_def by code_simp+
  show ?thesis
    using ready_persist_before_send [OF state_after_Some [OF h(1), folded rn'_def rd_def]] h(2-6) by simp
qed

text \<open>A ready that asks nothing of the host.\<close>

definition nothing_ready :: "Ready \<Rightarrow> bool" where
  "nothing_ready rd \<longleftrightarrow> rd_ss rd = None \<and> rd_hs rd = None \<and> rd_read_states rd = [] \<and> rd_entries rd = [] \<and>
     snap_is_empty (rd_snapshot rd) \<and> rd_witness_messages rd = [] \<and> lr_committed_entries (rd_light rd) = [] \<and>
     lr_messages (rd_light rd) = []"

text \<open>C38: \<open>has_ready\<close> announces work exactly: on a readable log it is true if and only if the ready that follows
  holds something to do.\<close>

theorem has_ready_exact:
  assumes "storage E st_inv st_first st_ents"
    and "readable st_inv st_first st_ents (r_log (rn_raft rn)) (rn_commit_since_index rn)"
    and "ready E rn = Some (rn', rd)"
  shows "has_ready E rn = Some (\<not> nothing_ready rd)"
proof -
  let ?l = "r_log (rn_raft rn)"
  obtain rn1 where d: "drain_records (rn\<lparr>rn_max_number := rn_max_number rn + 1\<rparr>) = Some rn1"
    using assms(3) by (auto simp: ready_def Let_def elim!: bind_SomeE)
  then have rn1: "rn_raft rn1 = rn_raft rn" "rn_commit_since_index rn1 = rn_commit_since_index rn"
    "rn_prev_ss rn1 = rn_prev_ss rn" "rn_prev_hs rn1 = rn_prev_hs rn"
    by (simp_all add: drain_records_frame)
  obtain i sn rec rn3 where s: "ready_snapshot E rn1 = Some (i, sn, rec)"
    and g: "gen_light_ready E (rn1\<lparr>rn_raft := (rn_raft rn)\<lparr>r_read_states := [], r_witness_msgs := []\<rparr>,
       rn_commit_since_index := i\<rparr>) = Some (rn3, rd_light rd)"
    and rd: "rd_ss rd = (if soft_state (rn_raft rn) \<noteq> rn_prev_ss rn then Some (soft_state (rn_raft rn)) else None)"
      "rd_hs rd = (if hard_state (rn_raft rn) \<noteq> rn_prev_hs rn then Some (hard_state (rn_raft rn)) else None)"
      "rd_read_states rd = r_read_states (rn_raft rn)" "rd_entries rd = u_entries (unstable ?l)" "rd_snapshot rd = sn"
      "rd_witness_messages rd = r_witness_msgs (rn_raft rn)"
    using assms(3) d rn1 by (auto simp: ready_def Let_def elim!: bind_SomeE split: prod.split_asm)
  have m: "lr_messages (rd_light rd) = r_msgs (rn_raft rn)"
    using gen_light_ready_msgs [OF g] by simp
  obtain b where b: "has_next_entries_since E ?l (rn_commit_since_index rn) = Some b"
    using next_entries_readable [OF assms(1,2)] by blast
  have "snap_is_empty sn \<longrightarrow> i = rn_commit_since_index rn"
    using s rn1 by (auto simp: ready_snapshot_def snap_is_empty_def elim!: bind_SomeE split: option.split_asm)
  then have e: "snap_is_empty sn \<longrightarrow> b = (lr_committed_entries (rd_light rd) \<noteq> [])"
    using gen_light_ready_exact [OF assms(1), of "rn1\<lparr>rn_raft := (rn_raft rn)\<lparr>r_read_states := [], r_witness_msgs := []\<rparr>,
       rn_commit_since_index := i\<rparr>"] assms(2) g b by auto
  have "snap_is_empty sn = (case u_snapshot (unstable ?l) of Some s \<Rightarrow> snap_is_empty s | None \<Rightarrow> True)"
    using s rn1 by (auto simp: ready_snapshot_def snap_is_empty_def Snapshot_default_def SnapshotMetadata_default_def
        elim!: bind_SomeE split: option.split_asm)
  with rd m b e show ?thesis
    by (auto simp: has_ready_def nothing_ready_def Let_def split: option.split_asm)
qed

theorem has_ready_exact_witness:
  defines "rn \<equiv> (ex_node (ex_raft 1 Follower ex_tracker))\<lparr>rn_commit_since_index := 1\<rparr>"
  shows "has_ready ex_env rn = Some False"
proof -
  have h: "ready ex_env rn \<noteq> None" "nothing_ready (snd (the (ready ex_env rn)))" unfolding rn_def by code_simp+
  have "readable mem_inv mem_first_index ms_entries (r_log (rn_raft rn)) (rn_commit_since_index rn)"
    using ex_log_wf by (simp add: rn_def ex_node_def ex_raft_def readable_def log_wf_def log_first_def Unstable_new_def)
  from has_ready_exact [OF ex_env_storage this state_after_Some [OF h(1)]] h(2) show ?thesis by simp
qed

end
