(* ===== verification/Host_Runs.thy ===== *)
theory Host_Runs
  imports Raft_Cluster Raft_Membership Raw_Node
begin

section \<open>What a host does is a run of the node\<close>

text \<open>
  A host sees a node through \<^verbatim>\<open>RawNode\<close>, or through the interface of the test harness.  Every operation of them is a
  sequence of the operations \<open>node_op\<close> of the node, with the messages of the node handed out in between; so what holds
  along all schedules of the cluster holds for the hosts.
\<close>

subsection \<open>Runs that hand out messages\<close>

text \<open>An operation of a node that keeps its voters.\<close>

definition voter_op :: "JointConfig \<Rightarrow> 's Env \<Rightarrow> 's Raft \<Rightarrow> 's Raft \<Rightarrow> bool" where
  "voter_op V E r r' \<longleftrightarrow> node_op E r r' \<and> voters (members r') = V"

abbreviation cluster_run :: "JointConfig \<Rightarrow> nat set \<Rightarrow> 's Cluster \<Rightarrow> 's Cluster \<Rightarrow> bool" where
  "cluster_run V W \<equiv> (cluster_step V W)\<^sup>*\<^sup>*"

inductive wire_run :: "JointConfig \<Rightarrow> 's Env \<Rightarrow> 's Raft \<Rightarrow> Message list \<Rightarrow> 's Raft \<Rightarrow> bool" for V E where
  wire_refl: "wire_run V E r [] r"
| wire_op: "wire_run V E r ms s \<Longrightarrow> voter_op V E s t \<Longrightarrow> wire_run V E r ms t"
| wire_send: "wire_run V E r ms s \<Longrightarrow> wire_run V E r (ms @ r_msgs s) (s\<lparr>r_msgs := []\<rparr>)"

declare wire_refl [simp]

lemma wire_run_trans:
  assumes "wire_run V E s ns t" "wire_run V E r ms s"
  shows "wire_run V E r (ms @ ns) t"
  using assms
proof (induction rule: wire_run.induct)
  case (wire_send s ns t)
  from wire_run.wire_send [OF wire_send.IH [OF wire_send.prems]] show ?case by simp
qed (auto intro: wire_run.intros)

lemma wire_run_trans0: "wire_run V E r [] s \<Longrightarrow> wire_run V E s ns t \<Longrightarrow> wire_run V E r ns t"
  using wire_run_trans [of V E s ns t r "[]"] by simp

lemma wire_run1: "voter_op V E r s \<Longrightarrow> wire_run V E r [] s"
  by (rule wire_op [OF wire_refl])

lemma wire_run_voters: "wire_run V E r ms r' \<Longrightarrow> voters (members r) = V \<Longrightarrow> voters (members r') = V"
  by (induction rule: wire_run.induct) (auto simp: voter_op_def)

lemma wire_run_asks: "wire_run V E r ms r' \<Longrightarrow> asks r r'"
  by (induction rule: wire_run.induct) (auto simp: voter_op_def intro: grows_trans node_op_asks)

text \<open>A run of a host is one of the cluster: the messages it hands out are on the wire.\<close>

lemma wire_run_cluster:
  assumes "wire_run V E r ms r'" "nodes c i = r" "0 < i" "i \<notin> W" "voters (members r) = V"
  shows "\<exists>c'. cluster_run V W c c' \<and> nodes c' = (nodes c)(i := r') \<and> wire c' = wire c \<union> set ms \<and> wits c' = wits c"
  using assms
proof (induction rule: wire_run.induct)
  case (wire_refl r)
  then have "cluster_run V W c c \<and> nodes c = (nodes c)(i := r) \<and> wire c = wire c \<union> set [] \<and> wits c = wits c" by auto
  then show ?case by blast
next
  case (wire_op r ms s t)
  then obtain c' where c': "cluster_run V W c c'" "nodes c' = (nodes c)(i := s)" "wire c' = wire c \<union> set ms" "wits c' = wits c"
    by blast
  have "cluster_step V W c' (put_node i t c')"
    using wire_op c'(2) by (intro operate [where E = E]) (auto simp: voter_op_def)
  with c' have "cluster_run V W c (put_node i t c') \<and> nodes (put_node i t c') = (nodes c)(i := t) \<and>
      wire (put_node i t c') = wire c \<union> set ms \<and> wits (put_node i t c') = wits c"
    by (auto simp: put_node_def)
  then show ?case by blast
next
  case (wire_send r ms s)
  then obtain c' where c': "cluster_run V W c c'" "nodes c' = (nodes c)(i := s)" "wire c' = wire c \<union> set ms" "wits c' = wits c"
    by blast
  have v: "voters (members s) = V" using wire_run_voters wire_send by blast
  let ?c1 = "c'\<lparr>wire := wire c' \<union> set (r_msgs (nodes c' i))\<rparr>" and ?t = "s\<lparr>r_msgs := []\<rparr>"
  have "cluster_step V W c' ?c1" using wire_send by (intro cluster_step.send) auto
  moreover have "cluster_step V W ?c1 (put_node i ?t ?c1)"
    using wire_send c'(2) do_take_msgs [of E s] v by (intro operate [where E = E]) auto
  ultimately have "cluster_run V W c (put_node i ?t ?c1)" using c'(1) by (meson rtranclp.rtrancl_into_rtrancl)
  moreover have "nodes (put_node i ?t ?c1) = (nodes c)(i := ?t)" "wits (put_node i ?t ?c1) = wits c"
    "wire (put_node i ?t ?c1) = wire c \<union> set (ms @ r_msgs s)"
    using c' by (auto simp: put_node_def)
  ultimately show ?case by blast
qed

subsection \<open>The operations of a raw node\<close>

lemma op_run: "node_op E r r' \<Longrightarrow> voters (members r') = V \<Longrightarrow> wire_run V E r [] r'"
  by (intro wire_run1) (simp add: voter_op_def)

lemma reduce_uncommitted_size_members [simp]:
  "members (reduce_uncommitted_size r es) = members r" "r_msgs (reduce_uncommitted_size r es) = r_msgs r"
  "r_witness_msgs (reduce_uncommitted_size r es) = r_witness_msgs r"
  by (simp_all add: reduce_uncommitted_size_def)

lemma take_run:
  assumes "voters (members r) = V"
  shows "wire_run V E r (r_msgs r) ((reduce_uncommitted_size r es)\<lparr>r_msgs := []\<rparr>)"
proof -
  have "wire_run V E r [] (reduce_uncommitted_size r es)" by (rule op_run [OF do_set]) (use assms in auto)
  from wire_send [OF this] show ?thesis by simp
qed

lemma gen_light_ready_run:
  assumes "gen_light_ready E rn = Some (rn', light)" "voters (members (rn_raft rn)) = V"
  shows "wire_run V E (rn_raft rn) (lr_messages light) (rn_raft rn') \<and> r_witness_msgs (rn_raft rn') = r_witness_msgs (rn_raft rn)"
  using assms take_run [OF assms(2)]
  by (auto simp: gen_light_ready_def Let_def LightReady_default_def elim!: bind_SomeE split: if_split_asm)

lemma ready_run:
  assumes "ready E rn = Some (rn', rd)" "voters (members (rn_raft rn)) = V"
  shows "wire_run V E (rn_raft rn) (lr_messages (rd_light rd)) (rn_raft rn') \<and>
    rd_witness_messages rd = r_witness_msgs (rn_raft rn) \<and> r_witness_msgs (rn_raft rn') = []"
proof -
  let ?r = "rn_raft rn"
  let ?r1 = "?r\<lparr>r_read_states := []\<rparr>" and ?r2 = "?r\<lparr>r_read_states := [], r_witness_msgs := []\<rparr>"
  obtain rn2 rn3 where g: "gen_light_ready E rn2 = Some (rn3, rd_light rd)" "rn_raft rn2 = ?r2" "rn_raft rn' = rn_raft rn3"
      "rd_witness_messages rd = r_witness_msgs ?r"
    using assms(1) by (auto simp: ready_def Let_def elim!: bind_SomeE split: prod.split_asm dest!: drain_records_frame intro!: that)
  have "wire_run V E ?r [] ?r1" by (rule op_run [OF do_take_read_states]) (use assms(2) in simp)
  moreover have "voter_op V E ?r1 ?r2" using do_take_witness_msgs [of E ?r1] assms(2) by (simp add: voter_op_def)
  ultimately have "wire_run V E ?r [] ?r2" by (rule wire_op)
  with gen_light_ready_run [OF g(1)] g assms(2) show ?thesis by (auto intro: wire_run_trans0)
qed

lemma commit_ready_run:
  assumes "commit_ready rn rd = Some rn'" "voters (members (rn_raft rn)) = V"
  shows "wire_run V E (rn_raft rn) [] (rn_raft rn')"
proof -
  let ?r = "rn_raft rn"
  obtain rec :: ReadyRecord and l l' where l: "(case rr_snapshot rec of Some (i, _) \<Rightarrow> log_stable_snap (r_log ?r) i | None \<Rightarrow> Some (r_log ?r)) = Some l"
    and l': "(case rr_last_entry rec of Some (i, t) \<Rightarrow> log_stable_entries l i t | None \<Rightarrow> Some l) = Some l'"
    and rn': "rn_raft rn' = ?r\<lparr>r_log := l'\<rparr>"
    using assms(1) that [of "last (rn_records rn)"]
    by (cases "rd_ss rd"; cases "rd_hs rd") (auto simp: commit_ready_def Let_def elim!: bind_SomeE cong: option.case_cong)
  have "wire_run V E ?r [] (?r\<lparr>r_log := l\<rparr>)"
  proof (cases "rr_snapshot rec")
    case None
    then have "?r\<lparr>r_log := l\<rparr> = ?r" using l by auto
    then show ?thesis using wire_refl by metis
  next
    case (Some s)
    then show ?thesis using l assms(2) by (cases s) (auto intro!: op_run do_stable_snap)
  qed
  moreover have "wire_run V E (?r\<lparr>r_log := l\<rparr>) [] (?r\<lparr>r_log := l'\<rparr>)"
  proof (cases "rr_last_entry rec")
    case None
    then show ?thesis using l' wire_refl by simp
  next
    case (Some s)
    then show ?thesis
      using l' assms(2) do_stable_entries [of "?r\<lparr>r_log := l\<rparr>" "fst s" "snd s" l' E] by (cases s) (auto intro!: op_run)
  qed
  ultimately show ?thesis using rn' by (metis wire_run_trans0)
qed

lemma on_persist_ready_run:
  assumes "on_persist_ready E rn n = Some rn'" "voters (members (rn_raft rn)) = V"
  shows "wire_run V E (rn_raft rn) [] (rn_raft rn')"
proof -
  obtain recs snap_idx idx trm where pop: "pop_records n (rn_records rn) (0, 0, 0) = (recs, snap_idx, idx, trm)"
    by (metis prod_cases4)
  then obtain r1 where r1: "(if snap_idx \<noteq> 0 then on_persist_snap (rn_raft rn) snap_idx else Some (rn_raft rn)) = Some r1"
    and r2: "(if idx \<noteq> 0 then on_persist_entries E r1 idx trm else Some r1) = Some (rn_raft rn')"
    using assms(1) by (cases "snap_idx = 0"; cases "idx = 0") (auto simp: on_persist_ready_def Let_def elim!: bind_SomeE)
  have m: "members r1 = members (rn_raft rn)" "members (rn_raft rn') = members r1"
    using r1 r2 by (auto split: if_split_asm dest: on_persist_snap_members on_persist_entries_members)
  have "wire_run V E (rn_raft rn) [] r1"
  proof (cases "snap_idx = 0")
    case False
    then show ?thesis using r1 m(1) assms(2) by (intro op_run do_persist_snap) simp_all
  qed (use r1 wire_refl in auto)
  moreover have "wire_run V E r1 [] (rn_raft rn')"
  proof (cases "idx = 0")
    case False
    then show ?thesis using r2 m assms(2) by (intro op_run do_persist) simp_all
  qed (use r2 wire_refl in auto)
  ultimately show ?thesis by (rule wire_run_trans0)
qed

lemma commit_apply_run:
  assumes "rn_commit_apply E rn i = Some rn'" "voters (members (rn_raft rn)) = V"
  shows "wire_run V E (rn_raft rn) [] (rn_raft rn')"
  using assms by (auto simp: rn_commit_apply_def on_raft_unit_def elim!: bind_SomeE intro!: op_run do_commit_apply
      dest: commit_apply_members)

lemma advance_stages:
  assumes "rn_advance E rn rd = Some (rn', light)"
  obtains rn1 rn2 rn3 rn4 l1 where "commit_ready rn rd = Some rn1" "on_persist_ready E rn1 (rn_max_number rn1) = Some rn2"
    "gen_light_ready E rn2 = Some (rn3, l1)" "note_commit rn3 l1 = Some (rn4, light)"
    "rn_commit_apply E rn4 (rn_commit_since_index rn) = Some rn'"
  using assms
  by (auto simp: rn_advance_def advance_append_def advance_apply_to_def Let_def elim!: bind_SomeE split: prod.split_asm)

lemma advance_run:
  assumes "rn_advance E rn rd = Some (rn', light)" "voters (members (rn_raft rn)) = V"
  shows "wire_run V E (rn_raft rn) (lr_messages light) (rn_raft rn')"
proof -
  obtain rn1 rn2 rn3 rn4 l1 where rn1: "commit_ready rn rd = Some rn1" and rn2: "on_persist_ready E rn1 (rn_max_number rn1) = Some rn2"
    and rn3: "gen_light_ready E rn2 = Some (rn3, l1)" and rn4: "note_commit rn3 l1 = Some (rn4, light)"
    and rn': "rn_commit_apply E rn4 (rn_commit_since_index rn) = Some rn'"
    using assms(1) by (rule advance_stages)
  have 1: "wire_run V E (rn_raft rn) [] (rn_raft rn1)" by (rule commit_ready_run [OF rn1 assms(2)])
  have 2: "wire_run V E (rn_raft rn1) [] (rn_raft rn2)" by (rule on_persist_ready_run [OF rn2 wire_run_voters [OF 1 assms(2)]])
  have v2: "voters (members (rn_raft rn2)) = V" using wire_run_voters [OF 2 wire_run_voters [OF 1 assms(2)]] .
  have 3: "wire_run V E (rn_raft rn2) (lr_messages light) (rn_raft rn4)"
    using gen_light_ready_run [OF rn3 v2] note_commit_frame [OF rn4] by simp
  have 4: "wire_run V E (rn_raft rn4) [] (rn_raft rn')" by (rule commit_apply_run [OF rn' wire_run_voters [OF 3 v2]])
  from wire_run_trans [OF 4 wire_run_trans0 [OF 1 wire_run_trans0 [OF 2 3]]] show ?thesis by simp
qed

subsection \<open>What the node leaves to its host\<close>

text \<open>No operation of a node writes to its storage: writing is the host's part.\<close>

abbreviation stored :: "'s RawNode \<Rightarrow> 's" where
  "stored rn \<equiv> store (r_log (rn_raft rn))"

lemma log_store:
  "log_maybe_persist S l i t = Some (l', b) \<Longrightarrow> store l' = store l"
  "log_maybe_persist_snap l i = Some (l', b) \<Longrightarrow> store l' = store l"
  "log_maybe_commit S l i t = Some (l', b) \<Longrightarrow> store l' = store l"
  "log_append S l es = Some (l', i) \<Longrightarrow> store l' = store l \<and> committed l' = committed l"
  "log_applied_to l i = Some l' \<Longrightarrow> store l' = store l \<and> committed l' = committed l"
  by (auto simp: log_maybe_persist_def log_maybe_persist_snap_def log_maybe_commit_def log_commit_to_def log_append_def
      log_applied_to_def log_applied_to_unchecked_def Let_def elim!: bind_SomeE split: if_split_asm)

lemma maybe_commit_store: "maybe_commit E r = Some (r', b) \<Longrightarrow> store (r_log r') = store (r_log r)"
  by (auto simp: maybe_commit_def Let_def core_of_def set_progress_def elim!: bind_SomeE split: if_split_asm prod.split_asm
      dest!: contact_loop_core log_store)

lemma on_persist_store:
  "on_persist_entries E r i t = Some r' \<Longrightarrow> store (r_log r') = store (r_log r)"
  "on_persist_snap r i = Some r' \<Longrightarrow> store (r_log r') = store (r_log r)"
  by (auto simp: on_persist_entries_def on_persist_snap_def maybe_commit_and_bcast_def core_of_def set_progress_def Let_def
      elim!: bind_SomeE split: if_split_asm prod.split_asm dest!: log_store maybe_commit_store bcast_append_core)

lemma commit_apply_keeps:
  "commit_apply E r i = Some r' \<Longrightarrow> store (r_log r') = store (r_log r) \<and> hard_state r' = hard_state r"
  by (auto simp: commit_apply_def commit_apply_internal_def append_entry_def hard_state_def Let_def elim!: bind_SomeE
      split: if_split_asm prod.split_asm dest!: log_store)

lemma rn_commit_apply_keeps:
  "rn_commit_apply E rn i = Some rn' \<Longrightarrow> stored rn' = stored rn \<and> hard_state (rn_raft rn') = hard_state (rn_raft rn) \<and>
    rn_prev_hs rn' = rn_prev_hs rn"
  by (auto simp: rn_commit_apply_def on_raft_unit_def elim!: bind_SomeE dest!: commit_apply_keeps)

lemma on_persist_ready_store:
  "on_persist_ready E rn n = Some rn' \<Longrightarrow> stored rn' = stored rn \<and> rn_prev_hs rn' = rn_prev_hs rn"
  by (auto simp: on_persist_ready_def Let_def elim!: bind_SomeE split: prod.split_asm if_split_asm dest!: on_persist_store)

lemma commit_ready_store:
  "commit_ready rn rd = Some rn' \<Longrightarrow> stored rn' = stored rn \<and>
    rn_prev_hs rn' = (case rd_hs rd of Some hs \<Rightarrow> hs | None \<Rightarrow> rn_prev_hs rn)"
  by (cases "rd_ss rd"; cases "rd_hs rd")
     (auto simp: commit_ready_def log_stable_snap_def log_stable_entries_def Let_def elim!: bind_SomeE
      split: option.split_asm prod.split_asm)

lemma gen_light_ready_keeps:
  "gen_light_ready E rn = Some (rn', light) \<Longrightarrow> stored rn' = stored rn \<and> rn_prev_hs rn' = rn_prev_hs rn \<and>
    hard_state (rn_raft rn') = hard_state (rn_raft rn)"
  by (auto simp: gen_light_ready_def Let_def hard_state_def reduce_uncommitted_size_def elim!: bind_SomeE split: if_split_asm)

lemma ready_keeps:
  assumes "ready E rn = Some (rn', rd)"
  shows "stored rn' = stored rn \<and> rn_prev_hs rn' = rn_prev_hs rn \<and> hard_state (rn_raft rn') = hard_state (rn_raft rn) \<and>
    rd_hs rd = (if hard_state (rn_raft rn) \<noteq> rn_prev_hs rn then Some (hard_state (rn_raft rn)) else None) \<and>
    (u_snapshot (unstable (r_log (rn_raft rn))) = None \<longrightarrow> rd_snapshot rd = Snapshot_default)"
  using assms
  by (auto simp: ready_def ready_snapshot_def Let_def elim!: bind_SomeE split: prod.split_asm option.split_asm
      dest!: drain_records_frame gen_light_ready_keeps)
     (auto simp: hard_state_def)

text \<open>The end of \<open>advance\<close>: the host learns the commit index that the persisting raised.\<close>

lemma note_commit_index:
  "note_commit rn light = Some (rn', light') \<Longrightarrow>
    rn_prev_hs rn' = (case lr_commit_index light' of Some c \<Rightarrow> (rn_prev_hs rn)\<lparr>hs_commit := c\<rparr> | None \<Rightarrow> rn_prev_hs rn)"
  by (auto simp: note_commit_def Let_def elim!: bind_SomeE split: if_split_asm prod.split_asm)

lemma advance_keeps:
  assumes "rn_advance E rn rd = Some (rn', light)"
  shows "stored rn' = stored rn \<and> rn_prev_hs rn' = hard_state (rn_raft rn') \<and>
    rn_prev_hs rn' = (let hs = (case rd_hs rd of Some hs \<Rightarrow> hs | None \<Rightarrow> rn_prev_hs rn)
      in case lr_commit_index light of Some c \<Rightarrow> hs\<lparr>hs_commit := c\<rparr> | None \<Rightarrow> hs)"
proof -
  obtain rn1 rn2 rn3 rn4 l1 where rn1: "commit_ready rn rd = Some rn1" and rn2: "on_persist_ready E rn1 (rn_max_number rn1) = Some rn2"
    and rn3: "gen_light_ready E rn2 = Some (rn3, l1)" and rn4: "note_commit rn3 l1 = Some (rn4, light)"
    and rn': "rn_commit_apply E rn4 (rn_commit_since_index rn) = Some rn'"
    using assms by (rule advance_stages)
  show ?thesis
    using commit_ready_store [OF rn1] on_persist_ready_store [OF rn2] gen_light_ready_keeps [OF rn3] note_commit_frame [OF rn4]
      note_commit_index [OF rn4] rn_commit_apply_keeps [OF rn']
    by (cases "lr_commit_index light") (simp_all add: Let_def)
qed

subsection \<open>New nodes\<close>

text \<open>The environment of the in-memory storage, and the storage of a new node: the voters are known, nothing else.\<close>

definition mem_env ::
  "(Entry \<Rightarrow> nat) \<Rightarrow> (nat \<Rightarrow> nat \<Rightarrow> nat) \<Rightarrow> (bytes \<Rightarrow> ConfChange option) \<Rightarrow> (bytes \<Rightarrow> ConfChangeV2 option) \<Rightarrow> MemStorageCore Env" where
  "mem_env size_of rr m1 m2 = Storage.extend (MemStorage size_of)
     \<lparr>random_range = rr, merge_ConfChange = m1, merge_ConfChangeV2 = m2\<rparr>"

lemma mem_env_initial_state [simp]: "st_initial_state (mem_env sz rr m1 m2) st = Inr (raft_state st)"
  by (simp add: mem_env_def MemStorage_def Storage.defs)

definition new_store :: "nat list \<Rightarrow> MemStorageCore" where
  "new_store vs = mem_set_conf_state MemStorage_new (ConfState_default\<lparr>cs_voters := vs\<rparr>)"

definition fresh_node :: "JointConfig \<Rightarrow> nat \<Rightarrow> 's Raft \<Rightarrow> bool" where
  "fresh_node V i r \<longleftrightarrow> r_id r = i \<and> voters (members r) = V \<and> r_state r = Follower \<and> r_msgs r = []"

lemma plain_stored: "vs \<noteq> [] \<Longrightarrow> distinct vs \<Longrightarrow> 0 \<notin> set vs \<Longrightarrow> conf_stored (plain vs 0 [])"
  by (auto simp: conf_stored_def conf_ok_def conf_distinct_def joint_def plain_def intro: gr0I)

lemma load_state_frame: "load_state E r hs = Some r' \<Longrightarrow> frame_of r' = frame_of r"
  by (auto simp: load_state_def elim!: bind_SomeE split: if_split_asm)

lemma commit_apply_internal_frame: "commit_apply_internal E r i b = Some r' \<Longrightarrow> frame_of r' = frame_of r"
  by (auto simp: commit_apply_internal_def Let_def elim!: bind_SomeE split: if_split_asm prod.split_asm
      dest!: append_entry_frame)

lemma Raft_new_asked:
  assumes "Raft_new E c st = Some (Inr r)" "st_initial_state E st = Inr rs"
  shows "asked r = (cfg_id c, cfg_pre_vote c, [])"
proof -
  obtain r1 r2 r3 r4 cs where r1: "r_id r1 = cfg_id c" "r_state r1 = Follower" "r_witness_msgs r1 = []" "r_pre_vote r1 = cfg_pre_vote c"
    and r2: "post_conf_change E r1 = Some (r2, cs)"
    and r3: "(if rs_hard_state rs \<noteq> HardState_default then load_state E r2 (rs_hard_state rs) else Some r2) = Some r3"
    and r4: "(if 0 < cfg_applied c then commit_apply_internal E r3 (cfg_applied c) True else Some r3) = Some r4"
    and r: "become_follower E r4 (r_term r4) INVALID_ID = Some r"
    by (rule Raft_new_stages [OF assms]) blast
  have "asked r1 = (cfg_id c, cfg_pre_vote c, [])" using r1 by (simp add: asked_def)
  moreover have "asked r2 = asked r1" using follower_post_conf_change [OF r2 r1(2)] by auto
  moreover have "frame_of r3 = frame_of r2" "frame_of r4 = frame_of r3" "frame_of r = frame_of r4"
    using r3 r4 become_follower_frame [OF r] by (auto split: if_split_asm dest: load_state_frame commit_apply_internal_frame)
  ultimately show ?thesis by (simp add: frame_of_def)
qed

lemma new_node_fresh:
  assumes "Raft_new (mem_env sz rr m1 m2) c (new_store vs) = Some (Inr r)" "vs \<noteq> []" "distinct vs" "0 \<notin> set vs"
  shows "fresh_node \<lparr>incoming = vs, outgoing = []\<rparr> (cfg_id c) r"
proof -
  let ?E = "mem_env sz rr m1 m2" and ?cs = "ConfState_default\<lparr>cs_voters := vs\<rparr>"
  have st: "st_initial_state ?E (new_store vs) = Inr \<lparr>rs_hard_state = HardState_default, rs_conf_state = ?cs\<rparr>"
    by (simp add: new_store_def mem_set_conf_state_def MemStorage_new_def RaftState_default_def)
  have cs: "?cs = to_conf_state (plain vs 0 [])" by (simp add: to_conf_state_def plain_def ConfState_default_def)
  obtain nxt t where t: "confchange_restore (ProgressTracker_new (cfg_max_inflight_msgs c)) nxt ?cs = Inr t" "members r = conf t"
    using Raft_new_state [OF assms(1) st] by auto
  with restore_stored [OF plain_stored [OF assms(2-4)] new_tracker, of "cfg_max_inflight_msgs c" nxt] cs
  have "voters (members r) = \<lparr>incoming = vs, outgoing = []\<rparr>" by (auto simp: plain_def)
  with Raft_new_state [OF assms(1) st] show ?thesis by (simp add: fresh_node_def)
qed

text \<open>A cluster that starts with given nodes; all other ids are fresh followers that never take a step.\<close>

definition start_node :: "JointConfig \<Rightarrow> nat \<Rightarrow> MemStorageCore Raft" where
  "start_node V i = (ex_raft 0 Follower ((ProgressTracker_new 0)\<lparr>conf := (plain [] 0 [])\<lparr>voters := V\<rparr>\<rparr>))\<lparr>r_id := i\<rparr>"

lemma fresh_start_node: "fresh_node V i (start_node V i)"
  by (simp add: fresh_node_def start_node_def ex_raft_def)

lemma fresh_cluster_init:
  assumes "\<And>i. 0 < i \<Longrightarrow> i \<notin> W \<Longrightarrow> fresh_node V i (node i)"
  shows "cluster_init V W \<lparr>nodes = node, wits = w, wire = {}, ballots = {}, elected = {}\<rparr>"
  using assms by (simp add: cluster_init_def fresh_node_def)

end
