(* ===== verification/Harness_Network.thy ===== *)
theory Harness_Network
  imports Host_Runs Complex_Main
begin

section \<open>The test harness: nodes on a simulated network\<close>

text \<open>
  The crate \<^verbatim>\<open>harness\<close>: an \<^verbatim>\<open>Interface\<close> wraps a node or nothing (a black hole), and a \<^verbatim>\<open>Network\<close> holds the interfaces and the
  rates at which it drops messages.  \<^verbatim>\<open>Network::send\<close> is the scheduler of the integration tests: it steps the messages,
  persists, collects the replies, filters them and goes on until no message is left.

  An \<^verbatim>\<open>f64\<close> rate is a rational number (every finite one is), and \<^verbatim>\<open>rand::random::<f64>()\<close> is a parameter, the sequence
  \<open>rnd\<close> of the numbers drawn, together with the count of the draws so far.  A \<^verbatim>\<open>MemStorage\<close> is a shared handle: what the
  field \<^verbatim>\<open>storage\<close> of the network holds for a peer is the storage inside the peer's log.
\<close>

subsection \<open>Interface\<close>

record Interface =
  itf_raft :: "MemStorageCore Raft option"

definition Interface_new :: "MemStorageCore Raft \<Rightarrow> Interface" where
  "Interface_new r = \<lparr>itf_raft = Some r\<rparr>"

definition interface_step ::
  "(MemStorageCore, 'm) Env_scheme \<Rightarrow> Interface \<Rightarrow> Message \<Rightarrow> (Interface \<times> (Error + unit)) panics" where
  "interface_step E p m = (case itf_raft p of
     Some r \<Rightarrow> do { (r, res) \<leftarrow> step E r m; Some (p\<lparr>itf_raft := Some r\<rparr>, res) }
   | None \<Rightarrow> Some (p, Inr ()))"

definition interface_read_messages :: "Interface \<Rightarrow> Interface \<times> Message list" where
  "interface_read_messages p = (case itf_raft p of
     Some r \<Rightarrow> (p\<lparr>itf_raft := Some (r\<lparr>r_msgs := []\<rparr>)\<rparr>, r_msgs r)
   | None \<Rightarrow> (p, []))"

definition set_store :: "MemStorageCore Raft \<Rightarrow> MemStorageCore \<Rightarrow> MemStorageCore Raft" where
  "set_store r st = r\<lparr>r_log := (r_log r)\<lparr>store := st\<rparr>\<rparr>"

definition persist_snap :: "(MemStorageCore, 'm) Env_scheme \<Rightarrow> MemStorageCore Raft \<Rightarrow> MemStorageCore Raft panics" where
  "persist_snap E r = (case u_snapshot (unstable (r_log r)) of
     None \<Rightarrow> Some r
   | Some snap \<Rightarrow> do {
       let i = snap_index snap;
       l \<leftarrow> log_stable_snap (r_log r) i;
       let r = r\<lparr>r_log := l\<rparr>;
       let (st, res) = mem_apply_snapshot (store (r_log r)) snap;
       _ \<leftarrow> unwrap res;
       r \<leftarrow> on_persist_snap (set_store r st) i;
       commit_apply E r i
     })"

definition persist_entries :: "(MemStorageCore, 'm) Env_scheme \<Rightarrow> MemStorageCore Raft \<Rightarrow> MemStorageCore Raft panics" where
  "persist_entries E r = (let es = u_entries (unstable (r_log r)) in
     if es = [] then Some r
     else do {
       let i = e_index (last es);
       let t = e_term (last es);
       l \<leftarrow> log_stable_entries (r_log r) i t;
       let r = r\<lparr>r_log := l\<rparr>;
       st \<leftarrow> mem_append (store (r_log r)) es;
       on_persist_entries E (set_store r st) i t
     })"

definition interface_persist :: "(MemStorageCore, 'm) Env_scheme \<Rightarrow> Interface \<Rightarrow> Interface panics" where
  "interface_persist E p = (case itf_raft p of
     None \<Rightarrow> Some p
   | Some r \<Rightarrow> do { r \<leftarrow> persist_snap E r; r \<leftarrow> persist_entries E r; Some (p\<lparr>itf_raft := Some r\<rparr>) })"

subsection \<open>Network\<close>

record Network =
  nw_peers :: "(nat, Interface) hmap"
  nw_dropm :: "(nat \<times> nat, rat) hmap"
  nw_ignorem :: "(MessageType, bool) hmap"

definition network_storage :: "Network \<Rightarrow> nat \<Rightarrow> MemStorageCore option" where
  "network_storage n i = Option.bind (map_of (nw_peers n) i) (\<lambda>p. map_option (\<lambda>r. store (r_log r)) (itf_raft p))"

definition network_default_config :: Config where
  "network_default_config = Config_default\<lparr>cfg_election_tick := 10, cfg_heartbeat_tick := 1,
     cfg_max_size_per_msg := NO_LIMIT, cfg_max_inflight_msgs := 256\<rparr>"

definition network_peer ::
  "(MemStorageCore, 'm) Env_scheme \<Rightarrow> Config \<Rightarrow> nat list \<Rightarrow> Interface option \<Rightarrow> nat \<Rightarrow> Interface panics" where
  "network_peer E c peer_addrs p i = (case p of
     None \<Rightarrow> do {
       st \<leftarrow> mem_initialize_with_conf_state MemStorage_new (ConfState_default\<lparr>cs_voters := peer_addrs\<rparr>);
       res \<leftarrow> Raft_new E (c\<lparr>cfg_id := i\<rparr>) st;
       r \<leftarrow> unwrap res;
       Some (Interface_new r)
     }
   | Some p \<Rightarrow> do {
       ensure (case itf_raft p of Some r \<Rightarrow> r_id r = i | None \<Rightarrow> True);
       Some p
     })"

definition network_new_with_config ::
  "(MemStorageCore, 'm) Env_scheme \<Rightarrow> Interface option list \<Rightarrow> Config \<Rightarrow> Network panics" where
  "network_new_with_config E ps c = do {
     let peer_addrs = [1..<length ps + 1];
     npeers \<leftarrow> foldM (\<lambda>(p, i) m. do { q \<leftarrow> network_peer E c peer_addrs p i; Some (hm_insert i q m) }) (zip ps peer_addrs) [];
     Some \<lparr>nw_peers = npeers, nw_dropm = [], nw_ignorem = []\<rparr>
   }"

definition network_new :: "(MemStorageCore, 'm) Env_scheme \<Rightarrow> Interface option list \<Rightarrow> Network panics" where
  "network_new E ps = network_new_with_config E ps network_default_config"

definition network_ignore :: "Network \<Rightarrow> MessageType \<Rightarrow> Network" where
  "network_ignore n t = n\<lparr>nw_ignorem := hm_insert t True (nw_ignorem n)\<rparr>"

definition drop_rate :: "Network \<Rightarrow> nat \<Rightarrow> nat \<Rightarrow> rat" where
  "drop_rate n i j = (case map_of (nw_dropm n) (i, j) of Some perc \<Rightarrow> perc | None \<Rightarrow> 0)"

definition ignores :: "Network \<Rightarrow> MessageType \<Rightarrow> bool" where
  "ignores n t = (case map_of (nw_ignorem n) t of Some b \<Rightarrow> b | None \<Rightarrow> False)"

fun network_filter :: "(nat \<Rightarrow> rat) \<Rightarrow> Network \<Rightarrow> Message list \<Rightarrow> nat \<Rightarrow> (Message list \<times> nat) panics" where
  "network_filter rnd n [] k = Some ([], k)"
| "network_filter rnd n (m # ms) k =
     (if ignores n (msg_type m) then network_filter rnd n ms k
      else do {
        ensure (msg_type m \<noteq> MsgHup);
        let keep = drop_rate n (m_from m) (m_to m) \<le> rnd k;
        (kept, k) \<leftarrow> network_filter rnd n ms (k + 1);
        Some (if keep then m # kept else kept, k)
      })"

definition network_read_messages :: "Network \<Rightarrow> Network \<times> Message list" where
  "network_read_messages n =
     (n\<lparr>nw_peers := map (\<lambda>(i, p). (i, fst (interface_read_messages p))) (nw_peers n)\<rparr>,
      concat (map (\<lambda>(i, p). snd (interface_read_messages p)) (nw_peers n)))"

definition send_one ::
  "(MemStorageCore, 'm) Env_scheme \<Rightarrow> (nat \<Rightarrow> rat) \<Rightarrow> Message \<Rightarrow> Network \<times> nat \<times> Message list \<Rightarrow>
    (Network \<times> nat \<times> Message list) panics" where
  "send_one E rnd m s = (case s of (n, k, new_msgs) \<Rightarrow> do {
     p \<leftarrow> map_of (nw_peers n) (m_to m);
     (p, _) \<leftarrow> interface_step E p m;
     p \<leftarrow> interface_persist E p;
     let (p, resp) = interface_read_messages p;
     let n = n\<lparr>nw_peers := hm_insert (m_to m) p (nw_peers n)\<rparr>;
     (resp, k) \<leftarrow> network_filter rnd n resp k;
     Some (n, k, new_msgs @ resp)
   })"

partial_function (option) network_send ::
  "(MemStorageCore, 'm) Env_scheme \<Rightarrow> (nat \<Rightarrow> rat) \<Rightarrow> Network \<Rightarrow> nat \<Rightarrow> Message list \<Rightarrow> (Network \<times> nat) panics" where
  "network_send E rnd n k msgs =
     (if msgs = [] then Some (n, k)
      else do {
        (n, k, new_msgs) \<leftarrow> foldM (send_one E rnd) msgs (n, k, []);
        network_send E rnd n k new_msgs
      })"

declare network_send.simps [code]

definition network_filter_and_send ::
  "(MemStorageCore, 'm) Env_scheme \<Rightarrow> (nat \<Rightarrow> rat) \<Rightarrow> Network \<Rightarrow> nat \<Rightarrow> Message list \<Rightarrow> (Network \<times> nat) panics" where
  "network_filter_and_send E rnd n k msgs = do {
     (msgs, k) \<leftarrow> network_filter rnd n msgs k;
     network_send E rnd n k msgs
   }"

fun dispatch_all ::
  "(MemStorageCore, 'm) Env_scheme \<Rightarrow> Network \<Rightarrow> Message list \<Rightarrow> (Network \<times> (Error + unit)) panics" where
  "dispatch_all E n [] = Some (n, Inr ())"
| "dispatch_all E n (m # ms) = do {
     p \<leftarrow> map_of (nw_peers n) (m_to m);
     (p, res) \<leftarrow> interface_step E p m;
     let n = n\<lparr>nw_peers := hm_insert (m_to m) p (nw_peers n)\<rparr>;
     case res of Inl e \<Rightarrow> Some (n, Inl e) | Inr _ \<Rightarrow> dispatch_all E n ms
   }"

definition network_dispatch ::
  "(MemStorageCore, 'm) Env_scheme \<Rightarrow> (nat \<Rightarrow> rat) \<Rightarrow> Network \<Rightarrow> nat \<Rightarrow> Message list \<Rightarrow>
    (Network \<times> nat \<times> (Error + unit)) panics" where
  "network_dispatch E rnd n k msgs = do {
     (msgs, k) \<leftarrow> network_filter rnd n msgs k;
     (n, res) \<leftarrow> dispatch_all E n msgs;
     Some (n, k, res)
   }"

definition network_drop :: "Network \<Rightarrow> nat \<Rightarrow> nat \<Rightarrow> rat \<Rightarrow> Network" where
  "network_drop n i j perc = n\<lparr>nw_dropm := hm_insert (i, j) perc (nw_dropm n)\<rparr>"

definition network_cut :: "Network \<Rightarrow> nat \<Rightarrow> nat \<Rightarrow> Network" where
  "network_cut n one other = network_drop (network_drop n one other 1) other one 1"

definition network_isolate :: "Network \<Rightarrow> nat \<Rightarrow> Network" where
  "network_isolate n i = fold (\<lambda>j n. let nid = j + 1 in
     if nid \<noteq> i then network_drop (network_drop n i nid 1) nid i 1 else n) [0..<length (nw_peers n)] n"

definition network_recover :: "Network \<Rightarrow> Network" where
  "network_recover n = n\<lparr>nw_dropm := [], nw_ignorem := []\<rparr>"

subsection \<open>Every schedule of the network is one of the cluster\<close>

lemma persist_snap_ops:
  assumes "persist_snap E r = Some r'" "voters (members r) = V"
  shows "wire_run V E r [] r' \<and> voters (members r') = V"
proof (cases "u_snapshot (unstable (r_log r))")
  case None
  then show ?thesis using assms by (simp add: persist_snap_def)
next
  case (Some snap)
  then obtain l st r2 where l: "log_stable_snap (r_log r) (snap_index snap) = Some l"
    and r2: "on_persist_snap (set_store (r\<lparr>r_log := l\<rparr>) st) (snap_index snap) = Some r2"
    and r': "commit_apply E r2 (snap_index snap) = Some r'"
    using assms(1) by (auto simp: persist_snap_def Let_def elim!: bind_SomeE split: prod.split_asm)
  let ?r0 = "r\<lparr>r_log := l\<rparr>" and ?r1 = "set_store (r\<lparr>r_log := l\<rparr>) st"
  have m: "voters (members r2) = V" "voters (members r') = V"
    using on_persist_snap_members [OF r2] commit_apply_members [OF r'] assms(2) by (simp_all add: set_store_def)
  have ops: "voter_op V E r ?r0" "voter_op V E ?r0 ?r1" "voter_op V E ?r1 r2" "voter_op V E r2 r'"
    using do_stable_snap [OF l] do_storage [of E ?r0 st] do_persist_snap [OF r2] do_commit_apply [OF r'] m assms(2)
    by (simp_all add: voter_op_def set_store_def)
  with wire_op [OF wire_op [OF wire_op [OF wire_run1 [OF ops(1)] ops(2)] ops(3)] ops(4)] m show ?thesis by blast
qed

lemma persist_entries_ops:
  assumes "persist_entries E r = Some r'" "voters (members r) = V"
  shows "wire_run V E r [] r' \<and> voters (members r') = V"
proof (cases "u_entries (unstable (r_log r)) = []")
  case True
  then show ?thesis using assms by (simp add: persist_entries_def)
next
  case False
  then obtain i t l st where l: "log_stable_entries (r_log r) i t = Some l"
    and r': "on_persist_entries E (set_store (r\<lparr>r_log := l\<rparr>) st) i t = Some r'"
    using assms(1) by (auto simp: persist_entries_def Let_def elim!: bind_SomeE)
  let ?r0 = "r\<lparr>r_log := l\<rparr>" and ?r1 = "set_store (r\<lparr>r_log := l\<rparr>) st"
  have m: "voters (members r') = V"
    using on_persist_entries_members [OF r'] assms(2) by (simp add: set_store_def)
  have ops: "voter_op V E r ?r0" "voter_op V E ?r0 ?r1" "voter_op V E ?r1 r'"
    using do_stable_entries [OF l] do_storage [of E ?r0 st] do_persist [OF r'] m assms(2)
    by (simp_all add: voter_op_def set_store_def)
  with wire_op [OF wire_op [OF wire_run1 [OF ops(1)] ops(2)] ops(3)] m show ?thesis by blast
qed

lemma interface_persist_ops:
  assumes "interface_persist E p = Some p'" "itf_raft p = Some r" "voters (members r) = V"
  shows "\<exists>r'. itf_raft p' = Some r' \<and> wire_run V E r [] r' \<and> voters (members r') = V"
proof -
  obtain r1 r' where "persist_snap E r = Some r1" "persist_entries E r1 = Some r'" "p' = p\<lparr>itf_raft := Some r'\<rparr>"
    using assms(1,2) by (auto simp: interface_persist_def elim!: bind_SomeE)
  with persist_snap_ops [of E r r1 V] persist_entries_ops [of E r1 r' V] assms(3) show ?thesis
    by (auto intro: wire_run_trans0)
qed

lemma interface_persist_members:
  assumes "interface_persist E p = Some p'" "itf_raft p = Some r" "itf_raft p' = Some r'"
  shows "members r' = members r"
proof -
  obtain r1 where "persist_snap E r = Some r1" "persist_entries E r1 = Some r'"
    using assms by (auto simp: interface_persist_def elim!: bind_SomeE)
  then show ?thesis
    by (auto simp: persist_snap_def persist_entries_def set_store_def Let_def elim!: bind_SomeE
        split: option.split_asm if_split_asm prod.split_asm
        dest!: on_persist_snap_members commit_apply_members on_persist_entries_members)
qed

text \<open>
  The network shows the nodes of a cluster.
\<close>

definition shows_cluster :: "JointConfig \<Rightarrow> Network \<Rightarrow> MemStorageCore Cluster \<Rightarrow> bool" where
  "shows_cluster V n c \<longleftrightarrow> (\<forall>i p r. map_of (nw_peers n) i = Some p \<longrightarrow> itf_raft p = Some r \<longrightarrow>
     0 < i \<and> nodes c i = r \<and> voters (members r) = V)"

definition network_fixed :: "JointConfig \<Rightarrow> Network \<Rightarrow> bool" where
  "network_fixed V n \<longleftrightarrow> (\<forall>i p r. map_of (nw_peers n) i = Some p \<longrightarrow> itf_raft p = Some r \<longrightarrow> voters (members r) = V)"

text \<open>The messages a test may put into the network: those that the nodes have handed out, and local ones (a campaign, a
  beat, a proposal, a report).\<close>

definition local_msg :: "Message \<Rightarrow> bool" where
  "local_msg m \<longleftrightarrow> m_term m = 0 \<and> has_term m \<and> msg_type m \<notin> {MsgRequestVote, MsgRequestPreVote, MsgRequestVoteResponse}"

definition sendable :: "Message set \<Rightarrow> Message \<Rightarrow> bool" where
  "sendable Q m \<longleftrightarrow> m \<in> Q \<or> local_msg m"

lemma network_filter_kept:
  "network_filter rnd n ms k = Some (kept, k') \<Longrightarrow>
    set kept \<subseteq> {m \<in> set ms. \<not> ignores n (msg_type m) \<and> msg_type m \<noteq> MsgHup \<and> (\<exists>j. drop_rate n (m_from m) (m_to m) \<le> rnd j)}"
proof (induction ms arbitrary: k kept)
  case (Cons m ms)
  then show ?case
    by (fastforce simp: Let_def elim!: bind_SomeE split: if_split_asm prod.split_asm)
qed simp

subsection \<open>What a test does\<close>

definition put_peer :: "nat \<Rightarrow> Interface \<Rightarrow> Network \<Rightarrow> Network" where
  "put_peer i p n = n\<lparr>nw_peers := hm_insert i p (nw_peers n)\<rparr>"

text \<open>
  The parts of a test, on the network, the count of random numbers drawn, and the messages that the nodes have handed out so
  far, which may be delivered late, twice or never.  A test changes which messages are lost; delivers a message the way
  \<^verbatim>\<open>send\<close> does, with what it entails at the receiver; steps a message into a peer the way \<^verbatim>\<open>dispatch\<close> does; takes the messages
  of a peer; persists a peer; ticks a peer or does anything else to it that a host can do (\<open>node_op\<close>: reports of
  persistence and application, configuration changes, settings).
\<close>

inductive test_part ::
  "MemStorageCore Env \<Rightarrow> (nat \<Rightarrow> rat) \<Rightarrow> Network \<times> nat \<times> Message set \<Rightarrow> Network \<times> nat \<times> Message set \<Rightarrow> bool" for E rnd where
  faults: "n' \<in> {network_drop n i j perc, network_cut n i j, network_isolate n i, network_recover n, network_ignore n t} \<Longrightarrow>
    test_part E rnd (n, k, Q) (n', k, Q)"
| filtered: "network_filter rnd n ms k = Some (kept, k') \<Longrightarrow> test_part E rnd (n, k, Q) (n, k', Q)"
| delivered: "sendable Q m \<Longrightarrow> send_one E rnd m (n, k, []) = Some (n', k', resp) \<Longrightarrow> test_part E rnd (n, k, Q) (n', k', Q \<union> set resp)"
| dispatched: "sendable Q m \<Longrightarrow> map_of (nw_peers n) (m_to m) = Some p \<Longrightarrow> interface_step E p m = Some (p', x) \<Longrightarrow>
    test_part E rnd (n, k, Q) (put_peer (m_to m) p' n, k, Q)"
| taken: "map_of (nw_peers n) i = Some p \<Longrightarrow> interface_read_messages p = (p', ms) \<Longrightarrow>
    test_part E rnd (n, k, Q) (put_peer i p' n, k, Q \<union> set ms)"
| persisted: "map_of (nw_peers n) i = Some p \<Longrightarrow> interface_persist E p = Some p' \<Longrightarrow>
    test_part E rnd (n, k, Q) (put_peer i p' n, k, Q)"
| operated: "map_of (nw_peers n) i = Some p \<Longrightarrow> itf_raft p = Some r \<Longrightarrow> node_op E r r' \<Longrightarrow>
    test_part E rnd (n, k, Q) (put_peer i (p\<lparr>itf_raft := Some r'\<rparr>) n, k, Q)"

lemma fixed_put: "network_fixed V (put_peer i p n) \<Longrightarrow> itf_raft p = Some r \<Longrightarrow> voters (members r) = V"
  unfolding network_fixed_def put_peer_def by (drule spec [of _ i]) simp

text \<open>A step of a test after which the voters of all nodes are \<open>V\<close>.\<close>

definition test_step ::
  "JointConfig \<Rightarrow> MemStorageCore Env \<Rightarrow> (nat \<Rightarrow> rat) \<Rightarrow> Network \<times> nat \<times> Message set \<Rightarrow> Network \<times> nat \<times> Message set \<Rightarrow> bool" where
  "test_step V E rnd s s' \<longleftrightarrow> test_part E rnd s s' \<and> network_fixed V (fst s')"

subsection \<open>The scheduler is made of these parts\<close>

lemma sendable_mono: "sendable Q m \<Longrightarrow> Q \<subseteq> Q' \<Longrightarrow> sendable Q' m"
  by (auto simp: sendable_def)

lemma send_one_split:
  "send_one E rnd m (n, k, new) = map_option (\<lambda>(n, k, resp). (n, k, new @ resp)) (send_one E rnd m (n, k, []))"
  by (auto simp: send_one_def Let_def split: prod.split bind_split)

lemma send_round_parts:
  assumes "foldM (send_one E rnd) ms (n, k, new) = Some (n', k', new')" "list_all (sendable Q) ms"
  shows "\<exists>Q'. (test_part E rnd)\<^sup>*\<^sup>* (n, k, Q) (n', k', Q') \<and> Q \<subseteq> Q' \<and> (set new \<subseteq> Q \<longrightarrow> set new' \<subseteq> Q')"
  using assms
proof (induction ms arbitrary: n k new Q)
  case (Cons m ms)
  obtain n1 k1 new1 where s1: "send_one E rnd m (n, k, new) = Some (n1, k1, new1)"
      "foldM (send_one E rnd) ms (n1, k1, new1) = Some (n', k', new')"
    using Cons.prems(1) by (auto elim!: bind_SomeE)
  then obtain resp where resp: "send_one E rnd m (n, k, []) = Some (n1, k1, resp)" "new1 = new @ resp"
    by (auto simp: send_one_split [of E rnd m n k new])
  have "test_part E rnd (n, k, Q) (n1, k1, Q \<union> set resp)" using delivered [OF _ resp(1)] Cons.prems(2) by simp
  moreover have "list_all (sendable (Q \<union> set resp)) ms" using Cons.prems(2) by (auto simp: list_all_iff sendable_def)
  from Cons.IH [OF s1(2) this] resp(2) obtain Q' where "(test_part E rnd)\<^sup>*\<^sup>* (n1, k1, Q \<union> set resp) (n', k', Q')"
      "Q \<union> set resp \<subseteq> Q'" "set new \<subseteq> Q \<longrightarrow> set new' \<subseteq> Q'"
    by auto
  ultimately show ?case by (meson Un_subset_iff converse_rtranclp_into_rtranclp)
qed auto

lemma network_send_parts:
  assumes "network_send E rnd n k msgs = Some (n', k')" "list_all (sendable Q) msgs"
  shows "\<exists>Q'. (test_part E rnd)\<^sup>*\<^sup>* (n, k, Q) (n', k', Q')"
proof -
  have "\<forall>Q. list_all (sendable Q) msgs \<longrightarrow> (\<exists>Q'. (test_part E rnd)\<^sup>*\<^sup>* (n, k, Q) (fst (n', k'), snd (n', k'), Q'))"
    using assms(1)
  proof (rule network_send.raw_induct [rotated])
    fix f :: "MemStorageCore Env \<Rightarrow> (nat \<Rightarrow> rat) \<Rightarrow> Network \<Rightarrow> nat \<Rightarrow> Message list \<Rightarrow> (Network \<times> nat) panics"
      and E rnd n k msgs y
    assume IH: "\<And>E rnd n k msgs y. f E rnd n k msgs = Some y \<Longrightarrow>
        \<forall>Q. list_all (sendable Q) msgs \<longrightarrow> (\<exists>Q'. (test_part E rnd)\<^sup>*\<^sup>* (n, k, Q) (fst y, snd y, Q'))"
      and y: "(if msgs = [] then Some (n, k)
        else Option.bind (foldM (send_one E rnd) msgs (n, k, [])) (\<lambda>(n, k, new_msgs). f E rnd n k new_msgs)) = Some y"
    show "\<forall>Q. list_all (sendable Q) msgs \<longrightarrow> (\<exists>Q'. (test_part E rnd)\<^sup>*\<^sup>* (n, k, Q) (fst y, snd y, Q'))"
    proof (intro allI impI, cases "msgs = []")
      case False
      fix Q
      assume ms: "list_all (sendable Q) msgs"
      from False obtain n1 k1 ms1 where r: "foldM (send_one E rnd) msgs (n, k, []) = Some (n1, k1, ms1)" "f E rnd n1 k1 ms1 = Some y"
        using y by (auto elim!: bind_SomeE split: prod.split_asm)
      from send_round_parts [OF r(1) ms] obtain Q1 where Q1: "(test_part E rnd)\<^sup>*\<^sup>* (n, k, Q) (n1, k1, Q1)" "set ms1 \<subseteq> Q1" by auto
      then have "list_all (sendable Q1) ms1" by (auto simp: list_all_iff sendable_def)
      with IH [OF r(2)] Q1(1) show "\<exists>Q'. (test_part E rnd)\<^sup>*\<^sup>* (n, k, Q) (fst y, snd y, Q')" by (meson rtranclp_trans)
    qed (use y in auto)
  qed
  with assms(2) show ?thesis by simp
qed

lemma filter_and_send_parts:
  assumes "network_filter_and_send E rnd n k msgs = Some (n', k')" "list_all (sendable Q) msgs"
  shows "\<exists>Q'. (test_part E rnd)\<^sup>*\<^sup>* (n, k, Q) (n', k', Q')"
proof -
  obtain ms k1 where f: "network_filter rnd n msgs k = Some (ms, k1)" "network_send E rnd n k1 ms = Some (n', k')"
    using assms(1) by (auto simp: network_filter_and_send_def elim!: bind_SomeE)
  have "list_all (sendable Q) ms" using network_filter_kept [OF f(1)] assms(2) by (auto simp: list_all_iff)
  from network_send_parts [OF f(2) this] filtered [OF f(1), of E Q] show ?thesis by (meson converse_rtranclp_into_rtranclp)
qed

lemma dispatch_all_parts:
  assumes "dispatch_all E n msgs = Some (n', x)" "list_all (sendable Q) msgs"
  shows "(test_part E rnd)\<^sup>*\<^sup>* (n, k, Q) (n', k, Q)"
  using assms
proof (induction msgs arbitrary: n)
  case (Cons m ms)
  then obtain p p' y where p: "map_of (nw_peers n) (m_to m) = Some p" "interface_step E p m = Some (p', y)"
      "(case y of Inl e \<Rightarrow> Some (put_peer (m_to m) p' n, Inl e) | Inr _ \<Rightarrow> dispatch_all E (put_peer (m_to m) p' n) ms) = Some (n', x)"
    by (auto simp: put_peer_def Let_def elim!: bind_SomeE split: prod.split_asm cong: sum.case_cong)
  then have "test_part E rnd (n, k, Q) (put_peer (m_to m) p' n, k, Q)" using dispatched [OF _ p(1,2)] Cons.prems(2) by simp
  moreover have "(test_part E rnd)\<^sup>*\<^sup>* (put_peer (m_to m) p' n, k, Q) (n', k, Q)"
    using p(3) Cons.IH [of "put_peer (m_to m) p' n"] Cons.prems(2) by (cases y) auto
  ultimately show ?case by (meson converse_rtranclp_into_rtranclp)
qed auto

lemma dispatch_parts:
  assumes "network_dispatch E rnd n k msgs = Some (n', k', x)" "list_all (sendable Q) msgs"
  shows "\<exists>Q'. (test_part E rnd)\<^sup>*\<^sup>* (n, k, Q) (n', k', Q')"
proof -
  obtain ms where f: "network_filter rnd n msgs k = Some (ms, k')" "dispatch_all E n ms = Some (n', x)"
    using assms(1) by (auto simp: network_dispatch_def elim!: bind_SomeE split: prod.split_asm)
  have "list_all (sendable Q) ms" using network_filter_kept [OF f(1)] assms(2) by (auto simp: list_all_iff)
  from dispatch_all_parts [OF f(2) this] filtered [OF f(1), of E Q] show ?thesis by (meson converse_rtranclp_into_rtranclp)
qed

subsection \<open>Every step is one of the cluster\<close>

lemma faults_peers:
  "n' \<in> {network_drop n i j perc, network_cut n i j, network_isolate n i, network_recover n, network_ignore n t} \<Longrightarrow>
    nw_peers n' = nw_peers n"
proof -
  have "nw_peers (fold (\<lambda>j n. let nid = j + 1 in if nid \<noteq> i then network_drop (network_drop n i nid 1) nid i 1 else n) js n) =
      nw_peers n" for js
    by (induction js arbitrary: n) (simp_all add: Let_def network_drop_def)
  then show "n' \<in> {network_drop n i j perc, network_cut n i j, network_isolate n i, network_recover n, network_ignore n t} \<Longrightarrow>
      nw_peers n' = nw_peers n"
    by (auto simp: network_cut_def network_drop_def network_recover_def network_ignore_def network_isolate_def)
qed

text \<open>A node steps a message and goes on, as its host makes it, to a state whose voters are again \<open>V\<close>.\<close>

lemma message_run:
  assumes "0 < i" "sendable Q m" "Q \<subseteq> wire c" "m_to m = i" "step E (nodes c i) m = Some (r1, x)" "voters (members r1) = V"
    and "wire_run V E r1 ms r2"
  shows "\<exists>c'. cluster_run V {} c c' \<and> nodes c' = (nodes c)(i := r2) \<and> wire c' = wire c \<union> set ms"
proof -
  have s1: "cluster_step V {} c (put_node i r1 c)"
    using assms(1-6) deliver [of i "{}" m c E r1 x V] own [of i "{}" m E c r1 x V]
    by (auto simp: sendable_def local_msg_def)
  from wire_run_cluster [OF assms(7) _ assms(1) _ assms(6), of "put_node i r1 c" "{}"] obtain c'
    where c': "cluster_run V {} (put_node i r1 c) c'" "nodes c' = (nodes c)(i := r2)" "wire c' = wire c \<union> set ms"
    by (auto simp: put_node_def)
  with converse_rtranclp_into_rtranclp [of "cluster_step V {}", OF s1 c'(1)] show ?thesis by blast
qed

lemma shows_put:
  assumes "shows_cluster V n c" "0 < i" "nodes c' = (nodes c)(i := r)" "itf_raft p = Some r" "voters (members r) = V"
  shows "shows_cluster V (put_peer i p n) c'"
  using assms by (auto simp: shows_cluster_def put_peer_def)

lemma shows_hole:
  assumes "shows_cluster V n c" "itf_raft p = None"
  shows "shows_cluster V (put_peer i p n) c"
  using assms by (auto simp: shows_cluster_def put_peer_def)

definition simulates :: "JointConfig \<Rightarrow> MemStorageCore Cluster \<Rightarrow> Network \<times> nat \<times> Message set \<Rightarrow> bool" where
  "simulates V c s \<longleftrightarrow> shows_cluster V (fst s) c \<and> snd (snd s) \<subseteq> wire c"

text \<open>The run of one peer \<open>i\<close> is lifted to the network.\<close>

lemma peer_run:
  assumes "simulates V c (n, k, Q)" "map_of (nw_peers n) i = Some p" "itf_raft p = Some r" "itf_raft p' = Some r'"
    and "wire_run V E r ms r'"
  shows "\<exists>c'. cluster_run V {} c c' \<and> simulates V c' (put_peer i p' n, k', Q \<union> set ms)"
proof -
  have i: "0 < i" "nodes c i = r" "voters (members r) = V" using assms(1-3) by (auto simp: simulates_def shows_cluster_def)
  from wire_run_cluster [OF assms(5) i(2,1) _ i(3), of "{}"] obtain c'
    where c': "cluster_run V {} c c'" "nodes c' = (nodes c)(i := r')" "wire c' = wire c \<union> set ms" by auto
  have "shows_cluster V (put_peer i p' n) c'"
    by (rule shows_put [OF _ i(1) c'(2) assms(4) wire_run_voters [OF assms(5) i(3)]]) (use assms(1) in \<open>simp add: simulates_def\<close>)
  then have "simulates V c' (put_peer i p' n, k', Q \<union> set ms)" using assms(1) c'(3) by (auto simp: simulates_def)
  with c'(1) show ?thesis by blast
qed

text \<open>The same for a peer that steps a message first.\<close>

lemma peer_step_run:
  assumes "simulates V c (n, k, Q)" "sendable Q m" "map_of (nw_peers n) (m_to m) = Some p" "itf_raft p = Some r"
    and "step E r m = Some (r1, x)" "voters (members r1) = V" "wire_run V E r1 ms r'" "itf_raft p' = Some r'"
  shows "\<exists>c'. cluster_run V {} c c' \<and> simulates V c' (put_peer (m_to m) p' n, k', Q \<union> set ms)"
proof -
  have i: "0 < m_to m" "nodes c (m_to m) = r" using assms(1,3,4) by (auto simp: simulates_def shows_cluster_def)
  have Q: "Q \<subseteq> wire c" using assms(1) by (simp add: simulates_def)
  from message_run [OF i(1) assms(2) Q refl _ assms(6,7), of x] i(2) assms(5) obtain c'
    where c': "cluster_run V {} c c'" "nodes c' = (nodes c)(m_to m := r')" "wire c' = wire c \<union> set ms" by auto
  have "shows_cluster V (put_peer (m_to m) p' n) c'"
    by (rule shows_put [OF _ i(1) c'(2) assms(8) wire_run_voters [OF assms(7,6)]]) (use assms(1) in \<open>simp add: simulates_def\<close>)
  then have "simulates V c' (put_peer (m_to m) p' n, k', Q \<union> set ms)" using assms(1) c'(3) by (auto simp: simulates_def)
  with c'(1) show ?thesis by blast
qed

lemma delivered_run:
  fixes E :: "MemStorageCore Env"
  assumes "simulates V c (n, k, Q)" "sendable Q m" "send_one E rnd m (n, k, []) = Some (n', k', resp)" "network_fixed V n'"
  shows "\<exists>c'. cluster_run V {} c c' \<and> simulates V c' (n', k', Q \<union> set resp)"
proof -
  obtain p p1 x p2 p3 ms where p: "map_of (nw_peers n) (m_to m) = Some p" "interface_step E p m = Some (p1, x)"
      "interface_persist E p1 = Some p2" "interface_read_messages p2 = (p3, ms)"
    and n': "n' = put_peer (m_to m) p3 n" "network_filter rnd n' ms k = Some (resp, k')"
    using assms(3) by (auto simp: send_one_def put_peer_def Let_def elim!: bind_SomeE split: prod.split_asm)
  have sub: "set resp \<subseteq> set ms" using network_filter_kept [OF n'(2)] by auto
  show ?thesis
  proof (cases "itf_raft p")
    case None
    then have "p3 = p" "ms = []"
      using p(2-4) by (auto simp: interface_step_def interface_persist_def interface_read_messages_def)
    then have "simulates V c (n', k', Q \<union> set resp)"
      using assms(1) shows_hole [of V n c p] None sub n'(1) by (simp add: simulates_def)
    then show ?thesis by blast
  next
    case (Some r)
    obtain r1 where r1: "step E r m = Some (r1, x)" "p1 = p\<lparr>itf_raft := Some r1\<rparr>"
      using p(2) Some by (auto simp: interface_step_def elim!: bind_SomeE)
    obtain r2 where r2: "itf_raft p2 = Some r2" "itf_raft p3 = Some (r2\<lparr>r_msgs := []\<rparr>)" "ms = r_msgs r2"
      using p(3,4) r1(2) by (auto simp: interface_persist_def interface_read_messages_def elim!: bind_SomeE)
    have "voters (members r2) = V" using fixed_put [of V _ p3] assms(4) r2(2) n'(1) by fastforce
    then have v1: "voters (members r1) = V" using interface_persist_members [OF p(3) _ r2(1)] r1(2) by simp
    obtain r3 where "itf_raft p2 = Some r3" "wire_run V E r1 [] r3" using interface_persist_ops [OF p(3) _ v1] r1(2) by auto
    then have "wire_run V E r1 ms (r2\<lparr>r_msgs := []\<rparr>)" using r2 wire_send [of V E r1 "[]" r2] by simp
    from peer_step_run [OF assms(1,2) p(1) Some r1(1) v1 this r2(2), of k'] obtain c'
      where "cluster_run V {} c c'" "simulates V c' (n', k', Q \<union> set ms)" using n'(1) by auto
    then show ?thesis using sub by (auto simp: simulates_def)
  qed
qed

lemma test_step_run:
  assumes "test_step V E rnd s s'" "simulates V c s"
  shows "\<exists>c'. cluster_run V {} c c' \<and> simulates V c' s'"
proof -
  have "test_part E rnd s s'" and fixed: "network_fixed V (fst s')" using assms(1) by (simp_all add: test_step_def)
  then show ?thesis
  proof cases
    case (faults n' n i j perc t k Q)
    then show ?thesis using assms(2) faults_peers [OF faults(3)] by (auto simp: simulates_def shows_cluster_def)
  next
    case (filtered n ms k kept k' Q)
    then show ?thesis using assms(2) by (auto simp: simulates_def)
  next
    case (delivered Q m n k n' k' resp)
    then show ?thesis using delivered_run [of V c n k Q m E rnd n' k' resp] assms(2) fixed by simp
  next
    case (dispatched Q m n p p' x k)
    show ?thesis
    proof (cases "itf_raft p")
      case None
      then have "p' = p" using dispatched(5) by (auto simp: interface_step_def)
      then show ?thesis using dispatched assms(2) shows_hole [of V n c p] None by (auto simp: simulates_def)
    next
      case (Some r)
      then obtain r1 where r1: "step E r m = Some (r1, x)" "itf_raft p' = Some r1"
        using dispatched(5) by (auto simp: interface_step_def elim!: bind_SomeE)
      then have v1: "voters (members r1) = V" using fixed_put [OF _ r1(2)] fixed dispatched(2) by simp
      have sim: "simulates V c (n, k, Q)" using assms(2) dispatched(1) by simp
      from peer_step_run [OF sim dispatched(3,4) Some r1(1) v1 wire_refl r1(2), of k] show ?thesis using dispatched(2) by simp
    qed
  next
    case (taken n i p p' ms k Q)
    show ?thesis
    proof (cases "itf_raft p")
      case None
      then have "p' = p" "ms = []" using taken(4) by (auto simp: interface_read_messages_def)
      then show ?thesis using taken assms(2) shows_hole [of V n c p] None by (auto simp: simulates_def)
    next
      case (Some r)
      then have r: "itf_raft p' = Some (r\<lparr>r_msgs := []\<rparr>)" "ms = r_msgs r" using taken(4) by (auto simp: interface_read_messages_def)
      have "wire_run V E r ms (r\<lparr>r_msgs := []\<rparr>)" using wire_send [of V E r "[]" r] r(2) by simp
      with peer_run [of V c n k Q i p r p' "r\<lparr>r_msgs := []\<rparr>" E ms k] taken assms(2) Some r show ?thesis by simp
    qed
  next
    case (persisted n i p p' k Q)
    show ?thesis
    proof (cases "itf_raft p")
      case None
      then have "p' = p" using persisted(4) by (auto simp: interface_persist_def)
      then show ?thesis using persisted assms(2) shows_hole [of V n c p] None by (auto simp: simulates_def)
    next
      case (Some r)
      then have "voters (members r) = V" using persisted assms(2) by (auto simp: simulates_def shows_cluster_def)
      then obtain r' where r': "itf_raft p' = Some r'" "wire_run V E r [] r'" using interface_persist_ops [OF persisted(4) Some] by blast
      with peer_run [of V c n k Q i p r p' r' E "[]" k] persisted assms(2) Some show ?thesis by simp
    qed
  next
    case (operated n i p r r' k Q)
    have "voters (members r') = V" using fixed_put [of V i "p\<lparr>itf_raft := Some r'\<rparr>" n r'] fixed operated(2) by simp
    then have "wire_run V E r [] r'" using operated(5) by (intro op_run)
    with peer_run [of V c n k Q i p r "p\<lparr>itf_raft := Some r'\<rparr>" r' E "[]" k] operated assms(2) show ?thesis by simp
  qed
qed

lemma test_run_cluster:
  "(test_step V E rnd)\<^sup>*\<^sup>* s s' \<Longrightarrow> simulates V c s \<Longrightarrow> \<exists>c'. cluster_run V {} c c' \<and> simulates V c' s'"
proof (induction rule: rtranclp_induct)
  case (step s1 s2)
  then show ?case using test_step_run by (meson rtranclp_trans)
qed auto

subsection \<open>A new network\<close>

definition network_voters :: "nat \<Rightarrow> JointConfig" where
  "network_voters N = \<lparr>incoming = [1..<N + 1], outgoing = []\<rparr>"

text \<open>A place of a network is for a new node or for nothing.\<close>

definition new_or_hole :: "Interface option \<Rightarrow> bool" where
  "new_or_hole p \<longleftrightarrow> p = None \<or> p = Some \<lparr>itf_raft = None\<rparr>"

lemma network_peer_fresh:
  assumes "network_peer (mem_env sz rr m1 m2) c [1..<N + 1] p i = Some q" "new_or_hole p" "0 < N" "itf_raft q = Some r"
  shows "fresh_node (network_voters N) i r"
proof -
  have "Raft_new (mem_env sz rr m1 m2) (c\<lparr>cfg_id := i\<rparr>) (new_store [1..<N + 1]) = Some (Inr r)"
    using assms(1,2,4)
    by (auto simp: network_peer_def new_or_hole_def mem_initialize_with_conf_state_def new_store_def unwrap_def Interface_new_def
        elim!: bind_SomeE split: sum.split_asm)
  from new_node_fresh [OF this] assms(3) show ?thesis by (simp add: network_voters_def del: upt_Suc)
qed

lemma network_new_peers:
  assumes "network_new_with_config (mem_env sz rr m1 m2) ps c = Some n" "list_all new_or_hole ps" "0 < length ps"
    and "map_of (nw_peers n) i = Some p" "itf_raft p = Some r"
  shows "0 < i \<and> fresh_node (network_voters (length ps)) i r"
proof -
  let ?P = "\<lambda>m. \<forall>i p r. map_of m i = Some p \<longrightarrow> itf_raft p = Some r \<longrightarrow> 0 < i \<and> fresh_node (network_voters (length ps)) i r"
  let ?f = "\<lambda>(p, i) m. do { q \<leftarrow> network_peer (mem_env sz rr m1 m2) c [1..<length ps + 1] p i; Some (hm_insert i q m) }"
  have f: "foldM ?f (zip ps [1..<length ps + 1]) [] = Some (nw_peers n)"
    using assms(1) by (auto simp: network_new_with_config_def Let_def elim!: bind_SomeE)
  from f have "?P (nw_peers n)"
  proof (rule foldM_inv [where P = ?P])
    fix x m m'
    assume x: "x \<in> set (zip ps [1..<length ps + 1])" and m: "?P m" and m': "?f x m = Some m'"
    obtain p i where xp: "x = (p, i)" by fastforce
    have "p \<in> set ps" "i \<in> set [1..<length ps + 1]"
      using x xp set_zip_leftD [of p i ps] set_zip_rightD [of p i ps] by blast+
    then have p: "new_or_hole p" "0 < i" using assms(2) by (auto simp: list_all_iff simp del: upt_Suc)
    show "?P m'"
      using m m' xp p(2) network_peer_fresh [OF _ p(1) assms(3)] by (fastforce elim!: bind_SomeE split: if_split_asm)
  qed simp
  with assms(4,5) show ?thesis by blast
qed

lemma network_new_shows:
  assumes "network_new_with_config (mem_env sz rr m1 m2) ps c = Some n" "list_all new_or_hole ps" "0 < length ps"
  shows "\<exists>c0. cluster_init (network_voters (length ps)) {} c0 \<and> shows_cluster (network_voters (length ps)) n c0"
proof -
  let ?V = "network_voters (length ps)"
  define node where "node i = (case Option.bind (map_of (nw_peers n) i) itf_raft of Some r \<Rightarrow> r | None \<Rightarrow> start_node ?V i)" for i
  have "fresh_node ?V i (node i)" for i
    using network_new_peers [OF assms] fresh_start_node by (auto simp: node_def split: option.split bind_splits)
  then have "cluster_init ?V {} \<lparr>nodes = node, wits = Witness_new, wire = {}, ballots = {}, elected = {}\<rparr>"
    by (rule fresh_cluster_init)
  moreover have "shows_cluster ?V n \<lparr>nodes = node, wits = Witness_new, wire = {}, ballots = {}, elected = {}\<rparr>"
    using network_new_peers [OF assms] by (auto simp: shows_cluster_def node_def fresh_node_def)
  ultimately show ?thesis by blast
qed

subsection \<open>Test runs\<close>

text \<open>C3: the test network refines the cluster model.  A test makes a network of new nodes and black holes with any configuration
  and then, in any order, changes which messages are lost, puts in messages that nodes have handed out or local ones (campaigns,
  proposals, beats, reports) by \<open>send\<close>, \<open>filter_and_send\<close> or \<open>dispatch\<close>, takes messages out, persists and ticks peers and does to
  them whatever else a host can do; messages that a test forges are not among these.  As long as the voters of all nodes are
  the initial ones after every step (a snapshot or a configuration change may not change the voters), the nodes of the
  network are those of some run of the cluster model, with every message handed out on its wire; so two leaders of the same
  term are the same node.  Every call of \<open>send\<close>, \<open>filter_and_send\<close> and \<open>dispatch\<close> that returns is a sequence of such steps.\<close>

theorem network_refines_cluster:
  assumes "network_new_with_config (mem_env sz rr m1 m2) ps cfg = Some n0" "list_all new_or_hole ps" "0 < length ps"
    and "(test_step (network_voters (length ps)) (mem_env sz rr m1 m2) rnd)\<^sup>*\<^sup>* (n0, 0, {}) (n, k, Q)"
  shows "(\<exists>c0 c. cluster_init (network_voters (length ps)) {} c0 \<and> cluster_run (network_voters (length ps)) {} c0 c \<and>
      shows_cluster (network_voters (length ps)) n c \<and> Q \<subseteq> wire c) \<and>
    (\<forall>i p r j q s. map_of (nw_peers n) i = Some p \<and> itf_raft p = Some r \<and> map_of (nw_peers n) j = Some q \<and>
      itf_raft q = Some s \<and> r_state r = Leader \<and> r_state s = Leader \<and> r_term r = r_term s \<longrightarrow> i = j) \<and>
    (\<forall>ms n' k' x. list_all (sendable Q) ms \<and>
      (network_send (mem_env sz rr m1 m2) rnd n k ms = Some (n', k') \<or>
       network_filter_and_send (mem_env sz rr m1 m2) rnd n k ms = Some (n', k') \<or>
       network_dispatch (mem_env sz rr m1 m2) rnd n k ms = Some (n', k', x)) \<longrightarrow>
      (\<exists>Q'. (test_part (mem_env sz rr m1 m2) rnd)\<^sup>*\<^sup>* (n, k, Q) (n', k', Q')))"
proof -
  let ?V = "network_voters (length ps)"
  obtain c0 where c0: "cluster_init ?V {} c0" "simulates ?V c0 (n0, 0, {})"
    using network_new_shows [OF assms(1-3)] by (auto simp: simulates_def)
  obtain c where c: "cluster_run ?V {} c0 c" "simulates ?V c (n, k, Q)" using test_run_cluster [OF assms(4) c0(2)] by blast
  have "incoming ?V \<noteq> []" using assms(3) by (simp add: network_voters_def Suc_le_eq)
  then have inv: "cluster_inv ?V {} c" by (rule cluster_run_inv [OF c(1) c0(1)])
  have elected: "(r_term r, i) \<in> elected c" if "map_of (nw_peers n) i = Some p" "itf_raft p = Some r" "r_state r = Leader" for i p r
  proof -
    have "0 < i" "nodes c i = r" using that c(2) by (auto simp: simulates_def shows_cluster_def)
    then show ?thesis using inv that(3) by (auto simp: cluster_inv_def)
  qed
  show ?thesis
  proof (intro conjI)
    show "\<exists>c0 c. cluster_init ?V {} c0 \<and> cluster_run ?V {} c0 c \<and> shows_cluster ?V n c \<and> Q \<subseteq> wire c"
      using c0(1) c by (auto simp: simulates_def)
  next
    show "\<forall>i p r j q s. map_of (nw_peers n) i = Some p \<and> itf_raft p = Some r \<and> map_of (nw_peers n) j = Some q \<and>
      itf_raft q = Some s \<and> r_state r = Leader \<and> r_state s = Leader \<and> r_term r = r_term s \<longrightarrow> i = j"
      using elected one_elected [OF inv] by metis
  next
    show "\<forall>ms n' k' x. list_all (sendable Q) ms \<and>
      (network_send (mem_env sz rr m1 m2) rnd n k ms = Some (n', k') \<or>
       network_filter_and_send (mem_env sz rr m1 m2) rnd n k ms = Some (n', k') \<or>
       network_dispatch (mem_env sz rr m1 m2) rnd n k ms = Some (n', k', x)) \<longrightarrow>
      (\<exists>Q'. (test_part (mem_env sz rr m1 m2) rnd)\<^sup>*\<^sup>* (n, k, Q) (n', k', Q'))"
      by (intro allI impI, elim conjE disjE) (rule network_send_parts filter_and_send_parts dispatch_parts, assumption+)+
  qed
qed

text \<open>Two nodes and a black hole: node 1 campaigns, node 2 grants its vote and node 1 is leader of term 1.\<close>

definition ex_hup :: Message where
  "ex_hup = (new_message 1 MsgHup None)\<lparr>m_to := 1\<rparr>"

definition ex_network :: Network where
  "ex_network = the (network_new ex_env [None, None, Some \<lparr>itf_raft = None\<rparr>])"

text \<open>The first message in flight to node 2, and the first to node 1.\<close>

definition ex_sent :: "nat \<Rightarrow> Message list \<Rightarrow> Message" where
  "ex_sent i ms = hd (filter (\<lambda>m. m_to m = i) ms)"

type_synonym delivery = "Network \<times> nat \<times> Message list"

definition ex_deliver :: "Message \<Rightarrow> delivery \<Rightarrow> delivery panics" where
  "ex_deliver m s = send_one ex_env (\<lambda>_. 0) m (fst s, fst (snd s), [])"

definition ex_elected :: "(delivery \<times> delivery \<times> delivery) panics" where
  "ex_elected = do {
     s1 \<leftarrow> ex_deliver ex_hup (ex_network, 0, []);
     s2 \<leftarrow> ex_deliver (ex_sent 2 (snd (snd s1))) s1;
     s3 \<leftarrow> ex_deliver (ex_sent 1 (snd (snd s2))) s2;
     Some (s1, s2, s3)
   }"

definition ex_fixed :: "Network \<Rightarrow> bool" where
  "ex_fixed n \<longleftrightarrow> list_all (\<lambda>(i, p). case itf_raft p of Some r \<Rightarrow> voters (members r) = network_voters 3 | None \<Rightarrow> True) (nw_peers n)"

lemma ex_fixed_network: "ex_fixed n \<Longrightarrow> network_fixed (network_voters 3) n"
  by (fastforce simp: ex_fixed_def network_fixed_def list_all_iff dest!: map_of_SomeD split: option.split_asm)

lemma ex_delivered:
  assumes "ex_deliver m s = Some s'" "sendable Q m" "ex_fixed (fst s')"
  shows "test_step (network_voters 3) ex_env (\<lambda>_. 0) (fst s, fst (snd s), Q) (fst s', fst (snd s'), Q \<union> set (snd (snd s')))"
  using delivered [OF assms(2), of ex_env "\<lambda>_. 0" "fst s" "fst (snd s)" "fst s'" "fst (snd s')" "snd (snd s')"]
    ex_fixed_network [OF assms(3)] assms(1)
  by (simp add: test_step_def ex_deliver_def)

theorem network_refines_cluster_witness:
  defines "n \<equiv> fst (snd (snd (the ex_elected)))"
  shows "(\<exists>p r. map_of (nw_peers n) 1 = Some p \<and> itf_raft p = Some r \<and> r_state r = Leader \<and> r_term r = 1) \<and>
    {i. \<exists>p r. map_of (nw_peers n) i = Some p \<and> itf_raft p = Some r \<and> r_state r = Leader \<and> r_term r = 1} = {1}"
proof -
  let ?ps = "[None, None, Some \<lparr>itf_raft = None\<rparr>]" and ?step = "test_step (network_voters 3) ex_env (\<lambda>_. 0)"
  have env: "ex_env = mem_env (\<lambda>e. 1) (\<lambda>lo hi. lo) (\<lambda>b. None) (\<lambda>b. None)" by (simp add: ex_env_def mem_env_def)
  have new: "network_new_with_config ex_env ?ps network_default_config = Some ex_network"
    unfolding ex_network_def network_new_def by (subst option.collapse) (code_simp, simp)
  have "case ex_elected of None \<Rightarrow> False | Some (s1, s2, s3) \<Rightarrow>
      ex_fixed (fst s1) \<and> ex_fixed (fst s2) \<and> ex_fixed (fst s3) \<and>
      filter (\<lambda>m. m_to m = 2) (snd (snd s1)) \<noteq> [] \<and> filter (\<lambda>m. m_to m = 1) (snd (snd s2)) \<noteq> [] \<and>
      map_option (\<lambda>r. (r_state r, r_term r)) (Option.bind (map_of (nw_peers (fst s3)) 1) itf_raft) = Some (Leader, 1)"
    unfolding ex_elected_def ex_network_def by code_simp
  then obtain s1 s2 s3 where s: "ex_elected = Some (s1, s2, s3)" "ex_fixed (fst s1)" "ex_fixed (fst s2)" "ex_fixed (fst s3)"
      "filter (\<lambda>m. m_to m = 2) (snd (snd s1)) \<noteq> []" "filter (\<lambda>m. m_to m = 1) (snd (snd s2)) \<noteq> []"
      "map_option (\<lambda>r. (r_state r, r_term r)) (Option.bind (map_of (nw_peers (fst s3)) 1) itf_raft) = Some (Leader, 1)"
    by (auto split: option.split_asm)
  from s(1) have d: "ex_deliver ex_hup (ex_network, 0, []) = Some s1" "ex_deliver (ex_sent 2 (snd (snd s1))) s1 = Some s2"
      "ex_deliver (ex_sent 1 (snd (snd s2))) s2 = Some s3"
    by (auto simp: ex_elected_def elim!: bind_SomeE)
  define Q where "Q = set (snd (snd s1)) \<union> set (snd (snd s2))"
  have m: "sendable {} ex_hup" "sendable (set (snd (snd s1))) (ex_sent 2 (snd (snd s1)))" "sendable Q (ex_sent 1 (snd (snd s2)))"
    using hd_in_set [OF s(5)] hd_in_set [OF s(6)]
    by (auto simp: Q_def ex_sent_def sendable_def local_msg_def ex_hup_def new_message_def has_term_def)
  have "?step (ex_network, 0, {}) (fst s1, fst (snd s1), set (snd (snd s1)))" using ex_delivered [OF d(1) m(1) s(2)] by simp
  moreover have "?step (fst s1, fst (snd s1), set (snd (snd s1))) (fst s2, fst (snd s2), Q)"
    using ex_delivered [OF d(2) m(2) s(3)] by (simp add: Q_def)
  moreover note ex_delivered [OF d(3) m(3) s(4)]
  ultimately have run: "?step\<^sup>*\<^sup>* (ex_network, 0, {}) (fst s3, fst (snd s3), Q \<union> set (snd (snd s3)))"
    by (meson rtranclp.rtrancl_into_rtrancl rtranclp.rtrancl_refl)
  have n: "n = fst s3" unfolding n_def s(1) by simp
  obtain p r where p: "map_of (nw_peers n) 1 = Some p" "itf_raft p = Some r" "r_state r = Leader" "r_term r = 1"
    using s(7) unfolding n by (auto split: bind_split_asm)
  have "i = 1" if "map_of (nw_peers n) i = Some q" "itf_raft q = Some s" "r_state s = Leader" "r_term s = 1" for i q s
  proof -
    have len: "length ?ps = 3" by simp
    note one = network_refines_cluster [OF new [unfolded env] _ _ run [folded len, unfolded env], THEN conjunct2, THEN conjunct1]
    from one that p show ?thesis unfolding n by (fastforce simp: new_or_hole_def)
  qed
  with p show ?thesis by blast
qed

subsection \<open>Losing messages\<close>

lemma drop_rate_drop: "drop_rate (network_drop n i j perc) a b = (if (a, b) = (i, j) then perc else drop_rate n a b)"
  by (auto simp: drop_rate_def network_drop_def)

lemma isolate_rate:
  "drop_rate (fold (\<lambda>j n. let nid = j + 1 in if nid \<noteq> i then network_drop (network_drop n i nid 1) nid i 1 else n) js n) a b =
    (if a = i \<and> b \<noteq> i \<and> b \<in> Suc ` set js \<or> b = i \<and> a \<noteq> i \<and> a \<in> Suc ` set js then 1 else drop_rate n a b)"
proof (induction js arbitrary: n)
  case (Cons j js)
  let ?f = "\<lambda>j n. let nid = j + 1 in if nid \<noteq> i then network_drop (network_drop n i nid 1) nid i 1 else n"
  define n' where "n' = ?f j n"
  have rate: "drop_rate n' a b = (if a = i \<and> b \<noteq> i \<and> b = Suc j \<or> b = i \<and> a \<noteq> i \<and> a = Suc j then 1 else drop_rate n a b)"
    by (simp add: n'_def drop_rate_drop)
  have "drop_rate (fold ?f (j # js) n) a b = drop_rate (fold ?f js n') a b" by (simp add: n'_def)
  also have "\<dots> = (if a = i \<and> b \<noteq> i \<and> b \<in> Suc ` set (j # js) \<or> b = i \<and> a \<noteq> i \<and> a \<in> Suc ` set (j # js) then 1
      else drop_rate n a b)"
    unfolding Cons.IH [of n'] rate by auto
  finally show ?case .
qed simp

lemma network_filter_total:
  assumes "list_all (\<lambda>m. ignores n (msg_type m) \<or> msg_type m \<noteq> MsgHup) ms"
  shows "\<exists>kept k'. network_filter rnd n ms k = Some (kept, k')"
  using assms
proof (induction ms arbitrary: k)
  case (Cons m ms)
  then obtain kept k' where "network_filter rnd n ms (k + 1) = Some (kept, k')" "list_all (\<lambda>m. ignores n (msg_type m) \<or> msg_type m \<noteq> MsgHup) ms"
    by fastforce
  with Cons show ?case by (auto simp: Let_def ensure_def)
qed simp

lemma network_filter_all:
  assumes "list_all (\<lambda>m. msg_type m \<noteq> MsgHup) ms" "\<And>k. 0 \<le> rnd k" "nw_dropm n = []" "nw_ignorem n = []"
  shows "network_filter rnd n ms k = Some (ms, k + length ms)"
  using assms(1)
proof (induction ms arbitrary: k)
  case (Cons m ms)
  then show ?case using assms(2-4) by (simp add: ignores_def drop_rate_def Let_def ensure_def)
qed simp

text \<open>An isolated node is cut off: \<open>filter\<close> passes no message from it to another peer of the network or from another
  peer to it; between any two other peers every message has the chance it had before; and after \<open>recover\<close> every
  message passes.  (A random number is at least 0 and less than 1.)\<close>

theorem network_isolation:
  assumes "\<And>k. 0 \<le> rnd k \<and> rnd k < 1" "network_filter rnd (network_isolate n i) ms k = Some (kept, k')"
    and "m \<in> set kept" "m_from m \<in> {1..length (nw_peers n)}" "m_to m \<in> {1..length (nw_peers n)}" "m_from m \<noteq> m_to m"
  shows "m_from m \<noteq> i \<and> m_to m \<noteq> i \<and> drop_rate (network_isolate n i) (m_from m) (m_to m) = drop_rate n (m_from m) (m_to m) \<and>
    network_filter rnd (network_recover (network_isolate n i)) kept k = Some (kept, k + length kept)"
proof -
  let ?n = "network_isolate n i" and ?N = "length (nw_peers n)"
  have kept: "set kept \<subseteq> {m \<in> set ms. \<not> ignores ?n (msg_type m) \<and> msg_type m \<noteq> MsgHup \<and> (\<exists>j. drop_rate ?n (m_from m) (m_to m) \<le> rnd j)}"
    by (rule network_filter_kept [OF assms(2)])
  then obtain j where "drop_rate ?n (m_from m) (m_to m) \<le> rnd j" using assms(3) by auto
  then have "drop_rate ?n (m_from m) (m_to m) < 1" using assms(1) by (meson order_le_less_trans)
  moreover have "a \<in> Suc ` set [0..<?N]" if "a \<in> {1..?N}" for a using that by (auto simp: image_iff intro: bexI [of _ "a - 1"])
  ultimately have "m_from m \<noteq> i" "m_to m \<noteq> i" "drop_rate ?n (m_from m) (m_to m) = drop_rate n (m_from m) (m_to m)"
    using assms(4-6) unfolding network_isolate_def isolate_rate by (auto split: if_split_asm)
  moreover have "network_filter rnd (network_recover ?n) kept k = Some (kept, k + length kept)"
    using kept assms(1) by (intro network_filter_all) (auto simp: list_all_iff network_recover_def)
  ultimately show ?thesis by blast
qed

end
