(* ===== verification/Witness_Demo.thy ===== *)
theory Witness_Demo
  imports Host_Runs
begin

section \<open>A host with a witness: the witness demo\<close>

text \<open>
  The simulator of \<^verbatim>\<open>examples/witness_demo/main.rs\<close>, the one place of the repository that puts \<^verbatim>\<open>RawNode\<close>, \<^verbatim>\<open>MemStorage\<close> and
  \<^verbatim>\<open>Witness\<close> together: it ticks the nodes, handles their readies, delivers messages, asks the witness and translates its
  answers.  A \<^verbatim>\<open>MemStorage\<close> is a shared handle: what the host writes into it, the node's log reads.  The script \<^verbatim>\<open>main\<close> and
  the lines it prints are left out.
\<close>

subsection \<open>The simulator\<close>

record DemoCluster =
  dc_nodes :: "(nat, MemStorageCore RawNode option) hmap"
  dc_witness :: Witness
  dc_witness_id :: nat
  dc_pending_msgs :: "Message list"
  dc_pending_witness_msgs :: "WitnessMessage list"
  dc_dead_nodes :: "nat list"
  dc_witness_heartbeat_count :: nat
  dc_witness_append_count :: nat

definition demo_new :: "nat \<Rightarrow> DemoCluster" where
  "demo_new witness_id = \<lparr>dc_nodes = [], dc_witness = Witness_new witness_id, dc_witness_id = witness_id,
     dc_pending_msgs = [], dc_pending_witness_msgs = [], dc_dead_nodes = [], dc_witness_heartbeat_count = 0,
     dc_witness_append_count = 0\<rparr>"

definition demo_add_node ::
  "(MemStorageCore, 'm) Env_scheme \<Rightarrow> nat list \<Rightarrow> nat \<Rightarrow> DemoCluster \<Rightarrow> DemoCluster panics" where
  "demo_add_node E vs i d = do {
     let cfg = Config_default\<lparr>cfg_id := i, cfg_check_quorum := True\<rparr>;
     st \<leftarrow> mem_initialize_with_conf_state MemStorage_new (ConfState_default\<lparr>cs_voters := vs\<rparr>);
     res \<leftarrow> RawNode_new E cfg st;
     rn \<leftarrow> unwrap res;
     Some (d\<lparr>dc_nodes := hm_insert i (Some rn) (dc_nodes d)\<rparr>)
   }"

definition demo_node :: "DemoCluster \<Rightarrow> nat \<Rightarrow> MemStorageCore RawNode option" where
  "demo_node d i = Option.bind (map_of (dc_nodes d) i) (\<lambda>n. n)"

definition demo_set_node :: "nat \<Rightarrow> MemStorageCore RawNode \<Rightarrow> DemoCluster \<Rightarrow> DemoCluster" where
  "demo_set_node i rn d = d\<lparr>dc_nodes := hm_insert i (Some rn) (dc_nodes d)\<rparr>"

definition demo_leader_id :: "DemoCluster \<Rightarrow> nat" where
  "demo_leader_id d = (case find (\<lambda>(i, n). case n of Some rn \<Rightarrow> r_state (rn_raft rn) = Leader | None \<Rightarrow> False) (dc_nodes d) of
     Some (i, _) \<Rightarrow> i
   | None \<Rightarrow> 0)"

definition demo_kill :: "nat \<Rightarrow> DemoCluster \<Rightarrow> DemoCluster" where
  "demo_kill i d = d\<lparr>dc_dead_nodes := hs_insert i (dc_dead_nodes d)\<rparr>"

definition demo_recover :: "nat \<Rightarrow> DemoCluster \<Rightarrow> DemoCluster" where
  "demo_recover i d = d\<lparr>dc_dead_nodes := hs_remove i (dc_dead_nodes d)\<rparr>"

definition demo_tick_one :: "(MemStorageCore, 'm) Env_scheme \<Rightarrow> nat \<Rightarrow> DemoCluster \<Rightarrow> DemoCluster panics" where
  "demo_tick_one E i d =
     (if i \<in> set (dc_dead_nodes d) then Some d
      else case demo_node d i of
        None \<Rightarrow> Some d
      | Some rn \<Rightarrow> do { (rn, _) \<leftarrow> rn_tick E rn; Some (demo_set_node i rn d) })"

definition demo_tick :: "(MemStorageCore, 'm) Env_scheme \<Rightarrow> DemoCluster \<Rightarrow> DemoCluster panics" where
  "demo_tick E d = foldM (demo_tick_one E) (keys (dc_nodes d)) d"

subsection \<open>Handling a ready\<close>

text \<open>Writing through the shared handle of a node's storage.\<close>

definition rn_store :: "MemStorageCore RawNode \<Rightarrow> MemStorageCore" where
  "rn_store rn = store (r_log (rn_raft rn))"

definition rn_set_store :: "MemStorageCore \<Rightarrow> MemStorageCore RawNode \<Rightarrow> MemStorageCore RawNode" where
  "rn_set_store st rn = rn\<lparr>rn_raft := (rn_raft rn)\<lparr>r_log := (r_log (rn_raft rn))\<lparr>store := st\<rparr>\<rparr>\<rparr>"

definition persist_ready :: "MemStorageCore \<Rightarrow> Ready \<Rightarrow> MemStorageCore panics" where
  "persist_ready st rd = do {
     st \<leftarrow> (if \<not> snap_is_empty (rd_snapshot rd)
           then (case mem_apply_snapshot st (rd_snapshot rd) of (st, res) \<Rightarrow> do { _ \<leftarrow> unwrap res; Some st })
           else Some st);
     st \<leftarrow> (if rd_entries rd \<noteq> [] then mem_append st (rd_entries rd) else Some st);
     Some (case rd_hs rd of Some hs \<Rightarrow> mem_set_hardstate st hs | None \<Rightarrow> st)
   }"

definition persist_commit :: "MemStorageCore \<Rightarrow> LightReady \<Rightarrow> MemStorageCore" where
  "persist_commit st light = (case lr_commit_index light of
     Some commit \<Rightarrow> mem_set_hardstate st ((rs_hard_state (raft_state st))\<lparr>hs_commit := commit\<rparr>)
   | None \<Rightarrow> st)"

text \<open>One ready of one node: persisted, taken apart and advanced.  The result has the messages in the order in which
  they become pending, the messages for the witness, and the committed entries.\<close>

definition handle_ready ::
  "(MemStorageCore, 'm) Storage_scheme \<Rightarrow> MemStorageCore RawNode \<Rightarrow>
    (MemStorageCore RawNode \<times> Message list \<times> WitnessMessage list \<times> Entry list) panics" where
  "handle_ready E rn = do {
     (rn, rd) \<leftarrow> ready E rn;
     st \<leftarrow> persist_ready (rn_store rn) rd;
     let rn = rn_set_store st rn;
     let (rd, msgs) = rd_take_messages rd;
     let (rd, persisted_msgs) = rd_take_persisted_messages rd;
     let (rd, witness_msgs) = rd_take_witness_messages rd;
     let (rd, committed_entries) = rd_take_committed_entries rd;
     (rn, light) \<leftarrow> rn_advance E rn rd;
     let rn = rn_set_store (persist_commit (rn_store rn) light) rn;
     let (light, light_msgs) = lr_take_messages light;
     let (light, light_committed) = lr_take_committed_entries light;
     rn \<leftarrow> advance_apply E rn;
     Some (rn, msgs @ persisted_msgs @ light_msgs, witness_msgs, committed_entries @ light_committed)
   }"

definition demo_apply_entry ::
  "(MemStorageCore, 'm) Env_scheme \<Rightarrow> nat \<Rightarrow> Entry \<Rightarrow> DemoCluster \<Rightarrow> DemoCluster panics" where
  "demo_apply_entry E i e d =
     (if is_conf_change_entry e
      then do {
        cc \<leftarrow> (if entry_type e = EntryConfChange then map_option cc_into_v2 (merge_ConfChange E (e_data e))
              else merge_ConfChangeV2 E (e_data e));
        rn \<leftarrow> demo_node d i;
        (rn, res) \<leftarrow> rn_apply_conf_change E rn (Inr cc);
        _ \<leftarrow> unwrap res;
        let cs = to_conf_state (conf (r_prs (rn_raft rn)));
        Some (demo_set_node i (rn_set_store (mem_set_conf_state (rn_store rn) cs) rn) d)
      }
      else Some d)"

definition demo_visit :: "(MemStorageCore, 'm) Env_scheme \<Rightarrow> nat \<Rightarrow> DemoCluster \<Rightarrow> DemoCluster panics" where
  "demo_visit E i d =
     (if i \<in> set (dc_dead_nodes d) then Some d
      else do {
        b \<leftarrow> (case demo_node d i of Some rn \<Rightarrow> has_ready E rn | None \<Rightarrow> Some False);
        if \<not> b then Some d
        else do {
          rn \<leftarrow> demo_node d i;
          (rn, msgs, witness_msgs, committed_entries) \<leftarrow> handle_ready E rn;
          d \<leftarrow> foldM (demo_apply_entry E i) committed_entries (demo_set_node i rn d);
          Some (d\<lparr>dc_pending_msgs := dc_pending_msgs d @ msgs,
                  dc_pending_witness_msgs := dc_pending_witness_msgs d @ witness_msgs\<rparr>)
        }
      })"

subsection \<open>Delivering messages\<close>

definition deliver_one :: "(MemStorageCore, 'm) Env_scheme \<Rightarrow> Message \<Rightarrow> DemoCluster \<Rightarrow> DemoCluster panics" where
  "deliver_one E m d =
     (if m_to m \<in> set (dc_dead_nodes d) \<or> m_from m \<in> set (dc_dead_nodes d) then Some d
      else case demo_node d (m_to m) of
        None \<Rightarrow> Some d
      | Some rn \<Rightarrow> do { (rn, _) \<leftarrow> rn_step E rn m; Some (demo_set_node (m_to m) rn d) })"

definition deliver_msgs :: "(MemStorageCore, 'm) Env_scheme \<Rightarrow> DemoCluster \<Rightarrow> DemoCluster panics" where
  "deliver_msgs E d = foldM (deliver_one E) (dc_pending_msgs d) (d\<lparr>dc_pending_msgs := []\<rparr>)"

definition translate_witness_response :: "WitnessMessage \<Rightarrow> WitnessResponse \<Rightarrow> DemoCluster \<Rightarrow> DemoCluster" where
  "translate_witness_response orig resp d = (case resp of
     Persist st \<Rightarrow>
       if wm_msg_type orig = MsgAppend
       then d\<lparr>dc_witness_append_count := dc_witness_append_count d + 1,
              dc_pending_msgs := dc_pending_msgs d @ [Message_default\<lparr>msg_type := MsgAppendResponse,
                m_from := dc_witness_id d, m_to := wm_from orig, m_term := hs_term (wh_state st),
                m_commit := hs_commit (wh_state st)\<rparr>]\<rparr>
       else d
   | VoteGrant g \<Rightarrow>
       d\<lparr>dc_pending_msgs := dc_pending_msgs d @ [Message_default\<lparr>msg_type := MsgRequestVoteResponse,
         m_from := dc_witness_id d, m_to := wm_from orig, m_term := w_term (dc_witness d), m_reject := \<not> g\<rparr>]\<rparr>
   | StaleTerm witness_term \<Rightarrow>
       d\<lparr>dc_pending_msgs := dc_pending_msgs d @ [Message_default\<lparr>msg_type := MsgAppendResponse,
         m_from := dc_witness_id d, m_to := wm_from orig, m_term := witness_term, m_reject := True\<rparr>]\<rparr>)"

definition ask_witness :: "WitnessMessage \<Rightarrow> DemoCluster \<Rightarrow> DemoCluster" where
  "ask_witness wm d = (case witness_process (dc_witness d) wm of
     (w, None) \<Rightarrow> d\<lparr>dc_witness := w\<rparr>
   | (w, Some resp) \<Rightarrow> translate_witness_response wm resp (d\<lparr>dc_witness := w\<rparr>))"

definition ask_witness_all :: "DemoCluster \<Rightarrow> DemoCluster" where
  "ask_witness_all d = fold ask_witness (dc_pending_witness_msgs d) (d\<lparr>dc_pending_witness_msgs := []\<rparr>)"

definition demo_process :: "(MemStorageCore, 'm) Env_scheme \<Rightarrow> DemoCluster \<Rightarrow> DemoCluster panics" where
  "demo_process E d = do {
     d \<leftarrow> foldM (demo_visit E) (keys (dc_nodes d)) d;
     d \<leftarrow> deliver_msgs E d;
     deliver_msgs E (ask_witness_all d)
   }"

fun step_n :: "(MemStorageCore, 'm) Env_scheme \<Rightarrow> nat \<Rightarrow> DemoCluster \<Rightarrow> DemoCluster panics" where
  "step_n E 0 d = Some d"
| "step_n E (Suc n) d = do { d \<leftarrow> demo_tick E d; d \<leftarrow> demo_process E d; step_n E n d }"

definition demo_commit_index :: "DemoCluster \<Rightarrow> nat \<Rightarrow> nat" where
  "demo_commit_index d i = (case demo_node d i of Some rn \<Rightarrow> committed (r_log (rn_raft rn)) | None \<Rightarrow> 0)"

definition demo_last_index :: "(MemStorageCore, 'm) Storage_scheme \<Rightarrow> DemoCluster \<Rightarrow> nat \<Rightarrow> nat panics" where
  "demo_last_index E d i = (case demo_node d i of Some rn \<Rightarrow> log_last_index E (r_log (rn_raft rn)) | None \<Rightarrow> Some 0)"

subsection \<open>Schedules of the simulator\<close>

text \<open>
  The steps of the simulator one by one, in any order, with any messages lost or delivered again: everything that
  \<open>demo_tick\<close>, \<open>demo_process\<close>, \<open>demo_kill\<close>, \<open>demo_recover\<close> and the requests of the application (to campaign, to propose) are
  made of.  As in the cluster theorem the voters \<open>V\<close> stay: after every step each node has them.
\<close>

definition demo_voters :: "JointConfig \<Rightarrow> DemoCluster \<Rightarrow> bool" where
  "demo_voters V d \<longleftrightarrow> (\<forall>i rn. demo_node d i = Some rn \<longrightarrow> voters (members (rn_raft rn)) = V)"

definition application_msg :: "Message \<Rightarrow> bool" where
  "application_msg m \<longleftrightarrow> m_term m = 0 \<and> msg_type m \<in> {MsgHup, MsgPropose, MsgReadIndex, MsgTransferLeader, MsgUnreachable, MsgSnapStatus}"

inductive demo_part :: "MemStorageCore Env \<Rightarrow> DemoCluster \<Rightarrow> DemoCluster \<Rightarrow> bool" for E where
  part_tick: "demo_tick_one E i d = Some d' \<Longrightarrow> demo_part E d d'"
| part_ready: "demo_node d i = Some rn \<Longrightarrow> handle_ready E rn = Some (rn', ms, ws, es) \<Longrightarrow>
    demo_part E d ((demo_set_node i rn' d)\<lparr>dc_pending_msgs := dc_pending_msgs d @ ms,
      dc_pending_witness_msgs := dc_pending_witness_msgs d @ ws\<rparr>)"
| part_apply: "demo_apply_entry E i e d = Some d' \<Longrightarrow> demo_part E d d'"
| part_deliver: "m \<in> set (dc_pending_msgs d) \<Longrightarrow> deliver_one E m d = Some d' \<Longrightarrow> demo_part E d d'"
| part_witness: "wm \<in> set (dc_pending_witness_msgs d) \<Longrightarrow> demo_part E d (ask_witness wm d)"
| part_lose: "set ms \<subseteq> set (dc_pending_msgs d) \<Longrightarrow> set ws \<subseteq> set (dc_pending_witness_msgs d) \<Longrightarrow>
    demo_part E d (d\<lparr>dc_pending_msgs := ms, dc_pending_witness_msgs := ws\<rparr>)"
| part_kill: "demo_part E d (demo_kill i d)"
| part_recover: "demo_part E d (demo_recover i d)"
| part_application: "demo_node d i = Some rn \<Longrightarrow> application_msg m \<Longrightarrow> on_raft rn (step E (rn_raft rn) m) = Some (rn', x) \<Longrightarrow>
    demo_part E d (demo_set_node i rn' d)"

definition demo_step :: "JointConfig \<Rightarrow> MemStorageCore Env \<Rightarrow> DemoCluster \<Rightarrow> DemoCluster \<Rightarrow> bool" where
  "demo_step V E d d' \<longleftrightarrow> demo_part E d d' \<and> demo_voters V d'"

text \<open>The operations of the simulator are such schedules.\<close>

lemma foldM_steps:
  assumes "foldM f xs s = Some t" "\<And>x s t. f x s = Some t \<Longrightarrow> R\<^sup>*\<^sup>* s t"
  shows "R\<^sup>*\<^sup>* s t"
  using assms(1) by (rule foldM_rel) (auto intro: assms(2) rtranclp_trans)

lemma demo_tick_parts: "demo_tick E d = Some d' \<Longrightarrow> (demo_part E)\<^sup>*\<^sup>* d d'"
  unfolding demo_tick_def by (erule foldM_steps) (blast intro: part_tick)

text \<open>Applying and delivering do not look at what is pending.\<close>

lemma node_pending [simp]:
  "demo_node (d\<lparr>dc_pending_msgs := ms\<rparr>) = demo_node d" "demo_node (d\<lparr>dc_pending_witness_msgs := ws\<rparr>) = demo_node d"
  "demo_set_node i rn (d\<lparr>dc_pending_msgs := ms\<rparr>) = (demo_set_node i rn d)\<lparr>dc_pending_msgs := ms\<rparr>"
  "demo_set_node i rn (d\<lparr>dc_pending_witness_msgs := ws\<rparr>) = (demo_set_node i rn d)\<lparr>dc_pending_witness_msgs := ws\<rparr>"
  "dc_pending_msgs (demo_set_node i rn d) = dc_pending_msgs d"
  "dc_pending_witness_msgs (demo_set_node i rn d) = dc_pending_witness_msgs d"
  by (simp_all add: demo_node_def demo_set_node_def fun_eq_iff)

definition with_pending :: "Message list \<Rightarrow> WitnessMessage list \<Rightarrow> DemoCluster \<Rightarrow> DemoCluster" where
  "with_pending ms ws d = d\<lparr>dc_pending_msgs := ms, dc_pending_witness_msgs := ws\<rparr>"

lemma with_pending_simps [simp]:
  "dc_pending_msgs (with_pending ms ws d) = ms" "dc_pending_witness_msgs (with_pending ms ws d) = ws"
  "with_pending ms ws (with_pending ms' ws' d) = with_pending ms ws d"
  "with_pending (dc_pending_msgs d) (dc_pending_witness_msgs d) d = d"
  by (simp_all add: with_pending_def)

lemma apply_entry_pending:
  assumes "demo_apply_entry E i e d = Some d'"
  shows "demo_apply_entry E i e (with_pending ms ws d) = Some (with_pending ms ws d') \<and>
    dc_pending_msgs d' = dc_pending_msgs d \<and> dc_pending_witness_msgs d' = dc_pending_witness_msgs d"
  using assms by (auto simp: demo_apply_entry_def with_pending_def Let_def elim!: bind_SomeE split: if_split_asm prod.split_asm)

lemma deliver_one_pending:
  assumes "deliver_one E m d = Some d'"
  shows "deliver_one E m (with_pending ms ws d) = Some (with_pending ms ws d') \<and>
    dc_pending_msgs d' = dc_pending_msgs d \<and> dc_pending_witness_msgs d' = dc_pending_witness_msgs d"
  using assms by (auto simp: deliver_one_def with_pending_def elim!: bind_SomeE split: if_split_asm option.split_asm prod.split_asm)

lemma apply_entries_parts:
  assumes "foldM (demo_apply_entry E i) es d = Some d'"
  shows "(demo_part E)\<^sup>*\<^sup>* (with_pending ms ws d) (with_pending ms ws d') \<and>
    dc_pending_msgs d' = dc_pending_msgs d \<and> dc_pending_witness_msgs d' = dc_pending_witness_msgs d"
  using assms
proof (rule foldM_rel [where R = "\<lambda>d d'. (demo_part E)\<^sup>*\<^sup>* (with_pending ms ws d) (with_pending ms ws d') \<and>
    dc_pending_msgs d' = dc_pending_msgs d \<and> dc_pending_witness_msgs d' = dc_pending_witness_msgs d"])
  fix e d d'
  assume "demo_apply_entry E i e d = Some d'"
  from apply_entry_pending [OF this] show "(demo_part E)\<^sup>*\<^sup>* (with_pending ms ws d) (with_pending ms ws d') \<and>
    dc_pending_msgs d' = dc_pending_msgs d \<and> dc_pending_witness_msgs d' = dc_pending_witness_msgs d"
    by (blast intro: part_apply)
qed auto

lemma demo_visit_parts:
  assumes "demo_visit E i d = Some d'"
  shows "(demo_part E)\<^sup>*\<^sup>* d d'"
proof (cases "d' = d")
  case False
  then obtain rn rn' ms ws es d1 where rn: "demo_node d i = Some rn" "handle_ready E rn = Some (rn', ms, ws, es)"
    and d1: "foldM (demo_apply_entry E i) es (demo_set_node i rn' d) = Some d1"
    and d': "d' = with_pending (dc_pending_msgs d1 @ ms) (dc_pending_witness_msgs d1 @ ws) d1"
    using assms by (auto simp: demo_visit_def with_pending_def elim!: bind_SomeE split: if_split_asm)
  let ?ms = "dc_pending_msgs d @ ms" and ?ws = "dc_pending_witness_msgs d @ ws"
  have "demo_part E d (with_pending ?ms ?ws (demo_set_node i rn' d))"
    using part_ready [OF rn] by (simp add: with_pending_def)
  moreover have "(demo_part E)\<^sup>*\<^sup>* (with_pending ?ms ?ws (demo_set_node i rn' d)) d'"
    using apply_entries_parts [OF d1, of ?ms ?ws] d' by simp
  ultimately show ?thesis by (rule converse_rtranclp_into_rtranclp)
qed simp

lemma deliver_msgs_parts:
  assumes "deliver_msgs E d = Some d'"
  shows "(demo_part E)\<^sup>*\<^sup>* d d'"
proof -
  let ?ms = "dc_pending_msgs d" and ?ws = "dc_pending_witness_msgs d"
  have loop: "foldM (deliver_one E) ms d1 = Some d2 \<Longrightarrow> set ms \<subseteq> set ?ms \<Longrightarrow>
      (demo_part E)\<^sup>*\<^sup>* (with_pending ?ms ?ws d1) (with_pending ?ms ?ws d2) \<and>
      dc_pending_msgs d2 = dc_pending_msgs d1 \<and> dc_pending_witness_msgs d2 = dc_pending_witness_msgs d1" for ms d1 d2
  proof (induction ms arbitrary: d1)
    case (Cons m ms)
    then obtain d3 where d3: "deliver_one E m d1 = Some d3" "foldM (deliver_one E) ms d3 = Some d2" by (auto elim!: bind_SomeE)
    from deliver_one_pending [OF d3(1), of ?ms ?ws] Cons.prems(2)
    have "demo_part E (with_pending ?ms ?ws d1) (with_pending ?ms ?ws d3)" by (intro part_deliver [of m]) auto
    with Cons.IH [OF d3(2)] Cons.prems(2) deliver_one_pending [OF d3(1)] show ?case
      by (auto intro: converse_rtranclp_into_rtranclp)
  qed simp
  have d': "foldM (deliver_one E) ?ms (with_pending [] ?ws d) = Some d'"
    using assms by (simp add: deliver_msgs_def with_pending_def)
  from loop [OF this] have "(demo_part E)\<^sup>*\<^sup>* d (with_pending ?ms ?ws d')" "dc_pending_msgs d' = []" "dc_pending_witness_msgs d' = ?ws"
    by auto
  moreover have "demo_part E (with_pending ?ms ?ws d') (with_pending [] ?ws d')"
    using part_lose [of "[]" "with_pending ?ms ?ws d'" ?ws E] by (simp add: with_pending_def)
  moreover have "with_pending [] ?ws d' = d'" using calculation(2,3) by (metis with_pending_simps(4))
  ultimately show ?thesis by (metis rtranclp.rtrancl_into_rtrancl)
qed

lemma ask_witness_pending:
  "ask_witness wm (d\<lparr>dc_pending_witness_msgs := ws\<rparr>) = (ask_witness wm d)\<lparr>dc_pending_witness_msgs := ws\<rparr>"
  "dc_pending_witness_msgs (ask_witness wm d) = dc_pending_witness_msgs d"
  by (auto simp: ask_witness_def translate_witness_response_def split: prod.split option.split WitnessResponse.split)

lemma ask_witness_parts: "(demo_part E)\<^sup>*\<^sup>* d (ask_witness_all d)"
proof -
  let ?ws = "dc_pending_witness_msgs d"
  have loop: "set ws \<subseteq> set ?ws \<Longrightarrow> (demo_part E)\<^sup>*\<^sup>* (d1\<lparr>dc_pending_witness_msgs := ?ws\<rparr>)
      ((fold ask_witness ws d1)\<lparr>dc_pending_witness_msgs := ?ws\<rparr>) \<and>
      dc_pending_witness_msgs (fold ask_witness ws d1) = dc_pending_witness_msgs d1" for ws d1
  proof (induction ws arbitrary: d1)
    case (Cons wm ws)
    then have "demo_part E (d1\<lparr>dc_pending_witness_msgs := ?ws\<rparr>) ((ask_witness wm d1)\<lparr>dc_pending_witness_msgs := ?ws\<rparr>)"
      using part_witness [of wm "d1\<lparr>dc_pending_witness_msgs := ?ws\<rparr>" E] by (simp add: ask_witness_pending)
    with Cons.IH [of "ask_witness wm d1"] Cons.prems show ?case
      by (auto simp: ask_witness_pending intro: converse_rtranclp_into_rtranclp)
  qed simp
  let ?d = "fold ask_witness ?ws (d\<lparr>dc_pending_witness_msgs := []\<rparr>)"
  have "(demo_part E)\<^sup>*\<^sup>* d (?d\<lparr>dc_pending_witness_msgs := ?ws\<rparr>)" "dc_pending_witness_msgs ?d = []"
    using loop [of ?ws "d\<lparr>dc_pending_witness_msgs := []\<rparr>"] by simp_all
  moreover have "demo_part E (?d\<lparr>dc_pending_witness_msgs := ?ws\<rparr>) (?d\<lparr>dc_pending_witness_msgs := []\<rparr>)"
    using part_lose [of "dc_pending_msgs ?d" "?d\<lparr>dc_pending_witness_msgs := ?ws\<rparr>" "[]" E] by simp
  moreover have "?d\<lparr>dc_pending_witness_msgs := []\<rparr> = ?d" using calculation(2) by (metis DemoCluster.surjective DemoCluster.update_convs(5) DemoCluster.select_convs(5))
  ultimately show ?thesis unfolding ask_witness_all_def by (metis rtranclp.rtrancl_into_rtrancl)
qed

lemma demo_process_parts: "demo_process E d = Some d' \<Longrightarrow> (demo_part E)\<^sup>*\<^sup>* d d'"
  by (auto simp: demo_process_def elim!: bind_SomeE dest!: deliver_msgs_parts foldM_steps [OF _ demo_visit_parts])
     (meson ask_witness_parts rtranclp_trans)

lemma step_n_parts: "step_n E n d = Some d' \<Longrightarrow> (demo_part E)\<^sup>*\<^sup>* d d'"
proof (induction n arbitrary: d)
  case (Suc n)
  then show ?case by (auto elim!: bind_SomeE dest!: demo_tick_parts demo_process_parts) (meson rtranclp_trans)
qed simp

subsection \<open>Every schedule of the simulator is one of the cluster\<close>

lemma set_store_run:
  assumes "voters (members (rn_raft rn)) = V"
  shows "wire_run V E (rn_raft rn) [] (rn_raft (rn_set_store st rn))"
  using op_run [OF do_storage [of E "rn_raft rn" st]] assms by (simp add: rn_set_store_def)

lemma handle_ready_stages:
  assumes "handle_ready E rn = Some (rn', ms, ws, es)"
  obtains rn1 rd st rd' rn2 light where "ready E rn = Some (rn1, rd)" "persist_ready (rn_store rn1) rd = Some st"
    "rn_advance E (rn_set_store st rn1) rd' = Some (rn2, light)" "rd_hs rd' = rd_hs rd"
    "advance_apply E (rn_set_store (persist_commit (rn_store rn2) light) rn2) = Some rn'"
    "ms = lr_messages (rd_light rd) @ lr_messages light" "ws = rd_witness_messages rd"
    "es = lr_committed_entries (rd_light rd) @ lr_committed_entries light"
proof -
  obtain rn1 rd st rd1 m1 rd2 m2 rd3 w3 rd4 e4 rn2 light where h: "ready E rn = Some (rn1, rd)"
      "persist_ready (rn_store rn1) rd = Some st" "rn_advance E (rn_set_store st rn1) rd4 = Some (rn2, light)"
      "advance_apply E (rn_set_store (persist_commit (rn_store rn2) light) rn2) = Some rn'"
    and t: "rd_take_messages rd = (rd1, m1)" "rd_take_persisted_messages rd1 = (rd2, m2)"
      "rd_take_witness_messages rd2 = (rd3, w3)" "rd_take_committed_entries rd3 = (rd4, e4)"
    and out: "ms = m1 @ m2 @ lr_messages light" "ws = w3" "es = e4 @ lr_committed_entries light"
    using assms
    by (auto simp: handle_ready_def Let_def lr_take_messages_def lr_take_committed_entries_def
        elim!: bind_SomeE split: prod.split_asm)
  have "rd_hs rd4 = rd_hs rd \<and> m1 @ m2 = lr_messages (rd_light rd) \<and> w3 = rd_witness_messages rd \<and> e4 = lr_committed_entries (rd_light rd)"
    using t by (auto simp: rd_take_messages_def rd_take_persisted_messages_def rd_take_witness_messages_def
        rd_take_committed_entries_def lr_take_messages_def lr_take_committed_entries_def split: if_split_asm)
  with that [OF h(1-3) _ h(4)] out show ?thesis by (metis append.assoc)
qed

lemma handle_ready_run:
  assumes "handle_ready E rn = Some (rn', ms, ws, es)" "voters (members (rn_raft rn)) = V"
  shows "wire_run V E (rn_raft rn) ms (rn_raft rn') \<and> ws = r_witness_msgs (rn_raft rn)"
proof -
  obtain rn1 rd st rd' rn2 light where rn1: "ready E rn = Some (rn1, rd)"
    and rn2: "rn_advance E (rn_set_store st rn1) rd' = Some (rn2, light)"
    and rn': "advance_apply E (rn_set_store (persist_commit (rn_store rn2) light) rn2) = Some rn'"
    and out: "ms = lr_messages (rd_light rd) @ lr_messages light" "ws = rd_witness_messages rd"
    using assms(1) by (rule handle_ready_stages)
  note 1 = ready_run [OF rn1 assms(2)]
  have 2: "wire_run V E (rn_raft rn1) [] (rn_raft (rn_set_store st rn1))"
    by (rule set_store_run) (use 1 wire_run_voters assms(2) in blast)
  have v1: "voters (members (rn_raft (rn_set_store st rn1))) = V"
    using 1 2 wire_run_voters assms(2) by blast
  have 3: "wire_run V E (rn_raft (rn_set_store st rn1)) (lr_messages light) (rn_raft rn2)" by (rule advance_run [OF rn2 v1])
  let ?rn3 = "rn_set_store (persist_commit (rn_store rn2) light) rn2"
  have 4: "wire_run V E (rn_raft rn2) [] (rn_raft ?rn3)" by (rule set_store_run) (rule wire_run_voters [OF 3 v1])
  have 5: "wire_run V E (rn_raft ?rn3) [] (rn_raft rn')"
    by (rule commit_apply_run [OF rn' [unfolded advance_apply_def]]) (rule wire_run_voters [OF 4 wire_run_voters [OF 3 v1]])
  have "wire_run V E (rn_raft rn1) (lr_messages light) (rn_raft rn')"
    using wire_run_trans [OF 5 wire_run_trans [OF 4 wire_run_trans0 [OF 2 3]]] by simp
  from wire_run_trans [OF this conjunct1 [OF 1]] out 1 show ?thesis by simp
qed

text \<open>A node of the simulator asks the witness properly, and runs no pre-votes.\<close>

definition asking_ok :: "nat \<Rightarrow> 's Raft \<Rightarrow> bool" where
  "asking_ok i r \<longleftrightarrow> r_id r = i \<and> \<not> r_pre_vote r \<and> list_all (proper i False) (r_witness_msgs r)"

lemma asks_ok: "asks r r' \<Longrightarrow> asking_ok i r \<Longrightarrow> asking_ok i r'"
  by (auto simp: asking_ok_def asked_def list_all_iff)

definition demo_shows :: "JointConfig \<Rightarrow> DemoCluster \<Rightarrow> MemStorageCore Cluster \<Rightarrow> bool" where
  "demo_shows V d c \<longleftrightarrow> 0 < dc_witness_id d \<and> wits c (dc_witness_id d) = dc_witness d \<and> set (dc_pending_msgs d) \<subseteq> wire c \<and>
     (\<forall>wm \<in> set (dc_pending_witness_msgs d). 0 < wm_from wm \<and> proper (wm_from wm) False wm) \<and>
     (\<forall>i rn. demo_node d i = Some rn \<longrightarrow> 0 < i \<and> i \<noteq> dc_witness_id d \<and> nodes c i = rn_raft rn \<and>
        voters (members (rn_raft rn)) = V \<and> asking_ok i (rn_raft rn))"

lemma demo_node_set [simp]: "demo_node (demo_set_node i rn d) j = (if j = i then Some rn else demo_node d j)"
  by (simp add: demo_node_def demo_set_node_def)

lemma hm_insert_twice: "hm_insert k v (hm_insert k w m) = hm_insert k v m"
  unfolding hm_insert_def by (induction m) auto

lemma demo_set_node_twice: "demo_set_node i rn (demo_set_node i rm d) = demo_set_node i rn d"
  by (simp add: demo_set_node_def hm_insert_twice)

lemma demo_set_node_frame [simp]:
  "dc_witness_id (demo_set_node i rn d) = dc_witness_id d" "dc_witness (demo_set_node i rn d) = dc_witness d"
  by (simp_all add: demo_set_node_def)

lemma shows_set_node:
  assumes "demo_shows V d c" "demo_node d i = Some rn" "nodes c' = (nodes c)(i := rn_raft rn')" "wire c \<subseteq> wire c'" "wits c' = wits c"
    and "voters (members (rn_raft rn')) = V" "asks (rn_raft rn) (rn_raft rn')"
  shows "demo_shows V (demo_set_node i rn' d) c'"
  using assms asks_ok [OF assms(7)] by (auto simp: demo_shows_def)

text \<open>One operation or message of one node.\<close>

lemma shows_step:
  assumes "demo_shows V d c" "demo_node d i = Some rn" "voters (members (rn_raft rn')) = V" "asks (rn_raft rn) (rn_raft rn')"
    and "cluster_step V {dc_witness_id d} c (put_node i (rn_raft rn') c)"
  shows "\<exists>c'. cluster_run V {dc_witness_id d} c c' \<and> demo_shows V (demo_set_node i rn' d) c'"
proof -
  have "demo_shows V (demo_set_node i rn' d) (put_node i (rn_raft rn') c)"
    by (rule shows_set_node [OF assms(1,2)]) (use assms(3,4) in \<open>simp_all add: put_node_def\<close>)
  with assms(5) show ?thesis by blast
qed

lemma shows_op:
  assumes "demo_shows V d c" "demo_node d i = Some rn" "node_op E (rn_raft rn) (rn_raft rn')" "voters (members (rn_raft rn')) = V"
  shows "\<exists>c'. cluster_run V {dc_witness_id d} c c' \<and> demo_shows V (demo_set_node i rn' d) c'"
  by (rule shows_step [OF assms(1,2,4) node_op_asks [OF assms(3)]], rule operate [where E = E])
     (use assms in \<open>auto simp: demo_shows_def\<close>)

lemma shows_witness:
  assumes "demo_shows V d c" "wm \<in> set (dc_pending_witness_msgs d)"
  shows "\<exists>c'. cluster_run V {dc_witness_id d} c c' \<and> demo_shows V (ask_witness wm d) c'"
proof -
  let ?w = "dc_witness_id d"
  obtain w' resp where w': "witness_process (dc_witness d) wm = (w', resp)" by fastforce
  have d: "0 < ?w" "wits c ?w = dc_witness d" "0 < wm_from wm" "proper (wm_from wm) False wm"
    using assms by (auto simp: demo_shows_def)
  define m where "m = (if dc_pending_msgs (ask_witness wm d) = dc_pending_msgs d
    then Message_default\<lparr>msg_type := MsgAppendResponse, m_from := ?w, m_to := wm_from wm\<rparr>
    else last (dc_pending_msgs (ask_witness wm d)))"
  have sent: "dc_pending_msgs (ask_witness wm d) \<in> {dc_pending_msgs d, dc_pending_msgs d @ [m]}"
    by (auto simp: m_def ask_witness_def translate_witness_response_def split: prod.split option.split WitnessResponse.split)
  have m: "m_from m = ?w" "m_to m = wm_from wm" "has_term m"
    using w' by (auto simp: m_def has_term_def ask_witness_def translate_witness_response_def split: option.split WitnessResponse.split)
  have grant: "is_grant m \<longrightarrow> resp = Some (VoteGrant True) \<and> m_term m = w_term w'"
    using w' by (auto simp: m_def is_grant_def ask_witness_def translate_witness_response_def
        split: option.split_asm WitnessResponse.split_asm if_split_asm)
  have real: "resp = Some (VoteGrant True) \<longrightarrow> wm_msg_type wm = MsgRequestVote \<and> 0 < wm_term wm"
    using w' d(4) by (cases "wm_msg_type wm") (auto simp: witness_process_def proper_def witness_handle_append_def Let_def split: if_split_asm)
  let ?c = "(put_witness ?w w' c)\<lparr>wire := insert m (wire c)\<rparr>"
  have "cluster_step V {?w} c ?c"
    by (rule cluster_step.witness [where q = wm and resp = resp]) (use d m w' grant real in auto)
  moreover have "demo_shows V (ask_witness wm d) ?c"
  proof -
    have "dc_witness (ask_witness wm d) = w'" "dc_witness_id (ask_witness wm d) = ?w" "dc_nodes (ask_witness wm d) = dc_nodes d"
      using w' by (auto simp: ask_witness_def translate_witness_response_def split: option.split WitnessResponse.split)
    then show ?thesis
      using assms(1) sent by (auto simp: demo_shows_def put_witness_def ask_witness_pending demo_node_def)
  qed
  ultimately show ?thesis by blast
qed

lemma voters_set_node: "demo_voters V (demo_set_node i rn d) \<Longrightarrow> voters (members (rn_raft rn)) = V"
  unfolding demo_voters_def by (metis demo_node_set)

lemma demo_part_run:
  assumes "demo_part E d d'" "demo_voters V d'" "demo_shows V d c"
  shows "\<exists>c'. cluster_run V {dc_witness_id d} c c' \<and> demo_shows V d' c'"
  using assms(1)
proof cases
  case (part_tick i)
  show ?thesis
  proof (cases "d' = d")
    case False
    then obtain rn r' b where rn: "demo_node d i = Some rn" "tick E (rn_raft rn) = Some (r', b)" "d' = demo_set_node i (rn\<lparr>rn_raft := r'\<rparr>) d"
      using part_tick by (auto simp: demo_tick_one_def rn_tick_def on_raft_def elim!: bind_SomeE split: if_split_asm option.split_asm prod.split_asm)
    from voters_set_node [OF assms(2) [unfolded rn(3)]] shows_op [OF assms(3) rn(1), of E "rn\<lparr>rn_raft := r'\<rparr>"] do_tick [OF rn(2)] rn(3) show ?thesis by simp
  qed (use assms(3) in blast)
next
  case (part_ready i rn rn' ms ws es)
  have d: "nodes c i = rn_raft rn" "0 < i" "i \<notin> {dc_witness_id d}" "voters (members (rn_raft rn)) = V" "asking_ok i (rn_raft rn)"
    using assms(3) part_ready(2) by (auto simp: demo_shows_def)
  note run = handle_ready_run [OF part_ready(3) d(4)]
  from wire_run_cluster [OF conjunct1 [OF run] d(1-4)] obtain c' where c': "cluster_run V {dc_witness_id d} c c'"
      "nodes c' = (nodes c)(i := rn_raft rn')" "wire c' = wire c \<union> set ms" "wits c' = wits c" by blast
  have "demo_shows V (demo_set_node i rn' d) c'"
    using wire_run_voters [OF conjunct1 [OF run] d(4)] wire_run_asks [OF conjunct1 [OF run]] c'
    by (intro shows_set_node [OF assms(3) part_ready(2)]) auto
  moreover have "set ws \<subseteq> {wm. 0 < wm_from wm \<and> proper (wm_from wm) False wm}"
    using run d(2,5) by (auto simp: asking_ok_def list_all_iff proper_def)
  ultimately have "demo_shows V d' c'" using c'(3) part_ready(1) by (auto simp: demo_shows_def)
  with c'(1) show ?thesis by blast
next
  case (part_apply i e)
  show ?thesis
  proof (cases "d' = d")
    case False
    then obtain rn r1 cc res st where rn: "demo_node d i = Some rn" "apply_conf_change E (rn_raft rn) cc = Some (r1, res)"
        "d' = demo_set_node i (rn_set_store st (rn\<lparr>rn_raft := r1\<rparr>)) d"
      using part_apply by (auto simp: demo_apply_entry_def rn_apply_conf_change_def on_raft_def Let_def elim!: bind_SomeE
          split: if_split_asm prod.split_asm)
    define rn1 where "rn1 = rn\<lparr>rn_raft := r1\<rparr>"
    have d': "d' = demo_set_node i (rn_set_store st rn1) d" and op: "node_op E (rn_raft rn) (rn_raft rn1)"
      using rn(2,3) do_conf_change by (auto simp: rn1_def)
    have v: "voters (members (rn_raft rn1)) = V" using voters_set_node [OF assms(2) [unfolded d']] by (simp add: rn_set_store_def)
    from shows_op [OF assms(3) rn(1) op v] obtain c1 where
      c1: "cluster_run V {dc_witness_id d} c c1" "demo_shows V (demo_set_node i rn1 d) c1" by blast
    have "node_op E (rn_raft rn1) (rn_raft (rn_set_store st rn1))" using do_storage [of E "rn_raft rn1" st] by (simp add: rn_set_store_def)
    from shows_op [OF c1(2) _ this, of i] v obtain c2 where
      "cluster_run V {dc_witness_id d} c1 c2" "demo_shows V (demo_set_node i (rn_set_store st rn1) (demo_set_node i rn1 d)) c2"
      by (auto simp: rn_set_store_def)
    moreover have "demo_set_node i (rn_set_store st rn1) (demo_set_node i rn1 d) = d'" using d' by (simp add: demo_set_node_twice)
    ultimately show ?thesis using c1(1) by (metis rtranclp_trans)
  qed (use assms(3) in blast)
next
  case (part_deliver m)
  let ?i = "m_to m"
  show ?thesis
  proof (cases "demo_node d ?i")
    case None
    then have "d' = d" using part_deliver(2) by (auto simp: deliver_one_def split: if_split_asm)
    with assms(3) show ?thesis by blast
  next
    case (Some rn)
    have m: "m \<in> wire c" "0 < ?i" "?i \<notin> {dc_witness_id d}" "nodes c ?i = rn_raft rn"
      using assms(3) part_deliver(1) Some by (auto simp: demo_shows_def)
    have "d' = d \<or> d' = demo_set_node ?i rn d \<or>
        (\<exists>rn' x. d' = demo_set_node ?i rn' d \<and> step E (rn_raft rn) m = Some (rn_raft rn', x))"
      using part_deliver(2) Some
      by (auto simp: deliver_one_def rn_step_def on_raft_def elim!: bind_SomeE split: if_split_asm prod.split_asm)
    moreover have "demo_shows V (demo_set_node ?i rn d) c"
      using assms(3) Some by (auto simp: demo_shows_def)
    moreover have ?thesis if "d' = demo_set_node ?i rn' d" "step E (rn_raft rn) m = Some (rn_raft rn', x)" for rn' x
    proof -
      have v: "voters (members (rn_raft rn')) = V" by (rule voters_set_node [OF assms(2) [unfolded that(1)]])
      have "cluster_step V {dc_witness_id d} c (put_node ?i (rn_raft rn') c)"
        using m that(2) v by (intro deliver [where m = m and E = E]) auto
      from shows_step [OF assms(3) Some v step_asks [OF that(2)] this] that(1) show ?thesis by simp
    qed
    ultimately show ?thesis using assms(3) by blast
  qed
next
  case (part_witness wm)
  then show ?thesis using shows_witness [OF assms(3)] by blast
next
  case (part_lose ms ws)
  then have "demo_shows V d' c" using assms(3) by (auto simp: demo_shows_def)
  then show ?thesis by blast
next
  case (part_kill i)
  then have "demo_shows V d' c" using assms(3) by (simp add: demo_shows_def demo_kill_def demo_node_def)
  then show ?thesis by blast
next
  case (part_recover i)
  then have "demo_shows V d' c" using assms(3) by (simp add: demo_shows_def demo_recover_def demo_node_def)
  then show ?thesis by blast
next
  case (part_application i rn m rn' x)
  have s: "step E (rn_raft rn) m = Some (rn_raft rn', x)" using part_application(4) by (auto simp: on_raft_def elim!: bind_SomeE)
  have v: "voters (members (rn_raft rn')) = V" by (rule voters_set_node [OF assms(2) [unfolded part_application(1)]])
  have "cluster_step V {dc_witness_id d} c (put_node i (rn_raft rn') c)"
    using s v assms(3) part_application(2,3)
    by (intro own [where m = m and E = E]) (auto simp: demo_shows_def application_msg_def has_term_def)
  from shows_step [OF assms(3) part_application(2) v step_asks [OF s] this] part_application(1) show ?thesis by simp
qed

lemma demo_part_witness_id: "demo_part E d d' \<Longrightarrow> dc_witness_id d' = dc_witness_id d"
  by (induction rule: demo_part.induct)
     (auto simp: demo_tick_one_def demo_apply_entry_def deliver_one_def ask_witness_def translate_witness_response_def demo_kill_def
       demo_recover_def Let_def elim!: bind_SomeE split: if_split_asm option.split_asm prod.split_asm prod.split option.split WitnessResponse.split)

lemma demo_run_cluster:
  assumes "(demo_step V E)\<^sup>*\<^sup>* d0 d" "demo_shows V d0 c0"
  shows "\<exists>c. cluster_run V {dc_witness_id d0} c0 c \<and> demo_shows V d c \<and> dc_witness_id d = dc_witness_id d0"
  using assms(1)
proof induction
  case base
  then show ?case using assms(2) by blast
next
  case (step d d')
  then obtain c where c: "cluster_run V {dc_witness_id d0} c0 c" "demo_shows V d c" "dc_witness_id d = dc_witness_id d0" by blast
  from demo_part_run [OF _ _ c(2)] step.hyps(2) c(3) obtain c' where "cluster_run V {dc_witness_id d0} c c'" "demo_shows V d' c'"
    unfolding demo_step_def by metis
  with c step.hyps(2) demo_part_witness_id show ?case unfolding demo_step_def by (metis rtranclp_trans)
qed

subsection \<open>Election safety of the simulator\<close>

lemma demo_add_node_fresh:
  assumes "demo_add_node (mem_env sz rr m1 m2) vs i d = Some d'" "vs \<noteq> []" "distinct vs" "0 \<notin> set vs"
  shows "\<exists>rn. d' = demo_set_node i rn d \<and> 0 < i \<and> fresh_node \<lparr>incoming = vs, outgoing = []\<rparr> i (rn_raft rn) \<and> asking_ok i (rn_raft rn)"
proof -
  let ?E = "mem_env sz rr m1 m2" and ?cfg = "Config_default\<lparr>cfg_id := i, cfg_check_quorum := True\<rparr>"
  obtain rn where new: "RawNode_new ?E ?cfg (new_store vs) = Some (Inr rn)" and d': "d' = demo_set_node i rn d"
    using assms(1) by (auto simp: demo_add_node_def mem_initialize_with_conf_state_def new_store_def unwrap_def
        demo_set_node_def Let_def elim!: bind_SomeE split: sum.split_asm)
  have rn: "Raft_new ?E ?cfg (new_store vs) = Some (Inr (rn_raft rn))" "0 < i"
    using new by (auto simp: RawNode_new_def elim!: bind_SomeE split: sum.split_asm)
  have "asked (rn_raft rn) = (i, False, [])"
    using Raft_new_asked [OF rn(1)] by (simp add: Config_default_def)
  then have "asking_ok i (rn_raft rn)" by (simp add: asked_def asking_ok_def)
  with new_node_fresh [OF rn(1) assms(2-4)] rn(2) d' show ?thesis by auto
qed

lemma demo_start:
  assumes "foldM (demo_add_node (mem_env sz rr m1 m2) vs) ids (demo_new w) = Some d"
    and "vs \<noteq> []" "distinct vs" "0 \<notin> set vs" "0 < w" "w \<notin> set ids"
  shows "\<exists>c. cluster_init \<lparr>incoming = vs, outgoing = []\<rparr> {w} c \<and> demo_shows \<lparr>incoming = vs, outgoing = []\<rparr> d c \<and> dc_witness_id d = w"
proof -
  let ?V = "\<lparr>incoming = vs, outgoing = []\<rparr>"
  let ?P = "\<lambda>d. dc_witness_id d = w \<and> dc_witness d = Witness_new w \<and> dc_pending_msgs d = [] \<and> dc_pending_witness_msgs d = [] \<and>
    (\<forall>i rn. demo_node d i = Some rn \<longrightarrow> 0 < i \<and> i \<noteq> w \<and> fresh_node ?V i (rn_raft rn) \<and> asking_ok i (rn_raft rn))"
  have P: "?P d"
  proof (rule foldM_inv [OF assms(1), where P = ?P])
    fix i d d'
    assume i: "i \<in> set ids" and P: "?P d" and d': "demo_add_node (mem_env sz rr m1 m2) vs i d = Some d'"
    from demo_add_node_fresh [OF d' assms(2-4)] obtain rn where "d' = demo_set_node i rn d" "0 < i"
      "fresh_node ?V i (rn_raft rn)" "asking_ok i (rn_raft rn)" by blast
    with i P assms(6) show "?P d'" by auto
  qed (simp add: demo_new_def demo_node_def)
  define node where "node i = (case demo_node d i of Some rn \<Rightarrow> rn_raft rn | None \<Rightarrow> start_node ?V i)" for i
  let ?c = "\<lparr>nodes = node, wits = Witness_new, wire = {}, ballots = {}, elected = {}\<rparr>"
  have "cluster_init ?V {w} ?c"
    by (rule fresh_cluster_init) (use P fresh_start_node in \<open>auto simp: node_def split: option.split\<close>)
  moreover have "demo_shows ?V d ?c" using P assms(5) by (auto simp: demo_shows_def node_def fresh_node_def)
  ultimately show ?thesis using P by blast
qed

text \<open>C4: the host of the witness demo elects at most one leader per term.  From a cluster made by \<^verbatim>\<open>add_node\<close> with one list
  of voters, whatever the order of ticks, readies, deliveries, losses, requests to the witness, kills and recoveries, and as long
  as the voters of all nodes are that list after every step, two nodes that are leaders in the same term are the same node.  This carries election safety through \<^verbatim>\<open>RawNode\<close>, \<^verbatim>\<open>MemStorage\<close> and
  the translation of the witness's answers; it holds because the demo runs without pre-votes.\<close>

theorem demo_election_safety:
  assumes "foldM (demo_add_node (mem_env sz rr m1 m2) vs) ids (demo_new w) = Some d0"
    and "vs \<noteq> []" "distinct vs" "0 \<notin> set vs" "0 < w" "w \<notin> set ids"
    and "(demo_step \<lparr>incoming = vs, outgoing = []\<rparr> (mem_env sz rr m1 m2))\<^sup>*\<^sup>* d0 d"
    and "demo_node d i = Some rn" "demo_node d j = Some rm" "r_state (rn_raft rn) = Leader" "r_state (rn_raft rm) = Leader"
    and "r_term (rn_raft rn) = r_term (rn_raft rm)"
  shows "i = j"
proof -
  let ?V = "\<lparr>incoming = vs, outgoing = []\<rparr>"
  from demo_start [OF assms(1-6)] obtain c0 where c0: "cluster_init ?V {w} c0" "demo_shows ?V d0 c0" "dc_witness_id d0 = w" by blast
  from demo_run_cluster [OF assms(7) c0(2)] c0(3) obtain c where c: "cluster_run ?V {w} c0 c" "demo_shows ?V d c" "dc_witness_id d = w"
    by auto
  have inv: "cluster_inv ?V {w} c" by (rule cluster_run_inv [OF c(1) c0(1)]) (use assms(2) in simp)
  have "(r_term (rn_raft rn), i) \<in> elected c" "(r_term (rn_raft rm), j) \<in> elected c"
    using inv c(2,3) assms(8-11) unfolding cluster_inv_def demo_shows_def by (metis singletonD)+
  with assms(12) show ?thesis using one_elected [OF inv] by simp
qed

text \<open>A node with the only voter 1 campaigns and is leader; the other node of the cluster is not.\<close>

definition ex_demo_env :: "MemStorageCore Env" where
  "ex_demo_env = mem_env (\<lambda>e. 1) (\<lambda>lo hi. lo) (\<lambda>b. None) (\<lambda>b. None)"

definition ex_demo :: DemoCluster where
  "ex_demo = the (foldM (demo_add_node ex_demo_env [1]) [1, 2] (demo_new 3))"

definition ex_demo_leader :: "MemStorageCore RawNode" where
  "ex_demo_leader = state_after (rn_campaign ex_demo_env (the (demo_node ex_demo 1)))"

theorem demo_election_safety_witness:
  "r_state (rn_raft ex_demo_leader) = Leader \<and> {j. \<exists>rm. demo_node (demo_set_node 1 ex_demo_leader ex_demo) j = Some rm \<and>
    r_state (rn_raft rm) = Leader \<and> r_term (rn_raft rm) = r_term (rn_raft ex_demo_leader)} = {1}"
proof -
  let ?V = "\<lparr>incoming = [1], outgoing = []\<rparr>" and ?m = "Message_default\<lparr>msg_type := MsgHup\<rparr>"
  let ?d = "demo_set_node 1 ex_demo_leader ex_demo"
  have h: "foldM (demo_add_node ex_demo_env [1]) [1, 2] (demo_new 3) \<noteq> None" "map fst (dc_nodes ex_demo) = [1, 2]"
      "list_all (\<lambda>(i, n). n \<noteq> None \<and> voters (members (rn_raft (the n))) = ?V) (dc_nodes ex_demo)"
      "rn_campaign ex_demo_env (the (demo_node ex_demo 1)) \<noteq> None" "voters (members (rn_raft ex_demo_leader)) = ?V"
      "r_state (rn_raft ex_demo_leader) = Leader" "demo_node ex_demo 1 \<noteq> None"
    unfolding ex_demo_leader_def ex_demo_def ex_demo_env_def by code_simp+
  have start: "foldM (demo_add_node ex_demo_env [1]) [1, 2] (demo_new 3) = Some ex_demo" using h(1) by (auto simp: ex_demo_def)
  have "on_raft (the (demo_node ex_demo 1)) (step ex_demo_env (rn_raft (the (demo_node ex_demo 1))) ?m) =
      Some (ex_demo_leader, snd (the (rn_campaign ex_demo_env (the (demo_node ex_demo 1)))))"
    using state_after_Some [OF h(4)] by (simp add: ex_demo_leader_def rn_campaign_def)
  then have "demo_part ex_demo_env ex_demo ?d"
    using h(7) by (intro part_application [where m = ?m]) (auto simp: application_msg_def)
  moreover have "demo_voters ?V ?d"
  proof -
    have "voters (members (rn_raft rn)) = ?V" if "demo_node ex_demo i = Some rn" for i rn
      using that h(3) by (auto simp: demo_node_def list_all_iff bind_eq_Some_conv dest!: map_of_SomeD)
    then show ?thesis using h(5) by (auto simp: demo_voters_def)
  qed
  ultimately have run: "(demo_step ?V ex_demo_env)\<^sup>*\<^sup>* ex_demo ?d" by (intro r_into_rtranclp) (simp add: demo_step_def)
  have "j = 1" if "demo_node ?d j = Some rm" "r_state (rn_raft rm) = Leader" "r_term (rn_raft rm) = r_term (rn_raft ex_demo_leader)" for j rm
    by (rule demo_election_safety [OF start [unfolded ex_demo_env_def] _ _ _ _ _ run [unfolded ex_demo_env_def] that(1) _ that(2) h(6) that(3)])
       simp_all
  moreover have "demo_node ?d 1 = Some ex_demo_leader" by (simp add: demo_node_def demo_set_node_def)
  ultimately show ?thesis using h(6) by blast
qed

subsection \<open>What the simulator has stored\<close>

lemma persist_ready_hard_state:
  assumes "persist_ready st rd = Some st'" "rd_snapshot rd = Snapshot_default"
  shows "rs_hard_state (raft_state st') = (case rd_hs rd of Some hs \<Rightarrow> hs | None \<Rightarrow> rs_hard_state (raft_state st))"
proof -
  have append: "raft_state c' = raft_state c" if "mem_append c es = Some c'" for c c' es
    using that by (auto simp: mem_append_def Let_def elim!: bind_SomeE split: list.split_asm)
  have "snap_is_empty (rd_snapshot rd)" using assms(2) by (simp add: snap_is_empty_def Snapshot_default_def SnapshotMetadata_default_def)
  then show ?thesis
    using assms(1) by (auto simp: persist_ready_def mem_set_hardstate_def elim!: bind_SomeE split: if_split_asm option.split dest: append)
qed

text \<open>C5: what a node may not forget is in its storage when its messages leave.  After the host of the demo has handled a
  ready (one without a snapshot), the hard state in the node's storage is the node's, term, vote and commit index, and is
  what the node believes to be stored; so it is before the next ready.  A node created again from that storage comes back
  with this term and this vote.\<close>

theorem handled_ready_is_durable:
  assumes "handle_ready (mem_env sz rr m1 m2) rn = Some (rn', ms, ws, es)"
    and "rs_hard_state (raft_state (rn_store rn)) = rn_prev_hs rn" "u_snapshot (unstable (r_log (rn_raft rn))) = None"
  shows "rs_hard_state (raft_state (rn_store rn')) = hard_state (rn_raft rn') \<and> rn_prev_hs rn' = hard_state (rn_raft rn') \<and>
    (\<forall>cfg r. Raft_new (mem_env sz rr m1 m2) cfg (rn_store rn') = Some (Inr r) \<longrightarrow>
      r_term r = r_term (rn_raft rn') \<and> r_vote r = r_vote (rn_raft rn'))"
proof -
  let ?E = "mem_env sz rr m1 m2"
  obtain rn1 rd st rd4 rn2 light where rn1: "ready ?E rn = Some (rn1, rd)" and st: "persist_ready (rn_store rn1) rd = Some st"
    and rd4: "rd_hs rd4 = rd_hs rd" and rn2: "rn_advance ?E (rn_set_store st rn1) rd4 = Some (rn2, light)"
    and rn': "advance_apply ?E (rn_set_store (persist_commit (rn_store rn2) light) rn2) = Some rn'"
    using assms(1) by (rule handle_ready_stages)
  note r = ready_keeps [OF rn1]
  have "rs_hard_state (raft_state st) = (case rd_hs rd of Some hs \<Rightarrow> hs | None \<Rightarrow> rn_prev_hs rn)"
    using persist_ready_hard_state [OF st] r assms(2,3) by (simp add: rn_store_def)
  then have "rs_hard_state (raft_state (persist_commit (rn_store rn2) light)) = rn_prev_hs rn2"
    using advance_keeps [OF rn2] rd4 r
    by (cases "lr_commit_index light"; cases "hard_state (rn_raft rn) = rn_prev_hs rn")
       (simp_all add: rn_store_def rn_set_store_def persist_commit_def mem_set_hardstate_def Let_def)
  then have hs: "rs_hard_state (raft_state (rn_store rn')) = hard_state (rn_raft rn')" "rn_prev_hs rn' = hard_state (rn_raft rn')"
    using rn_commit_apply_keeps [OF rn' [unfolded advance_apply_def]] advance_keeps [OF rn2]
    by (simp_all add: rn_store_def rn_set_store_def hard_state_def)
  then have "persisted ?E (rn_store rn') (rn_raft rn')" by (simp add: persisted_def hard_state_def)
  with hs restart_promises [of ?E _ "rn_store rn'" _ "rn_raft rn'"] show ?thesis by simp
qed

text \<open>The new leader's first ready.\<close>

theorem handled_ready_is_durable_witness:
  defines "rn \<equiv> fst (the (handle_ready ex_demo_env ex_demo_leader))"
  shows "rs_hard_state (raft_state (rn_store rn)) = \<lparr>hs_term = 1, hs_vote = 1, hs_commit = 1\<rparr> \<and> rn_prev_hs rn = hard_state (rn_raft rn)"
proof -
  have h: "handle_ready ex_demo_env ex_demo_leader \<noteq> None" "rs_hard_state (raft_state (rn_store ex_demo_leader)) = rn_prev_hs ex_demo_leader"
      "u_snapshot (unstable (r_log (rn_raft ex_demo_leader))) = None" "hard_state (rn_raft rn) = \<lparr>hs_term = 1, hs_vote = 1, hs_commit = 1\<rparr>"
    unfolding rn_def ex_demo_leader_def ex_demo_def ex_demo_env_def by code_simp+
  obtain ms ws es where "handle_ready ex_demo_env ex_demo_leader = Some (rn, ms, ws, es)"
    using h(1) unfolding rn_def by (metis option.exhaust_sel prod.collapse)
  from handled_ready_is_durable [OF this [unfolded ex_demo_env_def] h(2,3)] h(4) show ?thesis by simp
qed

subsection \<open>Pre-votes\<close>

text \<open>C32: with pre-votes the translation of the witness's answers is wrong.  A pre-vote that the witness grants leaves its
  vote unrecorded, but the host answers with a granted \<^verbatim>\<open>MsgRequestVoteResponse\<close> at the witness's term, the message by
  which a voter grants its vote.\<close>

theorem pre_vote_answered_as_vote:
  assumes "wm_msg_type wm = MsgRequestPreVote" "snd (witness_process (dc_witness d) wm) = Some (VoteGrant True)"
  shows "dc_witness (ask_witness wm d) = dc_witness d \<and>
    (\<exists>m. dc_pending_msgs (ask_witness wm d) = dc_pending_msgs d @ [m] \<and> msg_type m = MsgRequestVoteResponse \<and> \<not> m_reject m \<and>
      m_from m = dc_witness_id d \<and> m_to m = wm_from wm \<and> m_term m = w_term (dc_witness d))"
proof -
  have "fst (witness_process (dc_witness d) wm) = dc_witness d"
    using assms(1) by (auto simp: witness_process_def witness_handle_vote_def Let_def)
  then have "witness_process (dc_witness d) wm = (dc_witness d, Some (VoteGrant True))" using assms(2) by (metis prod.collapse)
  then show ?thesis by (simp add: ask_witness_def translate_witness_response_def)
qed

text \<open>Node 1 of term 4 asks the witness of term 4 for a pre-vote for term 5 and is answered with a vote in term 4.\<close>

theorem pre_vote_answered_as_vote_witness:
  defines "d \<equiv> (demo_new 3)\<lparr>dc_witness := (Witness_new 3)\<lparr>w_term := 4\<rparr>\<rparr>"
    and "wm \<equiv> WitnessMessage_default\<lparr>wm_msg_type := MsgRequestPreVote, wm_from := 1, wm_to := 3, wm_term := 5\<rparr>"
  shows "\<exists>m. dc_pending_msgs (ask_witness wm d) = [m] \<and> msg_type m = MsgRequestVoteResponse \<and> m_term m = 4 \<and> w_vote (dc_witness (ask_witness wm d)) = 0"
proof -
  have h: "wm_msg_type wm = MsgRequestPreVote" "snd (witness_process (dc_witness d) wm) = Some (VoteGrant True)"
      "dc_pending_msgs d = []" "w_term (dc_witness d) = 4" "w_vote (dc_witness d) = 0"
    unfolding d_def wm_def by code_simp+
  from pre_vote_answered_as_vote [OF h(1,2)] h(3-5) show ?thesis by auto
qed

end
