(* ===== verification/Example_Nodes.thy ===== *)
theory Example_Nodes
  imports Witness_Demo
begin

section \<open>The example hosts\<close>

text \<open>
  The hosts of \<^verbatim>\<open>examples/five_mem_node/main.rs\<close>, a replicated map from small numbers to strings with a queue of client
  proposals, and of \<^verbatim>\<open>examples/single_mem_node/main.rs\<close>.  Channels are lists: what a node sends, and the answers that
  clients get, are collected in the order of the calls; a send to a node succeeds, one to a client that has had its answer
  panics.  Threads, sleeping and the clock are left out, a turn of the loop of a node is told whether a tick is due.
\<close>

subsection \<open>Commands of the replicated map\<close>

text \<open>\<^verbatim>\<open>format!("put {key} {value}")\<close>\<close>

definition put_data :: "nat \<Rightarrow> string \<Rightarrow> bytes" where
  "put_data key val = ''put '' @ show_nat key @ '' '' @ val"

text \<open>
  \<^verbatim>\<open>Regex::captures\<close> is code of the crate \<^verbatim>\<open>regex\<close>; what it returns for the pattern \<^verbatim>\<open>put ([0-9]+) (.+)\<close>, the texts of the two
  groups, is an argument \<open>cap\<close> of the definitions.  The documentation of the crate says that it is the leftmost match, with the
  longest digits and the longest value, and that a dot stands for any character but a line feed.  The following two functions
  say what that is: a match at the start of the text, and the leftmost match.
\<close>

definition put_at :: "string \<Rightarrow> (string \<times> string) option" where
  "put_at s =
     (if take 4 s \<noteq> ''put '' then None
      else let ds = takeWhile is_digit (drop 4 s); t = dropWhile is_digit (drop 4 s); v = takeWhile (\<lambda>c. c \<noteq> CHR 0x0A) (tl t)
           in if ds \<noteq> [] \<and> t \<noteq> [] \<and> hd t = CHR '' '' \<and> v \<noteq> [] then Some (ds, v) else None)"

fun find_put :: "string \<Rightarrow> (string \<times> string) option" where
  "find_put [] = put_at []"
| "find_put (c # cs) = (case put_at (c # cs) of Some r \<Rightarrow> Some r | None \<Rightarrow> find_put cs)"

type_synonym captures = "string \<Rightarrow> (string \<times> string) option"

definition put_captures :: "captures \<Rightarrow> bool" where
  "put_captures cap \<longleftrightarrow> (\<forall>s. cap s = find_put s)"

definition parse_u16 :: "string \<Rightarrow> nat panics" where
  "parse_u16 s = (case parse_u64 s of Inl _ \<Rightarrow> None | Inr n \<Rightarrow> if n < 2 ^ 16 then Some n else None)"

text \<open>\<^verbatim>\<open>str::from_utf8\<close>: the well-formed sequences of bytes.\<close>

definition cont_byte :: "nat \<Rightarrow> bool" where
  "cont_byte b \<longleftrightarrow> 0x80 \<le> b \<and> b \<le> 0xBF"

fun utf8_valid :: "nat list \<Rightarrow> bool" where
  "utf8_valid [] = True"
| "utf8_valid (a # s) =
     (if a < 0x80 then utf8_valid s
      else if 0xC2 \<le> a \<and> a \<le> 0xDF
      then (case s of b # s \<Rightarrow> cont_byte b \<and> utf8_valid s | _ \<Rightarrow> False)
      else if 0xE0 \<le> a \<and> a \<le> 0xEF
      then (case s of b # c # s \<Rightarrow> (if a = 0xE0 then 0xA0 \<le> b else if a = 0xED then b \<le> 0x9F else True) \<and>
              cont_byte b \<and> cont_byte c \<and> utf8_valid s
            | _ \<Rightarrow> False)
      else if 0xF0 \<le> a \<and> a \<le> 0xF4
      then (case s of b # c # d # s \<Rightarrow> (if a = 0xF0 then 0x90 \<le> b else if a = 0xF4 then b \<le> 0x8F else True) \<and>
              cont_byte b \<and> cont_byte c \<and> cont_byte d \<and> utf8_valid s
            | _ \<Rightarrow> False)
      else False)"

definition is_utf8 :: "bytes \<Rightarrow> bool" where
  "is_utf8 s = utf8_valid (map of_char s)"

definition apply_kv :: "captures \<Rightarrow> bytes \<Rightarrow> (nat, string) hmap \<Rightarrow> (nat, string) hmap panics" where
  "apply_kv cap data kv = do {
     ensure (is_utf8 data);
     case cap data of
       None \<Rightarrow> Some kv
     | Some (ds, v) \<Rightarrow> do { k \<leftarrow> parse_u16 ds; Some (hm_insert k v kv) }
   }"

subsection \<open>Proposals\<close>

record Proposal =
  p_normal :: "(nat \<times> string) option"
  p_conf_change :: "ConfChange option"
  p_transfer_leader :: "nat option"
  p_proposed :: nat
  p_listening :: bool

definition Proposal_conf_change :: "ConfChange \<Rightarrow> Proposal" where
  "Proposal_conf_change cc = \<lparr>p_normal = None, p_conf_change = Some cc, p_transfer_leader = None, p_proposed = 0, p_listening = True\<rparr>"

definition Proposal_normal :: "nat \<Rightarrow> string \<Rightarrow> Proposal" where
  "Proposal_normal key val = \<lparr>p_normal = Some (key, val), p_conf_change = None, p_transfer_leader = None, p_proposed = 0, p_listening = True\<rparr>"

text \<open>
  The channel of a proposal holds one answer; both clients of the example wait for one answer and then drop their end
  (\<open>p_listening\<close>).  An answer after that fails, and the leader unwraps the result.
\<close>

definition respond :: "Proposal \<Rightarrow> Proposal panics" where
  "respond p = do { ensure (p_listening p); Some (p\<lparr>p_listening := False\<rparr>) }"

text \<open>The encoders of configuration changes are generated code and arguments.  The answer is \<open>Some False\<close> when the client
  is told that the proposal failed.\<close>

definition propose ::
  "(MemStorageCore, 'm) Env_scheme \<Rightarrow> (ConfChange \<Rightarrow> Error + bytes) \<Rightarrow> (ConfChangeV2 \<Rightarrow> Error + bytes) \<Rightarrow>
    MemStorageCore RawNode \<Rightarrow> Proposal \<Rightarrow> (MemStorageCore RawNode \<times> Proposal \<times> bool option) panics" where
  "propose E w1 w2 rn p = do {
     li \<leftarrow> log_last_index E (r_log (rn_raft rn));
     let last_index1 = li + 1;
     rn \<leftarrow> (case p_normal p of
         Some (key, val) \<Rightarrow> map_option fst (rn_propose E rn [] (put_data key val))
       | None \<Rightarrow> (case p_conf_change p of
           Some cc \<Rightarrow> map_option fst (rn_propose_conf_change E w1 w2 rn [] (Inl cc))
         | None \<Rightarrow> (case p_transfer_leader p of Some _ \<Rightarrow> None | None \<Rightarrow> Some rn)));
     li \<leftarrow> log_last_index E (r_log (rn_raft rn));
     let last_index2 = li + 1;
     if last_index2 = last_index1 then do { p \<leftarrow> respond p; Some (rn, p, Some False) }
     else Some (rn, p\<lparr>p_proposed := last_index1\<rparr>, None)
   }"

subsection \<open>Handling a ready (five nodes)\<close>

text \<open>The state of a turn: the raw node, the map, the queue of proposals, what was sent, and the proposals answered.\<close>

record Turn =
  tn_node :: "MemStorageCore RawNode"
  tn_kv :: "(nat, string) hmap"
  tn_proposals :: "Proposal list"
  tn_sent :: "Message list"
  tn_answered :: "(Proposal \<times> bool) list"

definition handle_messages :: "nat list \<Rightarrow> Message list \<Rightarrow> Turn \<Rightarrow> Turn panics" where
  "handle_messages mailboxes msgs t = do {
     ensure (list_all (\<lambda>m. m_to m \<in> set mailboxes) msgs);
     Some (t\<lparr>tn_sent := tn_sent t @ msgs\<rparr>)
   }"

definition apply_committed :: "captures \<Rightarrow> (MemStorageCore, 'm) Env_scheme \<Rightarrow> Entry \<Rightarrow> Turn \<Rightarrow> Turn panics" where
  "apply_committed cap E e t =
     (if e_data e = [] then Some t
      else do {
        t \<leftarrow> (if entry_type e = EntryConfChange
              then do {
                cc \<leftarrow> merge_ConfChange E (e_data e);
                (rn, res) \<leftarrow> rn_apply_conf_change E (tn_node t) (Inl cc);
                cs \<leftarrow> unwrap res;
                Some (t\<lparr>tn_node := rn_set_store (mem_set_conf_state (rn_store rn) cs) rn\<rparr>)
              }
              else do { kv \<leftarrow> apply_kv cap (e_data e) (tn_kv t); Some (t\<lparr>tn_kv := kv\<rparr>) });
        if r_state (rn_raft (tn_node t)) = Leader
        then (case tn_proposals t of
            [] \<Rightarrow> None
          | p # ps \<Rightarrow> do {
              p \<leftarrow> respond p;
              Some (t\<lparr>tn_proposals := ps, tn_answered := tn_answered t @ [(p, True)]\<rparr>)
            })
        else Some t
      })"

definition handle_committed_entries :: "captures \<Rightarrow> (MemStorageCore, 'm) Env_scheme \<Rightarrow> Entry list \<Rightarrow> Turn \<Rightarrow> Turn panics" where
  "handle_committed_entries cap E es t = foldM (apply_committed cap E) es t"

text \<open>After the snapshot: the rest of \<^verbatim>\<open>on_ready\<close>.\<close>

definition finish_ready ::
  "captures \<Rightarrow> (MemStorageCore, 'm) Env_scheme \<Rightarrow> nat list \<Rightarrow> Ready \<Rightarrow> Turn \<Rightarrow> Turn panics" where
  "finish_ready cap E mailboxes rd t = do {
     let (rd, es) = rd_take_committed_entries rd;
     t \<leftarrow> handle_committed_entries cap E es t;
     st \<leftarrow> mem_append (rn_store (tn_node t)) (rd_entries rd);
     let st = (case rd_hs rd of Some hs \<Rightarrow> mem_set_hardstate st hs | None \<Rightarrow> st);
     let t = t\<lparr>tn_node := rn_set_store st (tn_node t)\<rparr>;
     (rd, t) \<leftarrow> (if rd_persisted_messages rd \<noteq> []
                then let (rd, msgs) = rd_take_persisted_messages rd in do { t \<leftarrow> handle_messages mailboxes msgs t; Some (rd, t) }
                else Some (rd, t));
     (rn, light) \<leftarrow> rn_advance E (tn_node t) rd;
     let rn = rn_set_store (persist_commit (rn_store rn) light) rn;
     let (light, msgs) = lr_take_messages light;
     t \<leftarrow> handle_messages mailboxes msgs (t\<lparr>tn_node := rn\<rparr>);
     let (light, es) = lr_take_committed_entries light;
     t \<leftarrow> handle_committed_entries cap E es t;
     rn \<leftarrow> advance_apply E (tn_node t);
     Some (t\<lparr>tn_node := rn\<rparr>)
   }"

definition on_ready :: "captures \<Rightarrow> (MemStorageCore, 'm) Env_scheme \<Rightarrow> nat list \<Rightarrow> Turn \<Rightarrow> Turn panics" where
  "on_ready cap E mailboxes t = do {
     b \<leftarrow> has_ready E (tn_node t);
     if \<not> b then Some t
     else do {
       (rn, rd) \<leftarrow> ready E (tn_node t);
       let t = t\<lparr>tn_node := rn\<rparr>;
       (rd, t) \<leftarrow> (if rd_messages rd \<noteq> []
                  then let (rd, msgs) = rd_take_messages rd in do { t \<leftarrow> handle_messages mailboxes msgs t; Some (rd, t) }
                  else Some (rd, t));
       if rd_snapshot rd \<noteq> Snapshot_default
       then (case mem_apply_snapshot (rn_store (tn_node t)) (rd_snapshot rd) of
           (st, Inl e) \<Rightarrow> Some (t\<lparr>tn_node := rn_set_store st (tn_node t)\<rparr>)
         | (st, Inr _) \<Rightarrow> finish_ready cap E mailboxes rd (t\<lparr>tn_node := rn_set_store st (tn_node t)\<rparr>))
       else finish_ready cap E mailboxes rd t
     }
   }"

subsection \<open>A node of the five\<close>

record MemNode =
  nd_raft_group :: "MemStorageCore RawNode option"
  nd_mailbox :: "Message list"
  nd_mailboxes :: "nat list"
  nd_kv_pairs :: "(nat, string) hmap"

definition example_config :: Config where
  "example_config = Config_default\<lparr>cfg_election_tick := 10, cfg_heartbeat_tick := 3\<rparr>"

definition is_initial_msg :: "Message \<Rightarrow> bool" where
  "is_initial_msg m \<longleftrightarrow> msg_type m = MsgRequestVote \<or> msg_type m = MsgRequestPreVote \<or>
     (msg_type m = MsgHeartbeat \<and> m_commit m = 0)"

definition create_raft_leader ::
  "(MemStorageCore, 'm) Env_scheme \<Rightarrow> nat \<Rightarrow> Message list \<Rightarrow> nat list \<Rightarrow> MemNode panics" where
  "create_raft_leader E i mailbox mailboxes = do {
     let s = Snapshot_default\<lparr>s_metadata := \<lparr>sm_conf_state = ConfState_default\<lparr>cs_voters := [1]\<rparr>, sm_index = 1, sm_term = 1\<rparr>\<rparr>;
     let (st, res) = mem_apply_snapshot MemStorage_new s;
     _ \<leftarrow> unwrap res;
     res \<leftarrow> RawNode_new E (example_config\<lparr>cfg_id := i\<rparr>) st;
     rn \<leftarrow> unwrap res;
     Some \<lparr>nd_raft_group = Some rn, nd_mailbox = mailbox, nd_mailboxes = mailboxes, nd_kv_pairs = []\<rparr>
   }"

definition create_raft_follower :: "Message list \<Rightarrow> nat list \<Rightarrow> MemNode" where
  "create_raft_follower mailbox mailboxes =
     \<lparr>nd_raft_group = None, nd_mailbox = mailbox, nd_mailboxes = mailboxes, nd_kv_pairs = []\<rparr>"

definition initialize_raft_from_message :: "(MemStorageCore, 'm) Env_scheme \<Rightarrow> Message \<Rightarrow> MemNode \<Rightarrow> MemNode panics" where
  "initialize_raft_from_message E m n =
     (if \<not> is_initial_msg m then Some n
      else do {
        res \<leftarrow> RawNode_new E (example_config\<lparr>cfg_id := m_to m\<rparr>) MemStorage_new;
        rn \<leftarrow> unwrap res;
        Some (n\<lparr>nd_raft_group := Some rn\<rparr>)
      })"

definition node_step_msg :: "(MemStorageCore, 'm) Env_scheme \<Rightarrow> Message \<Rightarrow> MemNode \<Rightarrow> MemNode panics" where
  "node_step_msg E m n =
     (if nd_raft_group n = None \<and> \<not> is_initial_msg m then Some n
      else do {
        n \<leftarrow> (if nd_raft_group n = None then initialize_raft_from_message E m n else Some n);
        rn \<leftarrow> nd_raft_group n;
        (rn, _) \<leftarrow> rn_step E rn m;
        Some (n\<lparr>nd_raft_group := Some rn\<rparr>)
      })"

text \<open>The leader proposes what is in the queue, from the first proposal that has not been proposed on.\<close>

fun propose_all ::
  "(MemStorageCore, 'm) Env_scheme \<Rightarrow> (ConfChange \<Rightarrow> Error + bytes) \<Rightarrow> (ConfChangeV2 \<Rightarrow> Error + bytes) \<Rightarrow>
    MemStorageCore RawNode \<Rightarrow> Proposal list \<Rightarrow> (MemStorageCore RawNode \<times> Proposal list \<times> (Proposal \<times> bool) list) panics" where
  "propose_all E w1 w2 rn [] = Some (rn, [], [])"
| "propose_all E w1 w2 rn (p # ps) = do {
     (rn, p, ans) \<leftarrow> propose E w1 w2 rn p;
     (rn, ps, as) \<leftarrow> propose_all E w1 w2 rn ps;
     Some (rn, p # ps, (case ans of Some b \<Rightarrow> (p, b) # as | None \<Rightarrow> as))
   }"

definition propose_pending ::
  "(MemStorageCore, 'm) Env_scheme \<Rightarrow> (ConfChange \<Rightarrow> Error + bytes) \<Rightarrow> (ConfChangeV2 \<Rightarrow> Error + bytes) \<Rightarrow> Turn \<Rightarrow> Turn panics" where
  "propose_pending E w1 w2 t =
     (if r_state (rn_raft (tn_node t)) = Leader
      then do {
        let old = takeWhile (\<lambda>p. 0 < p_proposed p) (tn_proposals t);
        (rn, ps, as) \<leftarrow> propose_all E w1 w2 (tn_node t) (dropWhile (\<lambda>p. 0 < p_proposed p) (tn_proposals t));
        Some (t\<lparr>tn_node := rn, tn_proposals := old @ ps, tn_answered := tn_answered t @ as\<rparr>)
      }
      else Some t)"

text \<open>One turn of the loop of a node's thread.\<close>

definition node_turn ::
  "captures \<Rightarrow> (MemStorageCore, 'm) Env_scheme \<Rightarrow> (ConfChange \<Rightarrow> Error + bytes) \<Rightarrow> (ConfChangeV2 \<Rightarrow> Error + bytes) \<Rightarrow> bool \<Rightarrow>
    MemNode \<Rightarrow> Proposal list \<Rightarrow> (MemNode \<times> Proposal list \<times> Message list \<times> (Proposal \<times> bool) list) panics" where
  "node_turn cap E w1 w2 tick_due n proposals = do {
     n \<leftarrow> foldM (node_step_msg E) (nd_mailbox n) (n\<lparr>nd_mailbox := []\<rparr>);
     case nd_raft_group n of
       None \<Rightarrow> Some (n, proposals, [], [])
     | Some rn \<Rightarrow> do {
         rn \<leftarrow> (if tick_due then map_option fst (rn_tick E rn) else Some rn);
         t \<leftarrow> propose_pending E w1 w2 \<lparr>tn_node = rn, tn_kv = nd_kv_pairs n, tn_proposals = proposals, tn_sent = [], tn_answered = []\<rparr>;
         t \<leftarrow> on_ready cap E (nd_mailboxes n) t;
         Some (n\<lparr>nd_raft_group := Some (tn_node t), nd_kv_pairs := tn_kv t\<rparr>, tn_proposals t, tn_sent t, tn_answered t)
       }
   }"

text \<open>
  The five threads: the mailboxes, the queue of proposals that they share, and the answers given so far.  A turn of one node is
  run as a whole; what it sends is put into the mailboxes of the receivers.  The main thread puts proposals at the end of the
  queue.
\<close>

record Five =
  fv_nodes :: "(nat, MemNode) hmap"
  fv_proposals :: "Proposal list"
  fv_answered :: "(Proposal \<times> bool) list"

definition five_new :: "(MemStorageCore, 'm) Env_scheme \<Rightarrow> Five panics" where
  "five_new E = do {
     n1 \<leftarrow> create_raft_leader E 1 [] [1, 2, 3, 4, 5];
     Some \<lparr>fv_nodes = (1, n1) # map (\<lambda>i. (i, create_raft_follower [] [1, 2, 3, 4, 5])) [2, 3, 4, 5],
       fv_proposals = [], fv_answered = []\<rparr>
   }"

definition mail :: "Message \<Rightarrow> (nat, MemNode) hmap \<Rightarrow> (nat, MemNode) hmap" where
  "mail m ns = (case map_of ns (m_to m) of None \<Rightarrow> ns | Some n \<Rightarrow> hm_insert (m_to m) (n\<lparr>nd_mailbox := nd_mailbox n @ [m]\<rparr>) ns)"

definition five_turn ::
  "captures \<Rightarrow> (MemStorageCore, 'm) Env_scheme \<Rightarrow> (ConfChange \<Rightarrow> Error + bytes) \<Rightarrow> (ConfChangeV2 \<Rightarrow> Error + bytes) \<Rightarrow> nat \<Rightarrow> bool \<Rightarrow> Five \<Rightarrow> Five panics" where
  "five_turn cap E w1 w2 i tick_due f = do {
     n \<leftarrow> map_of (fv_nodes f) i;
     (n, ps, sent, answers) \<leftarrow> node_turn cap E w1 w2 tick_due n (fv_proposals f);
     Some \<lparr>fv_nodes = fold mail sent (hm_insert i n (fv_nodes f)), fv_proposals = ps, fv_answered = fv_answered f @ answers\<rparr>
   }"

definition push_proposal :: "Proposal \<Rightarrow> Five \<Rightarrow> Five" where
  "push_proposal p f = f\<lparr>fv_proposals := fv_proposals f @ [p]\<rparr>"

text \<open>What \<^verbatim>\<open>add_all_followers\<close> puts into the queue for a peer, until it is told that the change succeeded.\<close>

definition add_follower :: "nat \<Rightarrow> Five \<Rightarrow> Five" where
  "add_follower i f = push_proposal (Proposal_conf_change \<lparr>cc_change_type = AddNode, cc_node_id = i, cc_context = [], cc_id = 0\<rparr>) f"

subsection \<open>The single node\<close>

text \<open>The callbacks are kept by the byte that is proposed; a call is recorded.\<close>

record 'c Single =
  sg_node :: "MemStorageCore RawNode"
  sg_cbs :: "(char, 'c) hmap"
  sg_called :: "'c list"

definition single_config :: Config where
  "single_config = Config_default\<lparr>cfg_id := 1, cfg_election_tick := 10, cfg_heartbeat_tick := 3,
     cfg_max_size_per_msg := 1024 * 1024 * 1024, cfg_max_inflight_msgs := 256, cfg_applied := 0\<rparr>"

definition single_new :: "(MemStorageCore, 'm) Env_scheme \<Rightarrow> 'c Single panics" where
  "single_new E = do {
     st \<leftarrow> mem_initialize_with_conf_state MemStorage_new (ConfState_default\<lparr>cs_voters := [1]\<rparr>);
     res \<leftarrow> RawNode_new E single_config st;
     rn \<leftarrow> unwrap res;
     Some \<lparr>sg_node = rn, sg_cbs = [], sg_called = []\<rparr>
   }"

definition single_apply :: "Entry \<Rightarrow> 'c Single \<Rightarrow> 'c Single" where
  "single_apply e t =
     (case e_data e of
        [] \<Rightarrow> t
      | b # _ \<Rightarrow>
          if entry_type e = EntryNormal
          then (case map_of (sg_cbs t) b of
              Some cb \<Rightarrow> t\<lparr>sg_cbs := hm_remove b (sg_cbs t), sg_called := sg_called t @ [cb]\<rparr>
            | None \<Rightarrow> t)
          else t)"

definition single_on_ready :: "(MemStorageCore, 'm) Env_scheme \<Rightarrow> 'c Single \<Rightarrow> 'c Single panics" where
  "single_on_ready E t = do {
     b \<leftarrow> has_ready E (sg_node t);
     if \<not> b then Some t
     else do {
       (rn, rd) \<leftarrow> ready E (sg_node t);
       let rd = fst (rd_take_messages rd);
       st \<leftarrow> (if \<not> snap_is_empty (rd_snapshot rd)
             then (case mem_apply_snapshot (rn_store rn) (rd_snapshot rd) of (st, res) \<Rightarrow> do { _ \<leftarrow> unwrap res; Some st })
             else Some (rn_store rn));
       let (rd, es) = rd_take_committed_entries rd;
       let t = fold single_apply es t;
       st \<leftarrow> (if rd_entries rd \<noteq> [] then mem_append st (rd_entries rd) else Some st);
       let st = (case rd_hs rd of Some hs \<Rightarrow> mem_set_hardstate st hs | None \<Rightarrow> st);
       let rd = fst (rd_take_persisted_messages rd);
       (rn, light) \<leftarrow> rn_advance E (rn_set_store st rn) rd;
       let rn = rn_set_store (persist_commit (rn_store rn) light) rn;
       let light = fst (lr_take_messages light);
       let (light, es) = lr_take_committed_entries light;
       rn \<leftarrow> advance_apply E rn;
       Some ((fold single_apply es t)\<lparr>sg_node := rn\<rparr>)
     }
   }"

definition single_propose :: "(MemStorageCore, 'm) Env_scheme \<Rightarrow> char \<Rightarrow> 'c \<Rightarrow> 'c Single \<Rightarrow> 'c Single panics" where
  "single_propose E b cb t = do {
     let t = t\<lparr>sg_cbs := hm_insert b cb (sg_cbs t)\<rparr>;
     (rn, res) \<leftarrow> rn_propose E (sg_node t) [] [b];
     _ \<leftarrow> unwrap res;
     Some (t\<lparr>sg_node := rn\<rparr>)
   }"

text \<open>A turn of the loop, with what has been received; a closed channel ends the loop.\<close>

datatype 'c Msg = Msg_Propose char 'c | Msg_Raft Message

definition single_turn :: "(MemStorageCore, 'm) Env_scheme \<Rightarrow> 'c Msg option \<Rightarrow> bool \<Rightarrow> 'c Single \<Rightarrow> 'c Single panics" where
  "single_turn E ev tick_due t = do {
     t \<leftarrow> (case ev of
         Some (Msg_Propose b cb) \<Rightarrow> single_propose E b cb t
       | Some (Msg_Raft m) \<Rightarrow> do { (rn, res) \<leftarrow> rn_step E (sg_node t) m; _ \<leftarrow> unwrap res; Some (t\<lparr>sg_node := rn\<rparr>) }
       | None \<Rightarrow> Some t);
     rn \<leftarrow> (if tick_due then map_option fst (rn_tick E (sg_node t)) else Some (sg_node t));
     single_on_ready E (t\<lparr>sg_node := rn\<rparr>)
   }"

subsection \<open>Puts\<close>

lemma utf8_ascii: "list_all (\<lambda>b. b < 0x80) xs \<Longrightarrow> utf8_valid (xs @ ys) = utf8_valid ys"
  by (induction xs) simp_all

lemma digit_ascii: "is_digit c \<Longrightarrow> (of_char c :: nat) < 128"
  by (simp add: is_digit_def)

lemma put_data_utf8: "is_utf8 (put_data k v) = is_utf8 v"
proof -
  have "list_all (\<lambda>b. b < 0x80) (map of_char (''put '' @ show_nat k @ '' '') :: nat list)"
    by (auto simp: list_all_iff dest!: show_nat_digits digit_ascii)
  from utf8_ascii [OF this, of "map of_char v"] show ?thesis by (simp add: is_utf8_def put_data_def)
qed

lemma takeWhile_digits: "takeWhile is_digit (show_nat k @ CHR '' '' # v) = show_nat k"
  "dropWhile is_digit (show_nat k @ CHR '' '' # v) = CHR '' '' # v"
proof -
  have d: "\<And>c. c \<in> set (show_nat k) \<Longrightarrow> is_digit c" by (rule show_nat_digits)
  have "\<not> is_digit (CHR '' '')" by (simp add: is_digit_def)
  note d = d this
  show "takeWhile is_digit (show_nat k @ CHR '' '' # v) = show_nat k" "dropWhile is_digit (show_nat k @ CHR '' '' # v) = CHR '' '' # v"
    using d by (simp_all add: takeWhile_append2 dropWhile_append2)
qed

lemma find_put_skip: "list_all (\<lambda>c. c \<noteq> CHR ''p'') xs \<Longrightarrow> find_put (xs @ ys) = find_put ys"
  by (induction xs) (simp_all add: put_at_def)

text \<open>The command is found at its start when the value has a first line; otherwise no text of the command but the value's own
  can match, since a match starts with a \<^verbatim>\<open>p\<close>.\<close>

lemma find_put_data:
  "find_put (put_data k v) =
    (if takeWhile (\<lambda>c. c \<noteq> CHR 0x0A) v \<noteq> [] then Some (show_nat k, takeWhile (\<lambda>c. c \<noteq> CHR 0x0A) v) else find_put v)"
proof (cases "takeWhile (\<lambda>c. c \<noteq> CHR 0x0A) v = []")
  case True
  let ?rest = "''ut '' @ show_nat k @ '' ''"
  have "\<And>c. c \<in> set (show_nat k) \<Longrightarrow> c \<noteq> CHR ''p''" by (auto simp: is_digit_def dest: show_nat_digits)
  then have "list_all (\<lambda>c. c \<noteq> CHR ''p'') ?rest" by (auto simp: list_all_iff)
  from find_put_skip [OF this, of v] have "find_put (?rest @ v) = find_put v" .
  moreover have "put_at (put_data k v) = None" using True by (simp add: put_data_def put_at_def takeWhile_digits Let_def)
  ultimately show ?thesis using True by (simp add: put_data_def)
qed (simp add: put_data_def put_at_def takeWhile_digits Let_def)

lemma parse_u16_show: "k < 2 ^ 16 \<Longrightarrow> parse_u16 (show_nat k) = Some k"
  using parse_u64_show [of k] by (simp add: parse_u16_def u64_MAX_def)

text \<open>C34: what every node stores for a put that the leader of the five nodes proposes.  For a key of 16 bits and a value (a
  string, so valid UTF-8), when the regular expression matches as its documentation says: if the first line of the value is not
  empty, that line is stored under the key, whatever else the value holds (blanks, digits, another \<open>put\<close>, further lines).  If
  it is empty, that is, for an empty value or one that starts with a line feed, the key gets nothing, and the nodes store what
  the value alone, read as a command, would make them store.\<close>

theorem kv_put_applied:
  assumes "put_captures cap" "k < 2 ^ 16" "is_utf8 v"
  shows "apply_kv cap (put_data k v) kv =
    (if takeWhile (\<lambda>c. c \<noteq> CHR 0x0A) v \<noteq> [] then Some (hm_insert k (takeWhile (\<lambda>c. c \<noteq> CHR 0x0A) v) kv)
     else apply_kv cap v kv)"
  using assms by (simp add: apply_kv_def put_captures_def put_data_utf8 find_put_data parse_u16_show ensure_def)

theorem kv_put_applied_witness:
  "apply_kv find_put (put_data 65535 ''put 7 x'') [(65535, ''old'')] = Some (hm_insert 65535 ''put 7 x'' [(65535, ''old'')]) \<and>
   apply_kv find_put (put_data 5 (CHR 0x0A # ''put 3 x'')) [] = Some [(3, ''x'')]"
proof -
  have h: "put_captures find_put" "takeWhile (\<lambda>c. c \<noteq> CHR 0x0A) ''put 7 x'' = ''put 7 x''" "is_utf8 ''put 7 x''"
      "is_utf8 (CHR 0x0A # ''put 3 x'')" "apply_kv find_put (CHR 0x0A # ''put 3 x'') [] = Some [(3, ''x'')]"
    by (simp add: put_captures_def) code_simp+
  then show ?thesis
    using kv_put_applied [OF h(1), of 65535 "''put 7 x''"] kv_put_applied [OF h(1), of 5 "CHR 0x0A # ''put 3 x''"] by simp
qed

subsection \<open>Answers to the clients\<close>

lemma apply_conf_change_state: "apply_conf_change E r cc = Some (r', x) \<Longrightarrow> r_state r' = r_state r"
  by (auto simp: apply_conf_change_def elim!: bind_SomeE split: if_split_asm prod.split_asm option.split_asm sum.split_asm
      dest!: post_conf_change_mono maybe_start_new_subterm_mono)

lemma rn_apply_conf_change_state: "rn_apply_conf_change E rn cc = Some (rn', x) \<Longrightarrow> r_state (rn_raft rn') = r_state (rn_raft rn)"
  by (auto simp: rn_apply_conf_change_def on_raft_def elim!: bind_SomeE split: prod.split_asm dest!: apply_conf_change_state)

text \<open>What is done with an entry besides the effect on the node.\<close>

definition puts :: "Entry list \<Rightarrow> bytes list" where
  "puts es = map e_data (filter (\<lambda>e. e_data e \<noteq> [] \<and> entry_type e \<noteq> EntryConfChange) es)"

definition pops :: "Turn \<Rightarrow> Entry list \<Rightarrow> nat" where
  "pops t es = (if r_state (rn_raft (tn_node t)) = Leader then length (filter (\<lambda>e. e_data e \<noteq> []) es) else 0)"

lemma apply_committed_effect:
  assumes "apply_committed cap E e t = Some t'"
  shows "pops t' es = pops t es \<and> pops t [e] \<le> length (tn_proposals t) \<and> tn_sent t' = tn_sent t \<and>
    tn_proposals t' = drop (pops t [e]) (tn_proposals t) \<and>
    tn_answered t' = tn_answered t @ map (\<lambda>p. (p\<lparr>p_listening := False\<rparr>, True)) (take (pops t [e]) (tn_proposals t)) \<and>
    foldM (apply_kv cap) (puts [e]) (tn_kv t) = Some (tn_kv t')"
proof (cases "e_data e = []")
  case True
  then show ?thesis using assms by (simp add: apply_committed_def pops_def puts_def)
next
  case False
  with assms obtain t1 where t1: "(if entry_type e = EntryConfChange
        then do {
          cc \<leftarrow> merge_ConfChange E (e_data e);
          (rn, res) \<leftarrow> rn_apply_conf_change E (tn_node t) (Inl cc);
          cs \<leftarrow> unwrap res;
          Some (t\<lparr>tn_node := rn_set_store (mem_set_conf_state (rn_store rn) cs) rn\<rparr>)
        }
        else do { kv \<leftarrow> apply_kv cap (e_data e) (tn_kv t); Some (t\<lparr>tn_kv := kv\<rparr>) }) = Some t1"
      and t': "(if r_state (rn_raft (tn_node t1)) = Leader
        then (case tn_proposals t1 of [] \<Rightarrow> None | p # ps \<Rightarrow> do {
            p \<leftarrow> respond p;
            Some (t1\<lparr>tn_proposals := ps, tn_answered := tn_answered t1 @ [(p, True)]\<rparr>)
          })
        else Some t1) = Some t'"
    unfolding apply_committed_def by (simp only: if_False) (elim bind_SomeE)
  from t1 have "tn_proposals t1 = tn_proposals t" "tn_sent t1 = tn_sent t" "tn_answered t1 = tn_answered t"
      "r_state (rn_raft (tn_node t1)) = r_state (rn_raft (tn_node t))" "foldM (apply_kv cap) (puts [e]) (tn_kv t) = Some (tn_kv t1)"
    using False by (auto simp: puts_def rn_set_store_def elim!: bind_SomeE split: if_split_asm prod.split_asm
        dest!: rn_apply_conf_change_state)
  with t' show ?thesis using False by (auto simp: pops_def respond_def elim!: bind_SomeE split: if_split_asm list.split_asm)
qed

lemma pops_Cons: "pops t (e # es) = pops t [e] + pops t es"
  by (simp add: pops_def)

lemma puts_Cons: "puts (e # es) = puts [e] @ puts es"
  by (simp add: puts_def)

text \<open>On every node the map is the old one with the commands of the committed normal entries applied in the order of the
  log; a leader takes one proposal off the front of the queue for every entry that is not empty.\<close>

lemma committed_answers_fifo:
  assumes "handle_committed_entries cap E es t = Some t'"
  shows "pops t es \<le> length (tn_proposals t) \<and> tn_proposals t' = drop (pops t es) (tn_proposals t) \<and>
    tn_answered t' = tn_answered t @ map (\<lambda>p. (p\<lparr>p_listening := False\<rparr>, True)) (take (pops t es) (tn_proposals t)) \<and>
    tn_sent t' = tn_sent t \<and> foldM (apply_kv cap) (puts es) (tn_kv t) = Some (tn_kv t')"
  using assms unfolding handle_committed_entries_def
proof (induction es arbitrary: t)
  case Nil
  then show ?case by (simp add: pops_def puts_def)
next
  case (Cons e es)
  then obtain t1 where t1: "apply_committed cap E e t = Some t1" "foldM (apply_committed cap E) es t1 = Some t'" by (auto elim!: bind_SomeE)
  note eff = apply_committed_effect [OF t1(1), of es] and rest = Cons.IH [OF t1(2)]
  have "drop (pops t [e] + pops t es) xs = drop (pops t es) (drop (pops t [e]) xs)" for xs :: "Proposal list"
    by (simp add: add.commute)
  moreover from eff rest have "pops t [e] + pops t es \<le> length (tn_proposals t)" by auto
  ultimately show ?case
    using eff rest unfolding pops_Cons [of t e es] puts_Cons [of e es] by (simp add: take_add del: foldM.simps drop_drop)
qed

subsection \<open>Refused proposals\<close>

lemma propose_refused:
  "propose E w1 w2 rn p = Some (rn', p', Some b) \<Longrightarrow> \<not> b \<and> p_listening p \<and> p' = p\<lparr>p_listening := False\<rparr>"
  by (auto simp: propose_def respond_def Let_def elim!: bind_SomeE split: if_split_asm)

lemma propose_gone: "propose E w1 w2 rn p = Some (rn', p', ans) \<Longrightarrow> \<not> p_listening p \<Longrightarrow> ans = None"
  using propose_refused [of E w1 w2 rn p rn' p'] by (cases ans) auto

lemma propose_all_keeps:
  "propose_all E w1 w2 rn ps = Some (rn', ps', as) \<Longrightarrow> length ps' = length ps \<and>
    (\<forall>(q, b) \<in> set as. \<not> b \<and> q \<in> set ps' \<and> (\<exists>p \<in> set ps. p_listening p \<and> q = p\<lparr>p_listening := False\<rparr>))"
proof (induction ps arbitrary: rn ps' as)
  case (Cons p ps)
  then obtain rn1 p1 ans ps1 as1 where h: "propose E w1 w2 rn p = Some (rn1, p1, ans)" "propose_all E w1 w2 rn1 ps = Some (rn', ps1, as1)"
      "ps' = p1 # ps1" "as = (case ans of Some b \<Rightarrow> (p1, b) # as1 | None \<Rightarrow> as1)"
    by (auto elim!: bind_SomeE split: prod.split_asm)
  show ?case
  proof (cases ans)
    case None
    then show ?thesis using Cons.IH [OF h(2)] h(3,4) by auto
  next
    case (Some b)
    then show ?thesis using Cons.IH [OF h(2)] h(3,4) propose_refused [of E w1 w2 rn p rn1 p1 b] h(1) by auto
  qed
qed simp

lemma unproposed_offered: "q \<in> set ps \<Longrightarrow> p_proposed q = 0 \<Longrightarrow> q \<in> set (dropWhile (\<lambda>p. 0 < p_proposed p) ps)"
  by (induction ps) auto

lemma commit_of_gone:
  assumes "tn_proposals t = q # ps" "\<not> p_listening q" "r_state (rn_raft (tn_node t)) = Leader" "e_data e \<noteq> []"
  shows "apply_committed cap E e t = None"
proof (rule ccontr)
  assume "apply_committed cap E e t \<noteq> None"
  then show False
    using assms
    by (auto simp: apply_committed_def respond_def ensure_def rn_set_store_def elim!: bind_SomeE
        split: if_split_asm prod.split_asm dest!: rn_apply_conf_change_state)
qed


definition ex_turn :: Turn where
  "ex_turn = \<lparr>tn_node = ex_demo_leader, tn_kv = [], tn_proposals = [Proposal_normal 1 ''a'', Proposal_normal 2 ''b''], tn_sent = [],
     tn_answered = []\<rparr>"

text \<open>A leader that hands over its office refuses the first proposal; it is answered and stays, unproposed.\<close>

definition ex_busy_turn :: Turn where
  "ex_busy_turn = ex_turn\<lparr>tn_node := ex_demo_leader\<lparr>rn_raft := (rn_raft ex_demo_leader)\<lparr>r_lead_transferee := Some 2\<rparr>\<rparr>,
     tn_proposals := [Proposal_normal 1 ''a'']\<rparr>"

definition ex_put :: Entry where
  "ex_put = Entry_default\<lparr>e_data := put_data 1 ''a''\<rparr>"


subsection \<open>The order of service\<close>

definition content :: "Proposal \<Rightarrow> Proposal" where
  "content p = p\<lparr>p_proposed := 0, p_listening := True\<rparr>"

text \<open>The proposals that were answered with success, and then the queue.\<close>

definition served :: "(Proposal \<times> bool) list \<Rightarrow> Proposal list \<Rightarrow> Proposal list" where
  "served as ps = map content (map fst (filter snd as) @ ps)"

lemma propose_content: "propose E w1 w2 rn p = Some (rn', p', ans) \<Longrightarrow> content p' = content p \<and> ans \<noteq> Some True"
  by (auto simp: propose_def respond_def content_def Let_def elim!: bind_SomeE split: if_split_asm)

lemma propose_all_content:
  "propose_all E w1 w2 rn ps = Some (rn', ps', as) \<Longrightarrow> map content ps' = map content ps \<and> filter snd as = []"
proof (induction ps arbitrary: rn ps' as)
  case (Cons p ps)
  then show ?case by (auto elim!: bind_SomeE split: prod.split_asm option.split_asm dest!: propose_content Cons.IH)
qed simp

lemma map_rest: "map f ys = map f (dropWhile P xs) \<Longrightarrow> map f (takeWhile P xs) @ map f ys = map f xs"
  by (metis map_append takeWhile_dropWhile_id)

lemma propose_pending_served:
  "propose_pending E w1 w2 t = Some t' \<Longrightarrow> served (tn_answered t') (tn_proposals t') = served (tn_answered t) (tn_proposals t)"
  by (auto simp: propose_pending_def served_def Let_def map_rest elim!: bind_SomeE split: if_split_asm prod.split_asm
      dest!: propose_all_content)

lemma committed_served:
  "handle_committed_entries cap E es t = Some t' \<Longrightarrow> served (tn_answered t') (tn_proposals t') = served (tn_answered t) (tn_proposals t)"
proof -
  assume a: "handle_committed_entries cap E es t = Some t'"
  have "filter snd (map (\<lambda>p. (f p, True)) ps) = map (\<lambda>p. (f p, True)) ps" for f and ps :: "Proposal list" by (simp add: filter_map o_def)
  moreover have "content (p\<lparr>p_listening := b\<rparr>) = content p" for p b by (simp add: content_def)
  moreover have "map content (take n ps) @ map content (drop n ps) = map content ps" for n ps by (metis append_take_drop_id map_append)
  ultimately show ?thesis using committed_answers_fifo [OF a] by (simp add: served_def o_def)
qed

lemma handle_messages_served:
  "handle_messages mb ms t = Some t' \<Longrightarrow> tn_answered t' = tn_answered t \<and> tn_proposals t' = tn_proposals t"
  by (auto simp: handle_messages_def elim!: bind_SomeE)

lemma finish_ready_served:
  "finish_ready cap E mb rd t = Some t' \<Longrightarrow> served (tn_answered t') (tn_proposals t') = served (tn_answered t) (tn_proposals t)"
  by (auto simp: finish_ready_def Let_def elim!: bind_SomeE split: if_split_asm prod.split_asm
      dest!: committed_served handle_messages_served)

lemma on_ready_served:
  "on_ready cap E mb t = Some t' \<Longrightarrow> served (tn_answered t') (tn_proposals t') = served (tn_answered t) (tn_proposals t)"
  by (auto simp: on_ready_def Let_def elim!: bind_SomeE split: if_split_asm prod.split_asm sum.split_asm
      dest!: finish_ready_served handle_messages_served)

lemma node_turn_served:
  "node_turn cap E w1 w2 b n ps = Some (n', ps', sent, as) \<Longrightarrow> served as ps' = served [] ps"
  by (auto simp: node_turn_def elim!: bind_SomeE split: option.split_asm dest!: on_ready_served propose_pending_served)

lemma served_append: "served (as @ bs) ps = map content (map fst (filter snd as)) @ served bs ps"
  by (simp add: served_def)

lemma five_turn_served:
  "five_turn cap E w1 w2 i b f = Some f' \<Longrightarrow> served (fv_answered f') (fv_proposals f') = served (fv_answered f) (fv_proposals f)"
  by (auto simp: five_turn_def served_append elim!: bind_SomeE split: prod.split_asm dest!: node_turn_served) (simp add: served_def)

text \<open>The runs of the five threads, with the proposals that the main thread has put into the queue.\<close>

inductive five_run ::
  "captures \<Rightarrow> (MemStorageCore, 'm) Env_scheme \<Rightarrow> (ConfChange \<Rightarrow> Error + bytes) \<Rightarrow> (ConfChangeV2 \<Rightarrow> Error + bytes) \<Rightarrow> Proposal list \<Rightarrow> Five \<Rightarrow> bool"
  for cap E w1 w2
where
  five_start: "five_new E = Some f \<Longrightarrow> five_run cap E w1 w2 [] f"
| five_push: "five_run cap E w1 w2 ps f \<Longrightarrow> five_run cap E w1 w2 (ps @ [p]) (push_proposal p f)"
| five_step: "five_run cap E w1 w2 ps f \<Longrightarrow> five_turn cap E w1 w2 i b f = Some f' \<Longrightarrow> five_run cap E w1 w2 ps f'"

text \<open>C6: no proposal is lost, and none is answered with success twice or before an earlier one.  In every
  run of the five nodes in which no thread panics, whatever the order of their turns, ticks and messages and whoever is leader, the proposals that were answered with success followed by those in the queue
  are the proposals of the clients in the order in which they were put into the queue.\<close>

theorem five_serve_in_order:
  assumes "five_run cap E w1 w2 ps f"
  shows "map content (map fst (filter snd (fv_answered f)) @ fv_proposals f) = map content ps"
  using assms
proof induction
  case (five_start f)
  then show ?case by (auto simp: five_new_def elim!: bind_SomeE)
next
  case (five_push ps f p)
  then show ?case by (simp add: push_proposal_def)
next
  case (five_step ps f i b f')
  then show ?case using five_turn_served [of cap E w1 w2 i b f f'] by (simp add: served_def)
qed

text \<open>Ten turns of the first node, with a tick each: it is elected, proposes what the client has put into the queue, commits and
  applies it, and answers.\<close>

definition ex_five :: "Five panics" where
  "ex_five = do {
     f \<leftarrow> five_new ex_demo_env;
     foldM (\<lambda>_. five_turn find_put ex_demo_env (\<lambda>c. Inr []) (\<lambda>c. Inr []) 1 True) [0..<10] (push_proposal (Proposal_normal 7 ''x'') f)
   }"

lemma five_turns_run:
  "foldM (\<lambda>_. five_turn cap E w1 w2 i b) xs f = Some f' \<Longrightarrow> five_run cap E w1 w2 ps f \<Longrightarrow> five_run cap E w1 w2 ps f'"
  by (induction xs arbitrary: f) (auto elim!: bind_SomeE intro: five_step)

theorem five_serve_in_order_witness:
  "\<exists>f. ex_five = Some f \<and> fv_proposals f = [] \<and> map content (map fst (filter snd (fv_answered f))) = [Proposal_normal 7 ''x'']"
proof -
  have h: "ex_five \<noteq> None" "fv_proposals (the ex_five) = []"
    unfolding ex_five_def ex_demo_env_def by code_simp+
  then obtain f f0 where f: "ex_five = Some f" and f0: "five_new ex_demo_env = Some f0"
      and run: "foldM (\<lambda>_. five_turn find_put ex_demo_env (\<lambda>c. Inr []) (\<lambda>c. Inr []) 1 True) [0..<10]
        (push_proposal (Proposal_normal 7 ''x'') f0) = Some f"
    by (auto simp: ex_five_def bind_eq_Some_conv)
  have "fv_proposals f = []" using h(2) unfolding f option.sel .
  with five_serve_in_order [OF five_turns_run [OF run five_push [OF five_start [OF f0]]]] f show ?thesis
    by (intro exI [of _ f]) (simp add: content_def Proposal_normal_def)
qed

end
