(* ===== verification/Datadriven.thy ===== *)
theory Datadriven
  imports Proto
begin

section \<open>The data driven test runner\<close>

text \<open>
  The crate \<^verbatim>\<open>datadriven\<close>: a test file is a sequence of directives, each with arguments, an input and the expected output;
  the runner calls a function on every directive and compares its result with what is expected, or writes the results
  back.  Text is ASCII (\<open>string\<close>).  The two regular expressions are literals of the source; they are translated into functions that match
  as the documentation of the crate \<^verbatim>\<open>regex\<close> says (the first alternative that matches, repetitions as long as possible):
  in each of them the classes of neighbouring parts are disjoint, so the longest match of a part is the only one.
\<close>

subsection \<open>Directives (line_sparser.rs, test_data.rs)\<close>

record CmdArg =
  arg_key :: string
  arg_vals :: "string list"

definition is_alnum :: "char \<Rightarrow> bool" where
  "is_alnum c \<longleftrightarrow> (let n = of_char c :: nat in
     48 \<le> n \<and> n \<le> 57 \<or> 65 \<le> n \<and> n \<le> 90 \<or> 97 \<le> n \<and> n \<le> 122)"

definition key_char :: "char \<Rightarrow> bool" where
  "key_char c \<longleftrightarrow> is_alnum c \<or> c \<in> set ''-/_,.''"

definition val_char :: "char \<Rightarrow> bool" where
  "val_char c \<longleftrightarrow> is_alnum c \<or> c \<in> set ''-_@=+/,.''"

text \<open>\<open>( |$)\<close>: the rest after a blank, or nothing.\<close>

definition blank_or_end :: "string \<Rightarrow> string option" where
  "blank_or_end s = (case s of [] \<Rightarrow> Some [] | c # cs \<Rightarrow> if c = CHR '' '' then Some cs else None)"

text \<open>The three forms of a value, in the order of the alternatives, and the rest of the line after the match.\<close>

definition match_value :: "string \<Rightarrow> string option" where
  "match_value s = (case blank_or_end s of
     Some r \<Rightarrow> Some r
   | None \<Rightarrow> (case s of
       c # v \<Rightarrow> if c \<noteq> CHR ''='' then None
         else (case blank_or_end (dropWhile val_char v) of
             Some r \<Rightarrow> Some r
           | None \<Rightarrow> (case v of
               p # w \<Rightarrow> if p \<noteq> CHR ''('' then None
                 else (case dropWhile (\<lambda>c. c \<noteq> CHR '')'') w of
                     [] \<Rightarrow> None
                   | q # r \<Rightarrow> blank_or_end r)
             | [] \<Rightarrow> None))
     | [] \<Rightarrow> None))"

definition match_directive :: "string \<Rightarrow> string option" where
  "match_directive line = (let s = dropWhile (\<lambda>c. c = CHR '' '') line in
     if takeWhile key_char s = [] then None else match_value (dropWhile key_char s))"

lemma length_blank_or_end: "blank_or_end s = Some r \<Longrightarrow> length r \<le> length s"
  by (auto simp: blank_or_end_def split: list.split_asm if_split_asm)

lemma length_match_value: "match_value s = Some r \<Longrightarrow> length r \<le> length s"
proof -
  have drop: "length r \<le> length v" if "blank_or_end (dropWhile P v) = Some r" for P v
    using length_blank_or_end [OF that] length_dropWhile_le [of P v] by linarith
  assume "match_value s = Some r"
  then show ?thesis
    using length_dropWhile_le [of "\<lambda>c. c \<noteq> CHR '')''" "tl (tl s)"]
    by (auto simp: match_value_def split: option.split_asm list.split_asm if_split_asm
        dest!: length_blank_or_end drop)
qed

lemma length_match_directive: "match_directive line = Some r \<Longrightarrow> length r < length line"
proof -
  assume m: "match_directive line = Some r"
  let ?s = "dropWhile (\<lambda>c. c = CHR '' '') line"
  have "length (dropWhile key_char ?s) < length ?s"
    using m by (cases ?s) (auto simp: match_directive_def Let_def le_imp_less_Suc length_dropWhile_le split: if_split_asm)
  moreover have "length r \<le> length (dropWhile key_char ?s)"
    using m by (auto simp: match_directive_def Let_def split: if_split_asm dest: length_match_value)
  ultimately show ?thesis using length_dropWhile_le [of "\<lambda>c. c = CHR '' ''" line] by linarith
qed

function split_loop :: "nat \<Rightarrow> string \<Rightarrow> nat + string list" where
  "split_loop n line =
     (if line = [] then Inr []
      else case match_directive line of
          None \<Rightarrow> Inl (n - length line + 1)
        | Some rest \<Rightarrow> (case split_loop n rest of
              Inl e \<Rightarrow> Inl e
            | Inr fs \<Rightarrow> Inr (str_trim (take (length line - length rest) line) # fs)))"
  by auto
termination by (relation "measure (length \<circ> snd)") (auto dest: length_match_directive)

declare split_loop.simps [simp del]

definition split_directives :: "string \<Rightarrow> string + string list" where
  "split_directives line = (case split_loop (length line) line of
     Inl col \<Rightarrow> Inl (''cannot parse directive at column '' @ show_nat col @ '': '' @ line)
   | Inr fs \<Rightarrow> Inr fs)"

fun split_on :: "char \<Rightarrow> string \<Rightarrow> string list" where
  "split_on d [] = [[]]"
| "split_on d (c # cs) = (if c = d then [] # split_on d cs
     else (case split_on d cs of [] \<Rightarrow> [[c]] | s # ss \<Rightarrow> (c # s) # ss))"

definition parse_arg :: "string \<Rightarrow> CmdArg" where
  "parse_arg arg = (let key = takeWhile (\<lambda>c. c \<noteq> CHR ''='') arg in
     case dropWhile (\<lambda>c. c \<noteq> CHR ''='') arg of
       [] \<Rightarrow> \<lparr>arg_key = key, arg_vals = []\<rparr>
     | _ # val \<Rightarrow> \<lparr>arg_key = key, arg_vals =
         (if val \<noteq> [] \<and> hd val = CHR ''('' \<and> last val = CHR '')''
          then map str_trim (split_on (CHR '','') (butlast (tl val)))
          else [val])\<rparr>)"

definition parse_line :: "string \<Rightarrow> string + string \<times> CmdArg list" where
  "parse_line line = (case split_directives line of
     Inl e \<Rightarrow> Inl e
   | Inr [] \<Rightarrow> Inr ([], [])
   | Inr (cmd # args) \<Rightarrow> Inr (cmd, map parse_arg args))"

fun join_with :: "string \<Rightarrow> string list \<Rightarrow> string" where
  "join_with d [] = []"
| "join_with d [s] = s"
| "join_with d (s # ss) = s @ d @ join_with d ss"

definition CmdArg_display :: "CmdArg \<Rightarrow> string" where
  "CmdArg_display a = (case arg_vals a of
     [] \<Rightarrow> arg_key a
   | [v] \<Rightarrow> arg_key a @ ''='' @ v
   | vs \<Rightarrow> arg_key a @ ''=('' @ join_with '','' vs @ '')'')"

subsection \<open>Reading a test file (test_data_reader.rs)\<close>

record TestData =
  td_pos :: string
  td_cmd :: string
  td_cmd_args :: "CmdArg list"
  td_input :: string
  td_expected :: string

definition TestData_default :: TestData where
  "TestData_default = \<lparr>td_pos = [], td_cmd = [], td_cmd_args = [], td_input = [], td_expected = []\<rparr>"

definition contains_key :: "TestData \<Rightarrow> string \<Rightarrow> bool" where
  "contains_key d k = list_ex (\<lambda>a. arg_key a = k) (td_cmd_args d)"

record TestDataReader =
  rd_source_name :: string
  rd_data :: TestData
  rd_scanner :: "(nat \<times> string) list"
  rd_rewrite_buffer :: "string option"

abbreviation nl :: string where
  "nl \<equiv> [CHR 0x0A]"

text \<open>\<^verbatim>\<open>str::lines\<close>: the lines without their line ends; a carriage return before a line feed belongs to the line end.\<close>

fun lines_loop :: "string \<Rightarrow> string \<Rightarrow> string list" where
  "lines_loop acc [] = (if acc = [] then [] else [rev acc])"
| "lines_loop acc (c # cs) =
     (if c = CHR 0x0A
      then rev (if acc \<noteq> [] \<and> hd acc = CHR 0x0D then tl acc else acc) # lines_loop [] cs
      else lines_loop (c # acc) cs)"

definition str_lines :: "string \<Rightarrow> string list" where
  "str_lines s = lines_loop [] s"

definition TestDataReader_new :: "string \<Rightarrow> string \<Rightarrow> bool \<Rightarrow> TestDataReader" where
  "TestDataReader_new source_name content rewrite = \<lparr>rd_source_name = source_name, rd_data = TestData_default,
     rd_scanner = enumerate 0 (str_lines content), rd_rewrite_buffer = (if rewrite then Some [] else None)\<rparr>"

definition emit :: "string \<Rightarrow> TestDataReader \<Rightarrow> TestDataReader" where
  "emit s r = r\<lparr>rd_rewrite_buffer := map_option (\<lambda>rb. rb @ s @ nl) (rd_rewrite_buffer r)\<rparr>"

definition separator :: string where
  "separator = ''----''"

text \<open>The expected output after a double separator: up to the next double separator and the blank line after it.\<close>

fun expected_double :: "(nat \<times> string) list \<Rightarrow> string \<Rightarrow> ((nat \<times> string) list \<times> string) panics" where
  "expected_double [] expected = None"
| "expected_double ((_, line) # sc) expected =
     (if line = separator
      then (case sc of
          [] \<Rightarrow> None
        | (_, line2) # sc \<Rightarrow>
            if line2 = separator
            then (case sc of
                [] \<Rightarrow> Some ([], expected)
              | (_, line3) # sc \<Rightarrow> do { ensure (line3 = []); Some (sc, expected) })
            else expected_double sc (expected @ line @ nl @ line2 @ nl))
      else expected_double sc (expected @ line @ nl))"

text \<open>The expected output after a single separator: up to the first blank line.\<close>

fun expected_single :: "string \<Rightarrow> (nat \<times> string) list \<Rightarrow> string \<Rightarrow> (nat \<times> string) list \<times> string" where
  "expected_single line sc expected =
     (if str_trim line = [] then (sc, expected)
      else case sc of
          [] \<Rightarrow> ([], expected @ line @ nl)
        | (_, l) # sc \<Rightarrow> expected_single l sc (expected @ line @ nl))"

declare expected_single.simps [simp del]

lemma expected_single_simps [simp]:
  "expected_single line [] e = (if str_trim line = [] then ([], e) else ([], e @ line @ nl))"
  "expected_single line ((k, l) # sc) e = (if str_trim line = [] then ((k, l) # sc, e) else expected_single l sc (e @ line @ nl))"
  by (subst expected_single.simps, simp)+

definition read_expected :: "TestDataReader \<Rightarrow> TestDataReader panics" where
  "read_expected r = do {
     (sc, expected) \<leftarrow> (case rd_scanner r of
         [] \<Rightarrow> Some (expected_single [] [] (td_expected (rd_data r)))
       | (_, l) # sc \<Rightarrow>
           if l = separator then expected_double sc (td_expected (rd_data r))
           else Some (expected_single l sc (td_expected (rd_data r))));
     Some (r\<lparr>rd_scanner := sc, rd_data := (rd_data r)\<lparr>td_expected := expected\<rparr>\<rparr>)
   }"

text \<open>A directive line that ends in a backslash goes on in the next line; the number counts the lines added.\<close>

fun wrap_lines :: "(nat \<times> string) list \<Rightarrow> string \<Rightarrow> nat \<Rightarrow> ((nat \<times> string) list \<times> string list \<times> string \<times> nat) panics" where
  "wrap_lines sc line pos =
     (if line \<noteq> [] \<and> last line = CHR 0x5C
      then (case sc of
          [] \<Rightarrow> None
        | (_, next_line) # sc \<Rightarrow> do {
            let more = str_trim next_line;
            (sc, emitted, line, pos) \<leftarrow> wrap_lines sc (if more = [] then butlast line else butlast line @ '' '' @ more) (pos + 1);
            Some (sc, next_line # emitted, line, pos)
          })
      else Some (sc, [], line, pos))"

declare wrap_lines.simps [simp del]

lemma wrap_lines_simps [simp]:
  "wrap_lines [] line pos = (if line \<noteq> [] \<and> last line = CHR 0x5C then None else Some ([], [], line, pos))"
  "wrap_lines ((k, l) # sc) line pos = (if line \<noteq> [] \<and> last line = CHR 0x5C
     then do {
       (sc, emitted, line, pos) \<leftarrow> wrap_lines sc (if str_trim l = [] then butlast line else butlast line @ '' '' @ str_trim l) (pos + 1);
       Some (sc, l # emitted, line, pos)
     }
     else Some ((k, l) # sc, [], line, pos))"
  by (subst wrap_lines.simps, simp)+

text \<open>The lines of the input, and whether a separator follows.\<close>

fun read_input :: "(nat \<times> string) list \<Rightarrow> (nat \<times> string) list \<times> string list \<times> bool" where
  "read_input [] = ([], [], False)"
| "read_input ((_, line) # sc) =
     (if line = separator then (sc, [], True)
      else (case read_input sc of (sc, ls, sep) \<Rightarrow> (sc, line # ls, sep)))"

text \<open>The first line that is neither blank nor a comment, with its number and the lines skipped.\<close>

fun skip_comments :: "(nat \<times> string) list \<Rightarrow> (nat \<times> string) list \<times> string list \<times> (nat \<times> string) option" where
  "skip_comments [] = ([], [], None)"
| "skip_comments ((i, raw) # sc) =
     (let line = str_trim raw in
      if line = [] \<or> hd line = CHR 0x23
      then (case skip_comments sc of (sc, skipped, found) \<Rightarrow> (sc, raw # skipped, found))
      else (sc, [raw], Some (i, line)))"

definition emit_all :: "string list \<Rightarrow> TestDataReader \<Rightarrow> TestDataReader" where
  "emit_all = fold emit"

definition reader_next :: "TestDataReader \<Rightarrow> (TestDataReader \<times> (string + bool)) panics" where
  "reader_next r = (case skip_comments (rd_scanner r) of (sc, skipped, found) \<Rightarrow>
     let r = (emit_all skipped r)\<lparr>rd_scanner := sc\<rparr> in
     case found of
       None \<Rightarrow> Some (r, Inr False)
     | Some (i, line) \<Rightarrow> do {
         (sc, emitted, line, pos) \<leftarrow> wrap_lines sc line i;
         let r = (emit_all emitted r)\<lparr>rd_scanner := sc,
           rd_data := TestData_default\<lparr>td_pos := rd_source_name r @ '' : L'' @ show_nat (pos + 1)\<rparr>\<rparr>;
         case parse_line line of
           Inl e \<Rightarrow> Some (r, Inl e)
         | Inr (cmd, cmd_args) \<Rightarrow>
             if cmd = [] then Some (r, Inl ''cmd must not be empty'')
             else (case read_input (rd_scanner r) of (sc, ls, sep) \<Rightarrow>
               let r = (emit_all ls r)\<lparr>rd_scanner := sc, rd_data := (rd_data r)\<lparr>td_cmd := cmd, td_cmd_args := cmd_args,
                 td_input := str_trim (concat (map (\<lambda>l. l @ nl) ls))\<rparr>\<rparr>
               in do {
                 r \<leftarrow> (if sep then read_expected r else Some r);
                 Some (r, Inr True)
               })
       })"

subsection \<open>Running the directives (datadriven.rs)\<close>

definition blank_at :: "string \<Rightarrow> bool" where
  "blank_at s = (case dropWhile (\<lambda>c. c = CHR 0x09 \<or> c = CHR '' '') s of [] \<Rightarrow> False | c # _ \<Rightarrow> c = CHR 0x0A)"

fun blank_after_nl :: "string \<Rightarrow> bool" where
  "blank_after_nl [] = False"
| "blank_after_nl (c # cs) = (c = CHR 0x0A \<and> blank_at cs \<or> blank_after_nl cs)"

definition has_blank_line :: "string \<Rightarrow> bool" where
  "has_blank_line s = (blank_at s \<or> blank_after_nl s)"

definition end_line :: "string \<Rightarrow> string" where
  "end_line actual = (if actual \<noteq> [] \<and> last actual \<noteq> CHR 0x0A then actual @ nl else actual)"

definition push_str :: "string \<Rightarrow> TestDataReader \<Rightarrow> TestDataReader" where
  "push_str s r = r\<lparr>rd_rewrite_buffer := map_option (\<lambda>rb. rb @ s) (rd_rewrite_buffer r)\<rparr>"

text \<open>The function under test may have a state of its own.\<close>

definition run_directive :: "('a \<Rightarrow> TestData \<Rightarrow> string \<times> 'a) \<Rightarrow> TestDataReader \<times> 'a \<Rightarrow> (TestDataReader \<times> 'a) panics" where
  "run_directive f s = (case s of (r, a) \<Rightarrow>
     case f a (rd_data r) of (out, a) \<Rightarrow> do {
       let actual = end_line out;
       if rd_rewrite_buffer r = None
       then do { ensure (actual = td_expected (rd_data r)); Some (r, a) }
       else let r = emit separator r in
         Some (if has_blank_line actual
           then (emit [] (emit separator (emit separator (push_str actual (emit separator r)))), a)
           else (emit actual r, a))
     })"

definition strip_end :: "string \<Rightarrow> string" where
  "strip_end rb = (if 2 \<le> length rb \<and> drop (length rb - 2) rb = nl @ nl then butlast rb else rb)"

text \<open>The loop of the runner ends, because every directive takes at least one line from the file.\<close>

lemma rd_scanner_emit [simp]: "rd_scanner (emit s r) = rd_scanner r" "rd_scanner (push_str s r) = rd_scanner r"
  by (simp_all add: emit_def push_str_def)

lemma rd_scanner_emit_all [simp]: "rd_scanner (emit_all ls r) = rd_scanner r"
  unfolding emit_all_def by (induction ls arbitrary: r) simp_all

lemma skip_comments_length: "skip_comments sc = (sc', skipped, Some x) \<Longrightarrow> length sc' < length sc"
  by (induction sc arbitrary: sc' skipped) (auto simp: Let_def split: if_split_asm prod.split_asm intro: less_SucI)

lemma wrap_lines_length: "wrap_lines sc line pos = Some (sc', es, line', pos') \<Longrightarrow> length sc' \<le> length sc"
proof (induction sc arbitrary: line pos es)
  case (Cons x sc)
  then show ?case by (cases x) (auto elim!: bind_SomeE split: if_split_asm intro: le_SucI)
qed (auto split: if_split_asm)

lemma read_input_length: "read_input sc = (sc', ls, b) \<Longrightarrow> length sc' \<le> length sc"
  by (induction sc arbitrary: sc' ls) (auto split: if_split_asm prod.split_asm intro: le_SucI)

lemma expected_double_length: "expected_double sc e = Some (sc', e') \<Longrightarrow> length sc' \<le> length sc"
proof (induction sc e arbitrary: e' rule: expected_double.induct)
  case (2 k line sc e)
  show ?case
  proof (cases "line = separator")
    case False
    then show ?thesis using 2(2) [OF False] 2(3) by (auto intro: le_SucI)
  next
    case True
    then obtain j l sc1 where sc: "sc = (j, l) # sc1" using 2(3) by (cases sc) auto
    show ?thesis
    proof (cases "l = separator")
      case False
      then show ?thesis using 2(1) [OF True sc refl False, of e'] 2(3) True sc by auto
    next
      case l: True
      then show ?thesis using 2(3) True sc by (cases sc1) (auto elim!: bind_SomeE)
    qed
  qed
qed simp

lemma expected_single_length: "expected_single line sc e = (sc', e') \<Longrightarrow> length sc' \<le> length sc"
proof (induction sc arbitrary: line e)
  case (Cons x sc)
  then show ?case by (cases x) (auto split: if_split_asm intro: le_SucI)
qed (auto split: if_split_asm)

lemma read_expected_length: "read_expected r = Some r' \<Longrightarrow> length (rd_scanner r') \<le> length (rd_scanner r)"
  by (auto simp: read_expected_def elim!: bind_SomeE
      split: list.split_asm prod.split_asm if_split_asm
      dest: expected_double_length expected_single_length intro: le_SucI)

lemma reader_next_length:
  assumes "reader_next r = Some (r', Inr True)"
  shows "length (rd_scanner r') < length (rd_scanner r)"
proof -
  obtain sc skipped i line where s: "skip_comments (rd_scanner r) = (sc, skipped, Some (i, line))"
    using assms by (auto simp: reader_next_def Let_def split: prod.split_asm option.split_asm)
  obtain sc1 es line1 pos where w: "wrap_lines sc line i = Some (sc1, es, line1, pos)"
    using assms s by (auto simp: reader_next_def Let_def elim!: bind_SomeE)
  obtain sc2 ls b where ri: "read_input sc1 = (sc2, ls, b)" by (metis prod_cases3)
  have "length (rd_scanner r') \<le> length sc2"
    using assms s w ri by (auto simp: reader_next_def Let_def elim!: bind_SomeE split: sum.split_asm prod.split_asm if_split_asm
        dest!: read_expected_length)
  also have "\<dots> \<le> length sc1" by (rule read_input_length [OF ri])
  also have "\<dots> \<le> length sc" by (rule wrap_lines_length [OF w])
  also have "\<dots> < length (rd_scanner r)" by (rule skip_comments_length [OF s])
  finally show ?thesis .
qed

lemma run_directive_scanner: "run_directive f (r, a) = Some (r', a') \<Longrightarrow> rd_scanner r' = rd_scanner r"
  by (auto simp: run_directive_def Let_def elim!: bind_SomeE split: prod.split_asm if_split_asm)

function run_loop ::
  "('a \<Rightarrow> TestData \<Rightarrow> string \<times> 'a) \<Rightarrow> TestDataReader \<Rightarrow> 'a \<Rightarrow> (TestDataReader \<times> 'a \<times> (string + unit)) panics" where
  "run_loop f r a = (case reader_next r of
     None \<Rightarrow> None
   | Some (r, Inl e) \<Rightarrow> Some (r, a, Inl e)
   | Some (r, Inr found) \<Rightarrow>
       if found then (case run_directive f (r, a) of None \<Rightarrow> None | Some (r, a) \<Rightarrow> run_loop f r a)
       else Some (r, a, Inr ()))"
  by pat_completeness auto
termination
  by (relation "measure (\<lambda>(f, r, a). length (rd_scanner r))") (auto dest!: reader_next_length run_directive_scanner)

declare run_loop.simps [simp del]

definition run_test_internal ::
  "string \<Rightarrow> string \<Rightarrow> ('a \<Rightarrow> TestData \<Rightarrow> string \<times> 'a) \<Rightarrow> bool \<Rightarrow> 'a \<Rightarrow> ((string + string option) \<times> 'a) panics" where
  "run_test_internal source_name content f rewrite a = do {
     (r, a, res) \<leftarrow> run_loop f (TestDataReader_new source_name content rewrite) a;
     Some (case res of Inl e \<Rightarrow> Inl e | Inr _ \<Rightarrow> Inr (map_option strip_end (rd_rewrite_buffer r)), a)
   }"

subsection \<open>Printing and parsing directives\<close>

text \<open>The arguments that can be printed and read again: a single value has the characters that need no parentheses; the
  values of a list have no comma and no closing parenthesis, and no white space at their ends.\<close>

definition arg_ok :: "CmdArg \<Rightarrow> bool" where
  "arg_ok a \<longleftrightarrow> arg_key a \<noteq> [] \<and> list_all key_char (arg_key a) \<and>
     (case arg_vals a of
        [] \<Rightarrow> True
      | [v] \<Rightarrow> list_all val_char v
      | vs \<Rightarrow> list_all (\<lambda>v. CHR '','' \<notin> set v \<and> CHR '')'' \<notin> set v \<and> str_trim v = v) vs)"

lemma not_key_char [simp]: "\<not> key_char (CHR '' '')" "\<not> key_char (CHR ''='')" "\<not> val_char (CHR '' '')" "\<not> val_char (CHR ''('')"
  by (simp_all add: key_char_def val_char_def is_alnum_def Let_def)

lemma key_char_not_ws: "key_char c \<Longrightarrow> \<not> is_trim_ws c" "val_char c \<Longrightarrow> \<not> is_trim_ws c"
  by (auto simp: key_char_def val_char_def is_trim_ws_def is_alnum_def Let_def)

lemma takeWhile_all_append: "list_all P xs \<Longrightarrow> ys = [] \<or> \<not> P (hd ys) \<Longrightarrow> takeWhile P (xs @ ys) = xs \<and> dropWhile P (xs @ ys) = ys"
  by (cases ys) (auto simp: list_all_iff)

lemma takeWhile_all: "list_all P xs \<Longrightarrow> takeWhile P xs = xs \<and> dropWhile P xs = []"
  using takeWhile_all_append [of P xs "[]"] by simp

text \<open>A token is matched whole, before a blank and at the end of the line, and is not trimmed.\<close>

definition token :: "string \<Rightarrow> bool" where
  "token t \<longleftrightarrow> t \<noteq> [] \<and> \<not> is_trim_ws (hd t) \<and> \<not> is_trim_ws (last t) \<and> match_directive t = Some [] \<and>
     (\<forall>r. match_directive (t @ CHR '' '' # r) = Some r)"

lemma key_hd: "k \<noteq> [] \<Longrightarrow> list_all key_char k \<Longrightarrow> key_char (hd k) \<and> key_char (last k)"
  by (auto simp: list_all_iff)

lemma match_key:
  assumes "k \<noteq> []" "list_all key_char k" "r = [] \<or> \<not> key_char (hd r)"
  shows "match_directive (k @ r) = match_value r"
proof -
  have "hd k \<noteq> CHR '' ''" using key_hd [OF assms(1,2)] by auto
  then have "dropWhile (\<lambda>c. c = CHR '' '') (k @ r) = k @ r" using assms(1) by (cases k) auto
  then show ?thesis using takeWhile_all_append [OF assms(2,3)] assms(1) by (simp add: match_directive_def)
qed

lemma match_blank: "match_value [] = Some []" "match_value (CHR '' '' # r) = Some r"
  by (simp_all add: match_value_def blank_or_end_def)

lemma match_single:
  assumes "list_all val_char v"
  shows "match_value (CHR ''='' # v) = Some []" "match_value (CHR ''='' # v @ CHR '' '' # r) = Some r"
  using takeWhile_all_append [OF assms, of "CHR '' '' # r"]
  by (simp_all add: match_value_def blank_or_end_def takeWhile_all [OF assms])

lemma match_list:
  assumes "CHR '')'' \<notin> set w"
  shows "match_value (CHR ''='' # CHR ''('' # w @ [CHR '')'']) = Some []"
    "match_value (CHR ''='' # CHR ''('' # w @ CHR '')'' # CHR '' '' # r) = Some r"
proof -
  have w: "list_all (\<lambda>c. c \<noteq> CHR '')'') w" using assms by (induction w) auto
  show "match_value (CHR ''='' # CHR ''('' # w @ [CHR '')'']) = Some []"
    "match_value (CHR ''='' # CHR ''('' # w @ CHR '')'' # CHR '' '' # r) = Some r"
    using takeWhile_all_append [OF w, of "[CHR '')'']"] takeWhile_all_append [OF w, of "CHR '')'' # CHR '' '' # r"]
    by (simp_all add: match_value_def blank_or_end_def)
qed

lemma join_chars: "c \<notin> set d \<Longrightarrow> list_all (\<lambda>v. c \<notin> set v) vs \<Longrightarrow> c \<notin> set (join_with d vs)"
  by (induction d vs rule: join_with.induct) auto

lemma key_token: "k \<noteq> [] \<Longrightarrow> list_all key_char k \<Longrightarrow> token k"
  using match_key [of k "[]"] match_key [of k "CHR '' '' # _"] key_hd [of k]
  by (auto simp: token_def match_blank dest: key_char_not_ws)

lemma display_token:
  assumes "arg_ok a"
  shows "token (CmdArg_display a)"
proof -
  let ?k = "arg_key a"
  have k: "?k \<noteq> []" "list_all key_char ?k" using assms by (simp_all add: arg_ok_def)
  note hd = key_hd [OF k]
  consider (none) "arg_vals a = []" | (one) v where "arg_vals a = [v]" | (more) v1 v2 vs where "arg_vals a = v1 # v2 # vs"
    by (metis list.exhaust)
  then show ?thesis
  proof cases
    case none
    then show ?thesis using key_token [OF k] by (simp add: CmdArg_display_def)
  next
    case one
    then have v: "list_all val_char v" using assms by (simp add: arg_ok_def)
    then have "\<not> is_trim_ws (last (CHR ''='' # v))" by (cases v rule: rev_cases) (auto simp: is_trim_ws_def dest: key_char_not_ws(2))
    then show ?thesis
      using one k(1) hd match_key [OF k, of "CHR ''='' # v"] match_key [OF k, of "CHR ''='' # v @ CHR '' '' # _"] match_single [OF v]
      by (auto simp: token_def CmdArg_display_def dest: key_char_not_ws)
  next
    case more
    let ?w = "join_with '','' (v1 # v2 # vs)"
    have w: "CHR '')'' \<notin> set ?w" using assms more by (intro join_chars) (auto simp: arg_ok_def list_all_iff)
    show ?thesis
      using more k(1) hd match_key [OF k, of "CHR ''='' # CHR ''('' # ?w @ [CHR '')'']"]
        match_key [OF k, of "CHR ''='' # CHR ''('' # ?w @ CHR '')'' # CHR '' '' # _"] match_list [OF w]
      by (auto simp: token_def CmdArg_display_def is_trim_ws_def dest: key_char_not_ws simp del: join_with.simps)
  qed
qed

lemma trim_token:
  assumes "t \<noteq> []" "\<not> is_trim_ws (hd t)" "\<not> is_trim_ws (last t)"
  shows "str_trim t = t" "str_trim (t @ '' '') = t"
proof -
  obtain c s where t: "t = c # s" "\<not> is_trim_ws c" using assms by (cases t) auto
  have d: "rev t = last t # tl (rev t)" using assms(1) by (metis hd_rev list.collapse rev_is_Nil_conv)
  have "dropWhile is_trim_ws (rev t) = rev t" using assms(3) by (subst (1 2) d) simp
  then show "str_trim t = t" "str_trim (t @ '' '') = t"
    using t by (simp_all add: str_trim_def is_trim_ws_def)
qed

lemma split_tokens: "list_all token ts \<Longrightarrow> split_loop n (join_with '' '' ts) = Inr ts"
proof (induction ts rule: induct_list012)
  case 1
  show ?case by (subst split_loop.simps) simp
next
  case (2 t)
  then have "split_loop n t = Inr [t]"
    using trim_token [of t] by (subst split_loop.simps) (auto simp: token_def split_loop.simps [of n "[]"])
  then show ?case by simp
next
  case (3 t u ts)
  let ?r = "join_with '' '' (u # ts)"
  have r: "split_loop n ?r = Inr (u # ts)" using 3 by auto
  have "split_loop n (t @ CHR '' '' # ?r) = Inr (t # u # ts)"
    using 3(3) r trim_token [of t] by (subst split_loop.simps) (auto simp: token_def simp del: join_with.simps)
  then show ?case by simp
qed

lemma split_on_join:
  "vs \<noteq> [] \<Longrightarrow> list_all (\<lambda>v. d \<notin> set v) vs \<Longrightarrow> split_on d (join_with [d] vs) = vs"
proof (induction vs rule: induct_list012)
  case (2 v)
  have "d \<notin> set v \<Longrightarrow> split_on d v = [v]" by (induction v) auto
  then show ?case using 2 by simp
next
  case (3 v w vs)
  have "d \<notin> set v \<Longrightarrow> split_on d (v @ d # r) = v # split_on d r" for r by (induction v) auto
  then show ?case using 3 by (simp del: split_on.simps)
qed simp

lemma parse_display:
  assumes "arg_ok a"
  shows "parse_arg (CmdArg_display a) = a"
proof -
  let ?k = "arg_key a"
  have k: "list_all (\<lambda>c. c \<noteq> CHR ''='') ?k" using assms by (auto simp: arg_ok_def list_all_iff)
  consider (none) "arg_vals a = []" | (one) v where "arg_vals a = [v]" | (more) v1 v2 vs where "arg_vals a = v1 # v2 # vs"
    by (metis list.exhaust)
  then show ?thesis
  proof cases
    case none
    then show ?thesis by (simp add: CmdArg_display_def parse_arg_def takeWhile_all [OF k])
  next
    case one
    then have "list_all val_char v" using assms by (simp add: arg_ok_def)
    then have "v = [] \<or> hd v \<noteq> CHR ''(''" by (cases v) auto
    then show ?thesis
      using one takeWhile_all_append [OF k, of "CHR ''='' # v"] by (auto simp: CmdArg_display_def parse_arg_def)
  next
    case more
    let ?vs = "v1 # v2 # vs"
    have vs: "list_all (\<lambda>v. CHR '','' \<notin> set v) ?vs" "map str_trim ?vs = ?vs"
      using assms more by (auto simp: arg_ok_def list_all_iff intro: map_idI)
    show ?thesis
      using more takeWhile_all_append [OF k, of "CHR ''='' # CHR ''('' # join_with '','' ?vs @ [CHR '')'']"]
        split_on_join [OF _ vs(1)] vs(2)
      by (simp add: CmdArg_display_def parse_arg_def butlast_append del: join_with.simps)
  qed
qed

text \<open>C40: printing a directive and parsing the line gives the directive back, under these conditions: the command and the keys
  are not empty and consist of the characters that the pattern allows in a key; an argument has no value, or one value of
  characters that the pattern allows in a bare value (it may be empty), or two or more values, which may hold blanks and
  anything else but commas, closing parentheses and surrounding white space.  The condition on a single value is needed: the
  parser also accepts \<^verbatim>\<open>k=(x y)\<close>, one value with a blank, but prints it without the parentheses, and that line is read as
  two arguments.\<close>

theorem directive_roundtrip:
  assumes "cmd \<noteq> []" "list_all key_char cmd" "list_all arg_ok args"
  shows "parse_line (join_with '' '' (cmd # map CmdArg_display args)) = Inr (cmd, args)"
proof -
  have "list_all token (cmd # map CmdArg_display args)"
    using key_token [OF assms(1,2)] display_token assms(3) by (auto simp: list_all_iff)
  from split_tokens [OF this] have "split_directives (join_with '' '' (cmd # map CmdArg_display args)) =
      Inr (cmd # map CmdArg_display args)"
    by (simp add: split_directives_def del: join_with.simps)
  moreover have "map (parse_arg \<circ> CmdArg_display) args = args"
    using assms(3) parse_display by (auto simp: list_all_iff intro: map_idI)
  ultimately show ?thesis by (simp add: parse_line_def del: join_with.simps)
qed

theorem directive_roundtrip_witness:
  defines "args \<equiv> [\<lparr>arg_key = ''a'', arg_vals = [''1'']\<rparr>, \<lparr>arg_key = ''b'', arg_vals = [''2'', ''3 x'']\<rparr>,
    \<lparr>arg_key = ''c'', arg_vals = [[]]\<rparr>, \<lparr>arg_key = ''d'', arg_vals = []\<rparr>]"
  shows "join_with '' '' (''cmd'' # map CmdArg_display args) = ''cmd a=1 b=(2,3 x) c= d'' \<and>
    parse_line ''cmd a=1 b=(2,3 x) c= d'' = Inr (''cmd'', args)"
proof -
  have h: "list_all key_char ''cmd''" "list_all arg_ok args"
    "join_with '' '' (''cmd'' # map CmdArg_display args) = ''cmd a=1 b=(2,3 x) c= d''"
    unfolding args_def by code_simp+
  show ?thesis using directive_roundtrip [of "''cmd''" args] h by simp
qed

text \<open>A value that is not printed back.\<close>

lemma parenthesised_value_lost:
  defines "a \<equiv> \<lparr>arg_key = ''k'', arg_vals = [''x y'']\<rparr>"
  shows "parse_line ''cmd k=(x y)'' = Inr (''cmd'', [a])" "\<not> arg_ok a"
    "parse_line (join_with '' '' [''cmd'', CmdArg_display a]) =
      Inr (''cmd'', [\<lparr>arg_key = ''k'', arg_vals = [''x'']\<rparr>, \<lparr>arg_key = ''y'', arg_vals = []\<rparr>])"
  unfolding a_def by code_simp+

subsection \<open>Lines\<close>

definition unlines :: "string list \<Rightarrow> string" where
  "unlines ls = concat (map (\<lambda>l. l @ nl) ls)"

definition one_line :: "string \<Rightarrow> bool" where
  "one_line l \<longleftrightarrow> CHR 0x0A \<notin> set l \<and> CHR 0x0D \<notin> set l"

lemma unlines_simps [simp]: "unlines [] = []" "unlines (l # ls) = l @ nl @ unlines ls" "unlines (xs @ ys) = unlines xs @ unlines ys"
  by (simp_all add: unlines_def)

lemma lines_loop_line:
  assumes "CHR 0x0A \<notin> set l" "CHR 0x0D \<notin> set acc \<union> set l"
  shows "lines_loop acc (l @ CHR 0x0A # s) = (rev acc @ l) # lines_loop [] s"
  using assms
proof (induction l arbitrary: acc)
  case Nil
  then show ?case by (cases acc) auto
qed auto

lemma lines_unlines: "list_all one_line ls \<Longrightarrow> str_lines (unlines ls) = ls"
proof (induction ls)
  case (Cons l ls)
  then show ?case using lines_loop_line [of l "[]" "unlines ls"] by (simp add: str_lines_def one_line_def)
qed (simp add: str_lines_def)

lemma lines_loop_one_line:
  "CHR 0x0D \<notin> set acc \<union> set s \<Longrightarrow> CHR 0x0A \<notin> set acc \<Longrightarrow> list_all one_line (lines_loop acc s)"
  by (induction acc s rule: lines_loop.induct) (auto simp: one_line_def split: if_split_asm dest: list.set_sel(2) hd_in_set)

lemma lines_one_line: "CHR 0x0D \<notin> set s \<Longrightarrow> list_all one_line (str_lines s)"
  unfolding str_lines_def by (rule lines_loop_one_line) simp_all

lemma unlines_loop:
  "CHR 0x0D \<notin> set acc \<union> set s \<Longrightarrow> s = [] \<and> acc = [] \<or> s \<noteq> [] \<and> last s = CHR 0x0A \<Longrightarrow> unlines (lines_loop acc s) = rev acc @ s"
proof (induction acc s rule: lines_loop.induct)
  case (2 acc c cs)
  have hd: "\<not> (acc \<noteq> [] \<and> hd acc = CHR 0x0D)" using 2(3) by (auto dest: hd_in_set)
  show ?case
  proof (cases "c = CHR 0x0A")
    case True
    then have "unlines (lines_loop [] cs) = cs" using 2(1) [OF True] 2(3,4) by (cases cs) auto
    then show ?thesis using True hd by (auto split: if_split_asm)
  next
    case False
    then show ?thesis using 2(2) [OF False] 2(3,4) by (cases cs) auto
  qed
qed simp

lemma unlines_end_line:
  assumes "CHR 0x0D \<notin> set s"
  shows "unlines (str_lines (end_line s)) = end_line s"
  unfolding str_lines_def using unlines_loop [of "[]" "end_line s"] assms by (auto simp: end_line_def)

definition tab_or_blank :: "char \<Rightarrow> bool" where
  "tab_or_blank c \<longleftrightarrow> c = CHR 0x09 \<or> c = CHR '' ''"

lemma blank_at_line:
  "CHR 0x0A \<notin> set l \<Longrightarrow> blank_at (l @ CHR 0x0A # s) = list_all tab_or_blank l"
  by (induction l) (auto simp: blank_at_def tab_or_blank_def)

lemma blank_after_line: "CHR 0x0A \<notin> set l \<Longrightarrow> blank_after_nl (l @ CHR 0x0A # s) = (blank_at s \<or> blank_after_nl s)"
  by (induction l) auto

lemma has_blank_unlines: "list_all one_line ls \<Longrightarrow> has_blank_line (unlines ls) = list_ex (list_all tab_or_blank) ls"
proof (induction ls)
  case (Cons l ls)
  then show ?case using blank_at_line [of l] blank_after_line [of l] by (simp add: has_blank_line_def one_line_def)
qed (simp add: has_blank_line_def blank_at_def)

lemma str_trim_Nil: "str_trim s = [] \<longleftrightarrow> list_all is_trim_ws s"
proof -
  have "(\<forall>c \<in> set (dropWhile is_trim_ws s). is_trim_ws c) \<longleftrightarrow> (\<forall>c \<in> set s. is_trim_ws c)"
    by (induction s) auto
  then show ?thesis by (simp add: str_trim_def list_all_iff)
qed

subsection \<open>What is written is read back\<close>

text \<open>The parts of a directive depend on the text of the lines only, not on their numbers or on what follows.\<close>

lemma skip_comments_replay:
  assumes "skip_comments sc = (sc1, skipped, Some (i, line))"
  shows "map snd sc = skipped @ map snd sc1 \<and> (map snd sc' = skipped @ T \<longrightarrow>
    (\<exists>sc1' i'. skip_comments sc' = (sc1', skipped, Some (i', line)) \<and> map snd sc1' = T))"
  using assms
proof (induction sc arbitrary: skipped sc')
  case (Cons x sc)
  obtain k raw where x: "x = (k, raw)" by fastforce
  show ?case
  proof (cases "str_trim raw = [] \<or> hd (str_trim raw) = CHR 0x23")
    case True
    then obtain s1 where s1: "skip_comments sc = (sc1, s1, Some (i, line))" "skipped = raw # s1"
      using Cons.prems x by (auto simp: Let_def split: prod.split_asm)
    show ?thesis
      using Cons.IH [OF s1(1), of "tl sc'"] s1(2) x True by (cases sc') (auto simp: Let_def split: prod.split)
  next
    case False
    then show ?thesis using Cons.prems x by (cases sc') (auto simp: Let_def)
  qed
qed simp

lemma skip_comments_end:
  "skip_comments sc = (sc1, skipped, None) \<Longrightarrow> sc1 = [] \<and> map snd sc = skipped \<and>
    (set (map snd sc') \<subseteq> set skipped \<longrightarrow> skip_comments sc' = ([], map snd sc', None))"
proof -
  assume "skip_comments sc = (sc1, skipped, None)"
  then have "sc1 = [] \<and> map snd sc = skipped \<and> list_all (\<lambda>l. str_trim l = [] \<or> hd (str_trim l) = CHR 0x23) skipped"
    by (induction sc arbitrary: skipped) (auto simp: Let_def list.pred_map comp_def split: if_split_asm prod.split_asm)
  moreover have "list_all (\<lambda>l. str_trim l = [] \<or> hd (str_trim l) = CHR 0x23) (map snd sc') \<Longrightarrow>
      skip_comments sc' = ([], map snd sc', None)"
    by (induction sc') (auto simp: Let_def)
  moreover have "list_all P (map snd sc')" if "list_all P skipped" "set (map snd sc') \<subseteq> set skipped" for P
    using that unfolding list_all_iff by blast
  ultimately show ?thesis by blast
qed

lemma wrap_lines_replay:
  assumes "wrap_lines sc line pos = Some (sc1, es, line1, p)"
  shows "map snd sc = es @ map snd sc1 \<and> (map snd sc' = es @ T \<longrightarrow>
    (\<exists>sc1' p'. wrap_lines sc' line pos' = Some (sc1', es, line1, p') \<and> map snd sc1' = T))"
  using assms
proof (induction sc arbitrary: line pos es sc' pos')
  case Nil
  then show ?case by (cases sc') (auto split: if_split_asm)
next
  case (Cons x sc)
  obtain k l where x: "x = (k, l)" by fastforce
  show ?case
  proof (cases "line \<noteq> [] \<and> last line = CHR 0x5C")
    case True
    let ?line = "if str_trim l = [] then butlast line else butlast line @ '' '' @ str_trim l"
    obtain e1 where e1: "wrap_lines sc ?line (pos + 1) = Some (sc1, e1, line1, p)" "es = l # e1"
      using Cons.prems x True by (auto elim!: bind_SomeE)
    have wrapped: "wrap_lines ((k', l) # sc2) line pos' = do {
        (sc3, emitted, line3, p3) \<leftarrow> wrap_lines sc2 ?line (pos' + 1); Some (sc3, l # emitted, line3, p3) }" for k' sc2
      using True by (simp del: butlast.simps)
    show ?thesis
    proof (intro conjI impI)
      show "map snd (x # sc) = es @ map snd sc1" using Cons.IH [OF e1(1)] x e1(2) by simp
      assume "map snd sc' = es @ T"
      then obtain k' sc2 where sc': "sc' = (k', l) # sc2" "map snd sc2 = e1 @ T" using e1(2) by (cases sc') auto
      then obtain sc3 p' where "wrap_lines sc2 ?line (pos' + 1) = Some (sc3, e1, line1, p')" "map snd sc3 = T"
        using Cons.IH [OF e1(1), of sc2 "pos' + 1"] by blast
      then show "\<exists>sc1' p'. wrap_lines sc' line pos' = Some (sc1', es, line1, p') \<and> map snd sc1' = T"
        unfolding sc'(1) wrapped e1(2) by simp
    qed
  next
    case False
    then have "wrap_lines sc' line pos' = Some (sc', [], line, pos')" for sc' pos' by (cases sc') auto
    then show ?thesis using Cons.prems by auto
  qed
qed

lemma read_input_replay:
  assumes "read_input sc = (sc1, ls, sep)"
  shows "separator \<notin> set ls \<and> set ls \<union> set (map snd sc1) \<subseteq> set (map snd sc) \<and> (map snd sc' = ls @ separator # T \<longrightarrow>
    (\<exists>sc1'. read_input sc' = (sc1', ls, True) \<and> map snd sc1' = T))"
  using assms
proof (induction sc arbitrary: ls sc')
  case Nil
  then show ?case by (cases sc') auto
next
  case (Cons x sc)
  obtain k l where x: "x = (k, l)" by fastforce
  show ?case
  proof (cases "l = separator")
    case True
    then show ?thesis using Cons.prems x by (cases sc') auto
  next
    case False
    then obtain l1 where l1: "read_input sc = (sc1, l1, sep)" "ls = l # l1" using Cons.prems x by (auto split: prod.split_asm)
    show ?thesis using Cons.IH [OF l1(1), of "tl sc'"] l1(2) x False by (cases sc') (auto split: prod.split)
  qed
qed

text \<open>The expected output: the lines up to a blank one or the end of the file, or those between double separators.\<close>

lemma expected_single_replay:
  "list_all (\<lambda>l. str_trim l \<noteq> []) (l # A) \<Longrightarrow> map snd sc = A @ R \<Longrightarrow> R = [] \<or> hd R = [] \<Longrightarrow>
    \<exists>sc1. expected_single l sc e = (sc1, e @ unlines (l # A)) \<and> map snd sc1 = tl R"
proof (induction A arbitrary: l sc e)
  case Nil
  then show ?case by (cases sc) (auto simp: str_trim_Nil expected_single.simps [of "[]"])
next
  case (Cons a A)
  then obtain k sc2 where sc: "sc = (k, a) # sc2" "map snd sc2 = A @ R" by (cases sc) auto
  from Cons.IH [OF _ sc(2) Cons.prems(3), of a "e @ l @ nl"] Cons.prems(1) sc(1) show ?case by auto
qed

lemma expected_double_replay:
  "separator \<notin> set A \<Longrightarrow> map snd sc = A @ [separator, separator] @ R \<Longrightarrow> R = [] \<or> hd R = [] \<Longrightarrow>
    \<exists>sc1. expected_double sc e = Some (sc1, e @ unlines A) \<and> map snd sc1 = tl R"
proof (induction A arbitrary: sc e)
  case Nil
  then obtain k1 k2 sc2 where sc: "sc = (k1, separator) # (k2, separator) # sc2" "map snd sc2 = R"
    by (cases sc; cases "tl sc") auto
  then show ?case using Nil(3) by (cases sc2) (auto simp: ensure_def)
next
  case (Cons a A)
  then obtain k sc2 where sc: "sc = (k, a) # sc2" "map snd sc2 = A @ [separator, separator] @ R" by (cases sc) auto
  from Cons.IH [OF _ sc(2) Cons.prems(3), of "e @ a @ nl"] Cons.prems(1) sc(1) show ?case by auto
qed

text \<open>What a directive writes after its separator, and that it is read back.\<close>

definition output_block :: "string list \<Rightarrow> string list" where
  "output_block A = (if list_ex (list_all tab_or_blank) A then separator # A @ [separator, separator, []] else A @ [[]])"

definition clean :: "string \<Rightarrow> bool" where
  "clean out \<longleftrightarrow> set out \<inter> {CHR 0x0B, CHR 0x0C, CHR 0x0D} = {} \<and> separator \<notin> set (str_lines (end_line out))"

lemma read_expected_block:
  assumes "separator \<notin> set A" "list_all (\<lambda>l. list_all is_trim_ws l = list_all tab_or_blank l) A" "td_expected (rd_data q) = []"
    and "map snd (rd_scanner q) = output_block A @ R \<or> R = [] \<and> map snd (rd_scanner q) = butlast (output_block A)"
  shows "\<exists>sc1. read_expected q = Some (q\<lparr>rd_scanner := sc1, rd_data := (rd_data q)\<lparr>td_expected := unlines A\<rparr>\<rparr>) \<and> map snd sc1 = R"
proof (cases "list_ex (list_all tab_or_blank) A")
  case True
  define R' where "R' = (if map snd (rd_scanner q) = output_block A @ R then [] # R else [])"
  have q: "map snd (rd_scanner q) = separator # A @ [separator, separator] @ R'" "R' = [] \<or> hd R' = []" "tl R' = R"
    using assms(4) True by (auto simp: R'_def output_block_def butlast_append)
  then obtain k sc where sc: "rd_scanner q = (k, separator) # sc" "map snd sc = A @ [separator, separator] @ R'"
    by (cases "rd_scanner q") auto
  from expected_double_replay [OF assms(1) sc(2) q(2), of "[]"] sc(1) q(3) assms(3) show ?thesis
    by (auto simp: read_expected_def)
next
  case False
  define R' where "R' = (if map snd (rd_scanner q) = output_block A @ R then [] # R else [])"
  have q: "map snd (rd_scanner q) = A @ R'" "R' = [] \<or> hd R' = []" "tl R' = R"
    using assms(4) False by (auto simp: R'_def output_block_def)
  have A: "list_all (\<lambda>l. str_trim l \<noteq> []) A" using False assms(2) unfolding str_trim_Nil list_all_iff list_ex_iff by blast
  show ?thesis
  proof (cases A)
    case Nil
    then show ?thesis
      using q assms(3) by (cases "rd_scanner q") (auto simp: read_expected_def separator_def str_trim_Nil expected_single.simps [of "[]"])
  next
    case (Cons l A1)
    then obtain k sc where sc: "rd_scanner q = (k, l) # sc" "map snd sc = A1 @ R'" using q(1) by (cases "rd_scanner q") auto
    from expected_single_replay [OF A [unfolded Cons] sc(2) q(2), of "[]"] sc(1) q(3) assms(1,3) Cons show ?thesis
      by (auto simp: read_expected_def)
  qed
qed

lemma emit_all_eq: "emit_all ls r = r\<lparr>rd_rewrite_buffer := map_option (\<lambda>rb. rb @ unlines ls) (rd_rewrite_buffer r)\<rparr>"
  unfolding emit_all_def by (induction ls arbitrary: r) (simp_all add: emit_def option.map_comp comp_def option.map_ident)

text \<open>The reader once the parts of a directive are known.\<close>

definition read_directive :: "TestDataReader \<Rightarrow> (nat \<times> string) list \<Rightarrow> string list \<Rightarrow> nat \<Rightarrow> string \<Rightarrow> CmdArg list \<Rightarrow> string list \<Rightarrow> TestDataReader" where
  "read_directive r sc H p cmd args ls = r\<lparr>rd_rewrite_buffer := map_option (\<lambda>rb. rb @ unlines H) (rd_rewrite_buffer r),
     rd_scanner := sc, rd_data := \<lparr>td_pos = rd_source_name r @ '' : L'' @ show_nat (p + 1), td_cmd = cmd, td_cmd_args = args,
       td_input = str_trim (unlines ls), td_expected = []\<rparr>\<rparr>"

lemma reader_next_parts:
  assumes "skip_comments (rd_scanner r) = (sc, skipped, Some (i, line))" "wrap_lines sc line i = Some (sc1, es, line1, p)"
    and "parse_line line1 = Inr (cmd, args)" "cmd \<noteq> []" "read_input sc1 = (sc2, ls, sep)"
  shows "reader_next r = do {
      r \<leftarrow> (if sep then read_expected (read_directive r sc2 (skipped @ es @ ls) p cmd args ls)
           else Some (read_directive r sc2 (skipped @ es @ ls) p cmd args ls));
      Some (r, Inr True) }"
  using assms
  by (simp add: reader_next_def read_directive_def emit_all_eq TestData_default_def option.map_comp comp_def unlines_def)

lemma reader_next_found:
  assumes "reader_next r = Some (r', Inr True)"
  obtains sc skipped i line sc1 es line1 p cmd args sc2 ls sep where
    "skip_comments (rd_scanner r) = (sc, skipped, Some (i, line))" "wrap_lines sc line i = Some (sc1, es, line1, p)"
    "parse_line line1 = Inr (cmd, args)" "cmd \<noteq> []" "read_input sc1 = (sc2, ls, sep)"
proof -
  obtain sc skipped found where s: "skip_comments (rd_scanner r) = (sc, skipped, found)" by (metis prod_cases3)
  then obtain i line where f: "found = Some (i, line)" using assms by (auto simp: reader_next_def Let_def split: option.split_asm)
  obtain sc1 es line1 p where w: "wrap_lines sc line i = Some (sc1, es, line1, p)"
    using assms s f by (auto simp: reader_next_def Let_def elim!: bind_SomeE)
  obtain cmd args where c: "parse_line line1 = Inr (cmd, args)" "cmd \<noteq> []"
    using assms s f w by (auto simp: reader_next_def Let_def split: sum.split_asm prod.split_asm if_split_asm)
  obtain sc2 ls sep where "read_input sc1 = (sc2, ls, sep)" by (metis prod_cases3)
  with s f w c that show ?thesis by blast
qed

definition same_data :: "TestData \<Rightarrow> TestData \<Rightarrow> bool" where
  "same_data d d' \<longleftrightarrow> (\<exists>pos expected. d' = d\<lparr>td_pos := pos, td_expected := expected\<rparr>)"

lemma same_data_refl: "same_data d d"
  unfolding same_data_def by (rule exI [of _ "td_pos d"], rule exI [of _ "td_expected d"]) simp

lemma read_expected_frame:
  "read_expected r = Some r' \<Longrightarrow> rd_rewrite_buffer r' = rd_rewrite_buffer r \<and> same_data (rd_data r) (rd_data r') \<and>
    set (rd_scanner r') \<subseteq> set (rd_scanner r)"
proof -
  have double: "set sc' \<subseteq> set sc" if "expected_double sc e = Some (sc', e')" for sc sc' e e'
    using that
  proof (induction sc e arbitrary: e' rule: expected_double.induct)
    case (2 k line sc e)
    show ?case
    proof (cases "line = separator")
      case False
      then show ?thesis using 2(2) [OF False] 2(3) by auto
    next
      case True
      then obtain j l sc1 where sc: "sc = (j, l) # sc1" using 2(3) by (cases sc) auto
      show ?thesis
        using 2(1) [OF True sc refl] 2(3) True sc by (cases "l = separator"; cases sc1) (auto elim!: bind_SomeE)
    qed
  qed simp
  have single: "set sc' \<subseteq> set sc" if "expected_single line sc e = (sc', e')" for line sc sc' e e'
    using that
  proof (induction sc arbitrary: line e)
    case (Cons x sc)
    then show ?case by (cases x) (auto split: if_split_asm)
  qed (auto split: if_split_asm)
  assume r': "read_expected r = Some r'"
  obtain sc e where sc: "r' = r\<lparr>rd_scanner := sc, rd_data := (rd_data r)\<lparr>td_expected := e\<rparr>\<rparr>"
    "(case rd_scanner r of
         [] \<Rightarrow> Some (expected_single [] [] (td_expected (rd_data r)))
       | (_, l) # sc \<Rightarrow>
           if l = separator then expected_double sc (td_expected (rd_data r))
           else Some (expected_single l sc (td_expected (rd_data r)))) = Some (sc, e)"
    using r' unfolding read_expected_def by (elim bind_SomeE) auto
  have r'': "r' = r\<lparr>rd_scanner := sc, rd_data := (rd_data r)\<lparr>td_expected := e\<rparr>\<rparr>" "set sc \<subseteq> set (rd_scanner r)"
  proof -
    show "set sc \<subseteq> set (rd_scanner r)"
    proof (cases "rd_scanner r")
      case Nil
      then show ?thesis using sc(2) single [of "[]" "[]"] by (auto split: if_split_asm)
    next
      case (Cons x sc0)
      obtain k l where x: "x = (k, l)" by fastforce
      show ?thesis
        using sc(2) double [of sc0 _ sc e] single [of l sc0 _ sc e] Cons x by (cases "l = separator") auto
    qed
  qed (rule sc(1))
  have "same_data (rd_data r) (rd_data r')"
    unfolding r''(1) same_data_def by (rule exI [of _ "td_pos (rd_data r)"], rule exI [of _ e]) simp
  with r'' show ?thesis by simp
qed

text \<open>A directive that was read in rewrite mode is read again from what was written of it, with the output \<open>A\<close>.\<close>

definition output_lines :: "string list \<Rightarrow> bool" where
  "output_lines A \<longleftrightarrow> separator \<notin> set A \<and> list_all (\<lambda>l. list_all is_trim_ws l = list_all tab_or_blank l) A"

lemma next_replay:
  assumes "reader_next r = Some (r', Inr True)" "rd_rewrite_buffer r = Some rb"
  obtains H where "rd_rewrite_buffer r' = Some (rb @ unlines H)" "set H \<union> snd ` set (rd_scanner r') \<subseteq> snd ` set (rd_scanner r)"
    "\<And>q A R. rd_rewrite_buffer q = None \<Longrightarrow> output_lines A \<Longrightarrow>
      map snd (rd_scanner q) = H @ separator # output_block A @ R \<or>
        R = [] \<and> map snd (rd_scanner q) = H @ separator # butlast (output_block A) \<Longrightarrow>
      \<exists>q'. reader_next q = Some (q', Inr True) \<and> rd_rewrite_buffer q' = None \<and> map snd (rd_scanner q') = R \<and>
        same_data (rd_data r') (rd_data q') \<and> td_expected (rd_data q') = unlines A"
proof -
  obtain sc skipped i line sc1 es line1 p cmd args sc2 ls sep where s: "skip_comments (rd_scanner r) = (sc, skipped, Some (i, line))"
    and w: "wrap_lines sc line i = Some (sc1, es, line1, p)" and c: "parse_line line1 = Inr (cmd, args)" "cmd \<noteq> []"
    and ri: "read_input sc1 = (sc2, ls, sep)"
    by (rule reader_next_found [OF assms(1)])
  let ?H = "skipped @ es @ ls" and ?r = "read_directive r sc2 (skipped @ es @ ls) p cmd args ls"
  have r': "(if sep then read_expected ?r else Some ?r) = Some r'"
    using assms(1) unfolding reader_next_parts [OF s w c ri] by (auto elim!: bind_SomeE)
  have frame: "rd_rewrite_buffer r' = rd_rewrite_buffer ?r \<and> same_data (rd_data ?r) (rd_data r') \<and> set (rd_scanner r') \<subseteq> set (rd_scanner ?r)"
    using r' read_expected_frame [of ?r r'] same_data_refl by (cases sep) auto
  show thesis
  proof (rule that [of ?H])
    show "rd_rewrite_buffer r' = Some (rb @ unlines ?H)" using frame assms(2) by (simp add: read_directive_def)
    have "snd ` set (rd_scanner r) = set skipped \<union> set es \<union> snd ` set sc1"
      using skip_comments_replay [OF s] wrap_lines_replay [OF w] by (metis set_append set_map Un_assoc)
    moreover have "snd ` set (rd_scanner r') \<subseteq> snd ` set sc2" using frame by (auto simp: read_directive_def)
    moreover have "set ls \<union> snd ` set sc2 \<subseteq> snd ` set sc1" using read_input_replay [OF ri] by simp
    moreover have "A \<union> (B \<union> F) \<union> D \<subseteq> S" if "S = A \<union> B \<union> C" "D \<subseteq> G" "F \<union> G \<subseteq> C" for A B C D F G S :: "string set"
      using that by blast
    ultimately show "set ?H \<union> snd ` set (rd_scanner r') \<subseteq> snd ` set (rd_scanner r)"
      unfolding set_append by metis
  next
    fix q :: TestDataReader and A R
    assume q: "rd_rewrite_buffer q = None" and A: "output_lines A"
      and sc': "map snd (rd_scanner q) = ?H @ separator # output_block A @ R \<or>
        R = [] \<and> map snd (rd_scanner q) = ?H @ separator # butlast (output_block A)"
    then obtain X where X: "map snd (rd_scanner q) = skipped @ es @ ls @ separator # X"
      "X = output_block A @ R \<or> R = [] \<and> X = butlast (output_block A)" by auto
    obtain a1 i' where s': "skip_comments (rd_scanner q) = (a1, skipped, Some (i', line))" "map snd a1 = es @ ls @ separator # X"
      using skip_comments_replay [OF s, of "rd_scanner q"] X(1) by blast
    obtain a2 p' where w': "wrap_lines a1 line i' = Some (a2, es, line1, p')" "map snd a2 = ls @ separator # X"
      using wrap_lines_replay [OF w, of a1] s'(2) by blast
    obtain a3 where ri': "read_input a2 = (a3, ls, True)" "map snd a3 = X"
      using read_input_replay [OF ri, of a2] w'(2) by blast
    let ?q = "read_directive q a3 ?H p' cmd args ls"
    obtain a4 where e: "read_expected ?q = Some (?q\<lparr>rd_scanner := a4, rd_data := (rd_data ?q)\<lparr>td_expected := unlines A\<rparr>\<rparr>)" "map snd a4 = R"
      using read_expected_block [of A ?q R] A X(2) ri'(2) by (auto simp: output_lines_def read_directive_def)
    have "same_data (rd_data r') (rd_data (?q\<lparr>rd_scanner := a4, rd_data := (rd_data ?q)\<lparr>td_expected := unlines A\<rparr>\<rparr>))"
      using frame by (auto simp: same_data_def read_directive_def)
    then show "\<exists>q'. reader_next q = Some (q', Inr True) \<and> rd_rewrite_buffer q' = None \<and> map snd (rd_scanner q') = R \<and>
        same_data (rd_data r') (rd_data q') \<and> td_expected (rd_data q') = unlines A"
      unfolding reader_next_parts [OF s'(1) w'(1) c ri'(1)] using e q by (auto simp: read_directive_def)
  qed
qed

subsection \<open>Rewriting a test file\<close>

text \<open>The lines \<open>M\<close>, with or without a blank line at their end, are a test file that passes.\<close>

definition replays :: "('a \<Rightarrow> TestData \<Rightarrow> string \<times> 'a) \<Rightarrow> string list \<Rightarrow> 'a \<Rightarrow> 'a \<Rightarrow> bool" where
  "replays f M a b \<longleftrightarrow> (\<forall>q. rd_rewrite_buffer q = None \<longrightarrow>
     map snd (rd_scanner q) = M \<or> M \<noteq> [] \<and> last M = [] \<and> map snd (rd_scanner q) = butlast M \<longrightarrow>
     (\<exists>q'. run_loop f q a = Some (q', b, Inr ()) \<and> rd_rewrite_buffer q' = None))"

text \<open>A function under test that does not look at the position and the expected output, and whose output is clean.\<close>

definition testable :: "('a \<Rightarrow> TestData \<Rightarrow> string \<times> 'a) \<Rightarrow> bool" where
  "testable f \<longleftrightarrow> (\<forall>a d d'. same_data d d' \<longrightarrow> f a d' = f a d) \<and> (\<forall>a d. clean (fst (f a d)))"

lemma trim_ws_chars: "is_trim_ws c \<longleftrightarrow> c \<in> {CHR 0x09, CHR 0x0A, CHR 0x0B, CHR 0x0C, CHR 0x0D, CHR '' ''}"
proof -
  have n: "9 = (of_char (CHR 0x09) :: nat)" "10 = (of_char (CHR 0x0A) :: nat)" "11 = (of_char (CHR 0x0B) :: nat)"
    "12 = (of_char (CHR 0x0C) :: nat)" "13 = (of_char (CHR 0x0D) :: nat)" "32 = (of_char (CHR '' '') :: nat)"
    by simp_all
  show ?thesis unfolding is_trim_ws_def n insert_iff empty_iff of_char_eq_iff by blast
qed

lemma clean_lines:
  assumes "clean out"
  defines "A \<equiv> str_lines (end_line out)"
  shows "unlines A = end_line out" "list_all one_line A" "output_lines A" "has_blank_line (end_line out) = list_ex (list_all tab_or_blank) A"
proof -
  have cr: "CHR 0x0D \<notin> set out" "CHR 0x0D \<notin> set (end_line out)" using assms(1) by (auto simp: clean_def end_line_def)
  show u: "unlines A = end_line out" unfolding A_def by (rule unlines_end_line [OF cr(1)])
  show one: "list_all one_line A" unfolding A_def by (rule lines_one_line [OF cr(2)])
  show "has_blank_line (end_line out) = list_ex (list_all tab_or_blank) A" using has_blank_unlines [OF one] u by simp
  have chars: "c \<notin> {CHR 0x0B, CHR 0x0C}" if "l \<in> set A" "c \<in> set l" for l c
  proof -
    have "c \<in> set (unlines A)" using that by (auto simp: unlines_def)
    then show ?thesis using u assms(1) by (auto simp: clean_def end_line_def split: if_split_asm)
  qed
  have "is_trim_ws c = tab_or_blank c" if "l \<in> set A" "c \<in> set l" for l c
  proof -
    have "c \<noteq> CHR 0x0A" "c \<noteq> CHR 0x0D" "c \<noteq> CHR 0x0B" "c \<noteq> CHR 0x0C"
      using chars [OF that] one that by (auto simp: list_all_iff one_line_def)
    then show ?thesis by (simp add: trim_ws_chars tab_or_blank_def)
  qed
  then have "list_all is_trim_ws l = list_all tab_or_blank l" if "l \<in> set A" for l using that by (auto simp: list_all_iff)
  moreover have "separator \<notin> set A" using assms(1) by (simp add: clean_def A_def)
  ultimately show "output_lines A" by (simp add: output_lines_def list_all_iff)
qed

lemma run_directive_rewrite:
  assumes "run_directive f (r, a) = Some (r1, a1)" "rd_rewrite_buffer r = Some rb" "testable f"
  obtains A where "rd_rewrite_buffer r1 = Some (rb @ unlines (separator # output_block A))" "list_all one_line A" "output_lines A"
    "\<And>q. rd_rewrite_buffer q = None \<Longrightarrow> same_data (rd_data r) (rd_data q) \<Longrightarrow> td_expected (rd_data q) = unlines A \<Longrightarrow>
      run_directive f (q, a) = Some (q, a1)"
proof -
  obtain out where f: "f a (rd_data r) = (out, a1)"
    using assms(1,2) by (cases "f a (rd_data r)") (auto simp: run_directive_def Let_def split: if_split_asm)
  have c: "clean out" using assms(3) f unfolding testable_def by (metis fst_conv)
  note A = clean_lines [OF c]
  show thesis
  proof (rule that [of "str_lines (end_line out)"])
    show "rd_rewrite_buffer r1 = Some (rb @ unlines (separator # output_block (str_lines (end_line out))))"
      using assms(1,2) f A(1,4) by (auto simp: run_directive_def Let_def emit_def push_str_def output_block_def split: if_split_asm)
    show "run_directive f (q, a) = Some (q, a1)"
      if "rd_rewrite_buffer q = None" "same_data (rd_data r) (rd_data q)" "td_expected (rd_data q) = unlines (str_lines (end_line out))" for q
      using that assms(3) f A(1) by (simp add: run_directive_def testable_def ensure_def)
  qed (rule A)+
qed

lemma reader_next_end:
  assumes "reader_next r = Some (r1, Inr False)"
  shows "\<exists>skipped. skip_comments (rd_scanner r) = ([], skipped, None) \<and> map snd (rd_scanner r) = skipped \<and>
    rd_rewrite_buffer r1 = map_option (\<lambda>rb. rb @ unlines skipped) (rd_rewrite_buffer r)"
proof -
  obtain sc skipped found where s: "skip_comments (rd_scanner r) = (sc, skipped, found)" by (metis prod_cases3)
  then have n: "found = None"
    using assms by (auto simp: reader_next_def Let_def elim!: bind_SomeE split: option.split_asm sum.split_asm prod.split_asm if_split_asm)
  then have "sc = [] \<and> map snd (rd_scanner r) = skipped" using skip_comments_end [OF s [unfolded n]] by blast
  moreover have "rd_rewrite_buffer r1 = map_option (\<lambda>rb. rb @ unlines skipped) (rd_rewrite_buffer r)"
    using assms s n by (auto simp: reader_next_def emit_all_eq)
  ultimately show ?thesis using s n by blast
qed

lemma replays_directive:
  assumes read: "\<And>q A R. rd_rewrite_buffer q = None \<Longrightarrow> output_lines A \<Longrightarrow>
      map snd (rd_scanner q) = H @ separator # output_block A @ R \<or>
        R = [] \<and> map snd (rd_scanner q) = H @ separator # butlast (output_block A) \<Longrightarrow>
      \<exists>q'. reader_next q = Some (q', Inr True) \<and> rd_rewrite_buffer q' = None \<and> map snd (rd_scanner q') = R \<and>
        same_data d (rd_data q') \<and> td_expected (rd_data q') = unlines A"
    and run: "\<And>q. rd_rewrite_buffer q = None \<Longrightarrow> same_data d (rd_data q) \<Longrightarrow> td_expected (rd_data q) = unlines A \<Longrightarrow>
      run_directive f (q, a) = Some (q, a2)"
    and "output_lines A" "replays f M a2 b"
  shows "replays f (H @ separator # output_block A @ M) a b"
  unfolding replays_def
proof (intro allI impI)
  fix q :: TestDataReader
  let ?M = "H @ separator # output_block A @ M"
  assume q: "rd_rewrite_buffer q = None"
    and sc: "map snd (rd_scanner q) = ?M \<or> ?M \<noteq> [] \<and> last ?M = [] \<and> map snd (rd_scanner q) = butlast ?M"
  have ob: "output_block A \<noteq> []" "last (output_block A) = []" by (simp_all add: output_block_def)
  obtain R where R: "map snd (rd_scanner q) = H @ separator # output_block A @ R \<or>
      R = [] \<and> map snd (rd_scanner q) = H @ separator # butlast (output_block A)"
    "R = M \<or> M \<noteq> [] \<and> last M = [] \<and> R = butlast M"
  proof (cases "map snd (rd_scanner q) = ?M")
    case True
    then show ?thesis using that by blast
  next
    case False
    then show ?thesis using sc ob that [of "butlast M"] by (cases "M = []") (auto simp: butlast_append)
  qed
  from read [OF q assms(3) R(1)] obtain q1 where q1: "reader_next q = Some (q1, Inr True)" "rd_rewrite_buffer q1 = None"
      "map snd (rd_scanner q1) = R" "same_data d (rd_data q1)" "td_expected (rd_data q1) = unlines A" by blast
  from assms(4) q1(2,3) R(2) obtain q' where "run_loop f q1 a2 = Some (q', b, Inr ())" "rd_rewrite_buffer q' = None"
    unfolding replays_def by blast
  with q1(1) run [OF q1(2,4,5)] show "\<exists>q'. run_loop f q a = Some (q', b, Inr ()) \<and> rd_rewrite_buffer q' = None"
    by (subst run_loop.simps) simp
qed

lemma run_rewrite:
  assumes "run_loop f r a = Some (r', b, Inr ())" "rd_rewrite_buffer r = Some rb" "list_all one_line (map snd (rd_scanner r))" "testable f"
  shows "\<exists>M. rd_rewrite_buffer r' = Some (rb @ unlines M) \<and> list_all one_line M \<and> replays f M a b"
  using assms(1-3)
proof (induction "length (rd_scanner r)" arbitrary: r a rb rule: less_induct)
  case less
  obtain r1 res where nx: "reader_next r = Some (r1, res)"
    using less.prems(1) by (subst (asm) run_loop.simps) (auto split: option.split_asm)
  consider "res = Inr False" "r' = r1" "b = a"
    | r2 a2 where "res = Inr True" "run_directive f (r1, a) = Some (r2, a2)" "run_loop f r2 a2 = Some (r', b, Inr ())"
    using less.prems(1) nx by (subst (asm) run_loop.simps) (auto split: sum.split_asm if_split_asm option.split_asm)
  then show ?case
  proof cases
    case 1
    from reader_next_end [OF nx [unfolded 1(1)]] obtain skipped where s: "skip_comments (rd_scanner r) = ([], skipped, None)"
      "map snd (rd_scanner r) = skipped" "rd_rewrite_buffer r1 = map_option (\<lambda>rb. rb @ unlines skipped) (rd_rewrite_buffer r)"
      by blast
    have "\<exists>q'. run_loop f q a = Some (q', a, Inr ()) \<and> rd_rewrite_buffer q' = None"
      if "rd_rewrite_buffer q = None" "set (map snd (rd_scanner q)) \<subseteq> set skipped" for q
      using skip_comments_end [OF s(1), of "rd_scanner q"] that
      by (subst run_loop.simps) (simp add: reader_next_def emit_all_eq)
    moreover have "set (butlast skipped) \<subseteq> set skipped" by (auto dest: in_set_butlastD)
    ultimately have "replays f skipped a b" unfolding replays_def 1(3) by (metis order_refl)
    then show ?thesis using s less.prems(2,3) 1(2) by auto
  next
    case 2
    obtain H where H: "rd_rewrite_buffer r1 = Some (rb @ unlines H)" "set H \<union> snd ` set (rd_scanner r1) \<subseteq> snd ` set (rd_scanner r)"
      and read: "\<And>q A R. rd_rewrite_buffer q = None \<Longrightarrow> output_lines A \<Longrightarrow>
        map snd (rd_scanner q) = H @ separator # output_block A @ R \<or>
          R = [] \<and> map snd (rd_scanner q) = H @ separator # butlast (output_block A) \<Longrightarrow>
        \<exists>q'. reader_next q = Some (q', Inr True) \<and> rd_rewrite_buffer q' = None \<and> map snd (rd_scanner q') = R \<and>
          same_data (rd_data r1) (rd_data q') \<and> td_expected (rd_data q') = unlines A"
      by (rule next_replay [OF nx [unfolded 2(1)] less.prems(2)]) blast
    obtain A where A: "rd_rewrite_buffer r2 = Some ((rb @ unlines H) @ unlines (separator # output_block A))" "list_all one_line A" "output_lines A"
      and run: "\<And>q. rd_rewrite_buffer q = None \<Longrightarrow> same_data (rd_data r1) (rd_data q) \<Longrightarrow> td_expected (rd_data q) = unlines A \<Longrightarrow>
        run_directive f (q, a) = Some (q, a2)"
      by (rule run_directive_rewrite [OF 2(2) H(1) assms(4)]) blast
    have sc: "rd_scanner r2 = rd_scanner r1" by (rule run_directive_scanner [OF 2(2)])
    then have len: "length (rd_scanner r2) < length (rd_scanner r)" using reader_next_length [OF nx [unfolded 2(1)]] by simp
    have one: "list_all one_line (map snd (rd_scanner r2))" "list_all one_line H"
      using less.prems(3) H(2) unfolding list_all_iff set_map sc by (meson Un_subset_iff subsetD)+
    from less.hyps [OF len 2(3) A(1) one(1)] obtain M where M: "rd_rewrite_buffer r' = Some (((rb @ unlines H) @ unlines (separator # output_block A)) @ unlines M)"
      "list_all one_line M" "replays f M a2 b" by blast
    let ?M = "H @ separator # output_block A @ M"
    have "list_all one_line ?M"
      using one(2) A(2) M(2) by (auto simp: output_block_def one_line_def separator_def)
    moreover have "replays f ?M a b" by (rule replays_directive [OF read run A(3) M(3)])
    moreover have "rd_rewrite_buffer r' = Some (rb @ unlines ?M)" using M(1) by simp
    ultimately show ?thesis by blast
  qed
qed

lemma strip_end_lines:
  assumes "list_all one_line M"
  shows "strip_end (unlines M) = unlines M \<or> M \<noteq> [] \<and> last M = [] \<and> strip_end (unlines M) = unlines (butlast M)"
proof (cases M rule: rev_cases)
  case (snoc N l)
  show ?thesis
  proof (cases l rule: rev_cases)
    case Nil
    then show ?thesis using snoc by (simp add: strip_end_def)
  next
    case (snoc k c)
    then have "c \<noteq> CHR 0x0A" using assms \<open>M = N @ [l]\<close> by (auto simp: one_line_def)
    then show ?thesis using snoc \<open>M = N @ [l]\<close> by (simp add: strip_end_def)
  qed
qed (simp add: strip_end_def)

text \<open>C39: a test file that was rewritten passes.  When the runner has rewritten a test file with the outputs of a function,
  running the rewritten file as a test with the same function succeeds, whatever comments, wrapped directives, inputs,
  blank lines and single or double separators the file has, as long as it has no carriage return.  The function must not look at the expected output or the
  position, and its output must have no line \<open>----\<close> and, of the characters that count as white space, only blanks, tabs and
  line feeds.\<close>

theorem rewritten_test_passes:
  assumes "testable f" "CHR 0x0D \<notin> set content"
    and "run_test_internal source_name content f True a = Some (Inr (Some out), b)"
  shows "run_test_internal source_name out f False a = Some (Inr None, b)"
proof -
  let ?r = "TestDataReader_new source_name content True" and ?q = "TestDataReader_new source_name out False"
  obtain r' where r': "run_loop f ?r a = Some (r', b, Inr ())" "map_option strip_end (rd_rewrite_buffer r') = Some out"
    using assms(3) by (auto simp: run_test_internal_def elim!: bind_SomeE split: sum.split_asm)
  have "list_all one_line (map snd (rd_scanner ?r))" "rd_rewrite_buffer ?r = Some []"
    using lines_one_line [OF assms(2)] by (simp_all add: TestDataReader_new_def)
  with run_rewrite [OF r'(1) _ _ assms(1)] obtain M where M: "rd_rewrite_buffer r' = Some (unlines M)" "list_all one_line M" "replays f M a b"
    by auto
  have "list_all one_line (butlast M)" using M(2) by (auto simp: list_all_iff dest: in_set_butlastD)
  moreover have "out = strip_end (unlines M)" using r'(2) M(1) by simp
  ultimately have "str_lines out = M \<or> M \<noteq> [] \<and> last M = [] \<and> str_lines out = butlast M"
    using strip_end_lines [OF M(2)] lines_unlines [OF M(2)] lines_unlines [of "butlast M"] by metis
  then have "map snd (rd_scanner ?q) = M \<or> M \<noteq> [] \<and> last M = [] \<and> map snd (rd_scanner ?q) = butlast M"
    by (simp add: TestDataReader_new_def)
  moreover have "rd_rewrite_buffer ?q = None" by (simp add: TestDataReader_new_def)
  ultimately obtain q' where "run_loop f ?q a = Some (q', b, Inr ())" "rd_rewrite_buffer q' = None"
    using M(3) unfolding replays_def by blast
  then show ?thesis by (simp add: run_test_internal_def)
qed

text \<open>Two directives, the first wrapped and with two lines of output around a blank one.\<close>

definition ex_answer :: "nat \<Rightarrow> TestData \<Rightarrow> string \<times> nat" where
  "ex_answer k d = (if contains_key d ''two'' then ''x'' @ nl @ nl @ ''y'' else ''one'', k + 1)"

definition ex_test_file :: string where
  "ex_test_file = unlines [''# comment'', ''first a=1 '' @ [CHR 0x5C], ''  two'', ''input'', ''----'', ''old'', [], ''second'', ''----'', ''old'']"

theorem rewritten_test_passes_witness:
  "run_test_internal ''t'' ex_test_file ex_answer False 0 = None \<and>
    run_test_internal ''t'' (unlines [''# comment'', ''first a=1 '' @ [CHR 0x5C], ''  two'', ''input'', ''----'', ''----'', ''x'', [], ''y'',
      ''----'', ''----'', [], ''second'', ''----'', ''one'']) ex_answer False 0 = Some (Inr None, 2)"
proof -
  have rw: "run_test_internal ''t'' ex_test_file ex_answer True 0 = Some (Inr (Some (unlines [''# comment'', ''first a=1 '' @ [CHR 0x5C], ''  two'',
      ''input'', ''----'', ''----'', ''x'', [], ''y'', ''----'', ''----'', [], ''second'', ''----'', ''one''])), 2)"
    "run_test_internal ''t'' ex_test_file ex_answer False 0 = None" "CHR 0x0D \<notin> set ex_test_file"
    by code_simp+
  have "clean (''x'' @ nl @ nl @ ''y'')" "clean ''one''" by code_simp+
  then have "testable ex_answer" by (auto simp: testable_def ex_answer_def same_data_def contains_key_def)
  from rewritten_test_passes [OF this rw(3,1)] rw(2) show ?thesis by blast
qed

text \<open>The condition on lines \<open>----\<close> is needed: an output of that form is written after one separator and read as the start of a
  section between double separators, which never ends.\<close>

lemma rewritten_separator_fails:
  "run_test_internal ''t'' (unlines [''cmd'', ''----'']) (\<lambda>_ _. (''----'', ())) True () =
     Some (Inr (Some (unlines [''cmd'', ''----'', ''----''])), ()) \<and>
   run_test_internal ''t'' (unlines [''cmd'', ''----'', ''----'']) (\<lambda>_ _. (''----'', ())) False () = None"
  by code_simp

end
