(* ===== verification/Spec2Isabelle.thy ===== *)
theory Spec2Isabelle
  imports Raft_Sending Harness_Network Example_Nodes Datadriven
begin

text \<open>
  A verification library for \<^verbatim>\<open>raft-rs\<close>, a Rust implementation of the Raft consensus protocol with pre-vote, joint
  consensus, learners, group commit, flow control, asynchronous persistence, and the extension by witnesses
  (``extended Raft''): a witness votes and acknowledges entries without keeping a log.  Paths below are under
  \<^verbatim>\<open>src/\<close>.

  \<^bold>\<open>The program.\<close>  A node is a value of \<^verbatim>\<open>Raft\<close> (\<^verbatim>\<open>src/raft.rs\<close>).  It holds a log (\<^verbatim>\<open>raft_log.rs\<close>: a stable part behind
  the trait \<^verbatim>\<open>Storage\<close> of \<^verbatim>\<open>storage.rs\<close>, an unstable part in \<^verbatim>\<open>log_unstable.rs\<close>), a tracker of its peers (\<^verbatim>\<open>tracker.rs\<close>,
  with one \<^verbatim>\<open>Progress\<close> per peer, each with a window \<^verbatim>\<open>Inflights\<close>), the queue of reads (\<^verbatim>\<open>read_only.rs\<close>), and it decides by
  quorums (\<^verbatim>\<open>quorum/\<close>).  Membership changes are computed by \<^verbatim>\<open>confchange/\<close>.  A host drives the node through \<^verbatim>\<open>RawNode\<close>
  (\<^verbatim>\<open>raw_node.rs\<close>): it steps messages and ticks in, takes a \<^verbatim>\<open>Ready\<close> out, persists and sends what it says, and advances.
  A witness (\<^verbatim>\<open>witness.rs\<close>) is a separate small state machine in another process.

  \<^bold>\<open>The theories\<close>, each opening with what it holds:

  \<^item> \<open>Prelude\<close>: \<^verbatim>\<open>panic!\<close> and failed assertions as \<open>None\<close>, insertion-ordered maps and sets for \<^verbatim>\<open>HashMap\<close> and \<^verbatim>\<open>HashSet\<close>,
    loops over collections (\<open>foldM\<close>), consecutive indices (\<open>contiguous\<close>), rules for binds.
  \<^item> \<open>Quorum\<close> (\<^verbatim>\<open>quorum.rs\<close>, \<^verbatim>\<open>quorum/\<close>): commit indices and vote results; the locale \<open>quorum_system\<close> (larger sets stay
    quorums, two quorums meet), interpreted on joint configurations as \<open>jq\<close>.
  \<^item> \<open>InflightsBuf\<close> (\<^verbatim>\<open>tracker/inflights.rs\<close>): the ring buffer; the locale \<open>flow_window\<close>, a bounded queue, interpreted on it as
    \<open>iw\<close>, and its refinement of a queue.
  \<^item> \<open>Progress_Tracking\<close> (\<^verbatim>\<open>tracker/progress.rs\<close>, \<^verbatim>\<open>state.rs\<close>): the replication states of a peer.
  \<^item> \<open>Proto\<close> (\<^verbatim>\<open>proto/\<close>, \<^verbatim>\<open>util.rs\<close>, \<^verbatim>\<open>errors.rs\<close>): messages, entries, configuration states with their default values, errors,
    size limits, the text format of configuration changes.
  \<^item> \<open>Log_Unstable\<close>, \<open>Storage_Mem\<close>, \<open>Raft_Log\<close>: the log.  The trait \<^verbatim>\<open>Storage\<close> is the record of operations \<open>Storage\<close>, its
    contract the locale \<open>storage\<close>; \<^verbatim>\<open>MemStorage\<close> is an instance (\<open>mem\<close>).  The log is related to the list of entries it stands
    for: slices, appends, scans and commits are exact on that list.
  \<^item> \<open>Tracker\<close>, \<open>Confchange\<close>: configurations, replication sets of the extended protocol, and their changes.  Every accepted
    change keeps the invariant that \<^verbatim>\<open>check_invariants\<close> tests, and the quorums before and after it meet.
  \<^item> \<open>Config\<close>, \<open>Read_Only\<close>, \<open>Witness\<close>: validation, the read queue, the witness.
  \<^item> \<open>Raft_Core\<close>, \<open>Raft_Election\<close>, \<open>Raft_Step\<close> (\<^verbatim>\<open>raft.rs\<close>): the state of a node and sending; roles, elections, committing;
    the handlers of all message types, the clock, snapshots, membership, creation.  One definition per function, in the
    order of the calls; a definition for part of a long function names that function.
  \<^item> \<open>Raft_Safety\<close>: every operation keeps the term, the vote within a term and the commit index from going back.
  \<^item> \<open>Raft_Runs\<close>: runs of a node as a step relation \<open>node_step\<close> over everything the host can do; what holds along all runs.
  \<^item> \<open>Conf_Restore\<close> (\<^verbatim>\<open>confchange/restore.rs\<close>), \<open>Raft_Restart\<close>: rebuilding a configuration from a stored \<^verbatim>\<open>ConfState\<close>, and a node
    from its storage; what was persisted is there again, so no promise is broken across a restart.
  \<^item> \<open>Raft_Membership\<close>: no operation but \<^verbatim>\<open>apply_conf_change\<close> and the acceptance of a snapshot changes the configuration of a
    node, and what a node asks of its witnesses.
  \<^item> \<open>Raft_Sending\<close>: the loop of \<^verbatim>\<open>send_append_aggressively\<close> ends, by the room left in the window of the peer.
  \<^item> \<open>Raft_Elections\<close>, \<open>Raft_Cluster\<close>: what every operation does to an election, and the composition of any number of nodes
    and witnesses over a lossy, reordering, duplicating network, with restarts: election safety.
  \<^item> \<open>Raw_Node\<close> (\<^verbatim>\<open>raw_node.rs\<close>, \<^verbatim>\<open>status.rs\<close>): the Ready protocol; committed entries reach the host in order and exactly once.
  \<^item> \<open>Host_Runs\<close>: what a host does to a node through \<^verbatim>\<open>RawNode\<close> is a run of the cluster, so that the theorems of \<open>Raft_Cluster\<close> hold
    of the hosts that follow.
  \<^item> \<open>Harness_Network\<close> (\<^verbatim>\<open>harness/\<close>): the simulated network of the integration tests, taken apart into
    single steps; while the voters stay, a refinement of the cluster.
  \<^item> \<open>Witness_Demo\<close> (\<^verbatim>\<open>examples/witness_demo\<close>): the simulator of regular nodes and a witness, with \<^verbatim>\<open>RawNode\<close>, \<^verbatim>\<open>MemStorage\<close> and
    \<^verbatim>\<open>Witness\<close> composed as a host composes them; election safety and durability of the hard state there.
  \<^item> \<open>Example_Nodes\<close> (\<^verbatim>\<open>examples/five_mem_node\<close>, \<^verbatim>\<open>examples/single_mem_node\<close>): a replicated map with a queue of client proposals,
    and the order in which clients are answered.
  \<^item> \<open>Datadriven\<close> (\<^verbatim>\<open>datadriven/\<close>): the parser of directives, the reader of test files and the runner in test and rewrite mode.

  \<^bold>\<open>Conventions.\<close>  Data are records and datatypes with the source's fields and constructors (fields prefixed per record).
  \<^verbatim>\<open>u64\<close>, \<^verbatim>\<open>usize\<close> are \<open>nat\<close>: indices, terms and ids are far below \<open>2 ^ 64\<close>, and the overflow of a counter is not modelled;
  subtractions that could go below zero and indexing out of range panic, as they do in the source (debug builds for
  the former).  \<^verbatim>\<open>NO_LIMIT\<close> is \<open>2 ^ 64 - 1\<close>.  A function that can panic returns an option, one that returns \<^verbatim>\<open>Result\<close> a sum.
  Mutable state is passed explicitly.  Code outside the repository is a parameter: the storage behind the trait, the
  random number generator (\<open>random_range\<close>), the protobuf decoder of configuration changes (\<open>merge_ConfChange\<close>), the encoded size of
  an entry, the captures of the regular expression of an example (\<open>put_captures\<close> says what is relied on).  The order in which a \<^verbatim>\<open>HashMap\<close> is iterated is insertion order in the model.

  Channels are lists, loss rates are rationals, and what a random number or the clock decides is an argument.

  \<^bold>\<open>Recursion and fuel.\<close>  No definition uses fuel.  Loops are structural recursions or have a termination proof, with two
  exceptions that are partial functions into the option type: \<open>core_send_append_aggressively\<close>, for which it is proved that it
  returns (\<open>send_append_aggressively_returns\<close>), and \<open>network_send\<close>, the loop of the test network that delivers until no message is
  left: it need not end, and what is shown of it is that a call that returns is a sequence of steps of a test.  \<open>log_scan\<close> is a
  total function that visits the whole range (\<open>scan_visits_range\<close>).  \<open>campaign\<close> and \<open>poll\<close> call each other; the recursion has depth
  two (a pre-election that wins starts an election) and is unfolded as such.

  \<^bold>\<open>What is shown.\<close>  Across components: at most one leader per term in a whole cluster of nodes and witnesses, also when nodes
  stop and are restarted, and in the simulators of the repository, which are shown to be such clusters; one vote per node and
  term; a leader commits only entries of its own term by counting; terms, votes and commit indices never go back; the host
  receives every committed entry once and in order, and messages of a follower only to be sent after the state they promise has
  been persisted; clients of the replicated map are answered in their order.  Per component: exactness of the log operations,
  the flow window refines a queue, the invariants of progress and configurations, round trips of persisted, printed and parsed
  forms, the error cases of storage and configuration changes, and a number of places where the code does something other than
  its documentation or its purpose (a late vote request that a witness ignores, a fresh leader that does not contact the
  witness, a configuration comparison that ignores witnesses, a joint change that loses half of the replication sets, a pre-vote
  that the demo translates into a vote, a refused proposal that stays in the queue and brings the leader down, a put that is
  answered but not stored).

  \<^bold>\<open>Not modelled.\<close>  The crate root (documentation and exports) and the benchmarks, which have no logic of their own; logging,
  formatting and debug assertions; plain accessors; locks, threads and clocks (an operation, or a turn of a thread, is atomic);
  the scripts \<^verbatim>\<open>main\<close> of the examples; reading and writing files; the byte encoding (generated code); memory management of
  buffers where it has no visible effect; the overflow of 64-bit counters; changing memberships in the cluster theorem (the
  voters are fixed there; the meeting of quorums across a change is proved in \<open>Confchange\<close>).
\<close>

end
